(* ===== verification/Prelude.thy ===== *)
theory Prelude
  imports Main "HOL-Library.Word" "HOL-Library.Signed_Division" "HOL-Library.Multiset"
begin

text \<open>
  Shared vocabulary of the development: the machine integers of \<^verbatim>\<open>types.h\<close>, the C++ casts and the
  truncating division, the linear searches over the fixed-capacity arrays of the trading
  components, and the swap-with-last erase of \<^verbatim>\<open>risk_manager.h\<close>.

  Machine integers are words.  An expression is evaluated in \<open>int\<close> (exactly, as the C++ promotes
  to \<^verbatim>\<open>int64_t\<close> or \<^verbatim>\<open>__int128\<close>) and every store into a typed variable truncates with
  \<^const>\<open>word_of_int\<close>, so wrap-around is part of the model and its absence is a theorem.
\<close>

unbundle bit_operations_syntax

named_theorems word_conv \<open>reading words as integers, with and without truncation\<close>
named_theorems list_loop \<open>the loops over the live prefix of a fixed-capacity array\<close>

type_synonym byte = "8 word"

subsection \<open>Storing and reading machine integers\<close>

definition i32 :: "int \<Rightarrow> 32 word" where
  "i32 x = word_of_int x"

definition i64 :: "int \<Rightarrow> 64 word" where
  "i64 x = word_of_int x"

lemma sint_word_of_int_fits:
  assumes "- (2 ^ (LENGTH('a::len) - 1)) \<le> x" and "x < 2 ^ (LENGTH('a) - 1)"
  shows "sint (word_of_int x :: 'a word) = x"
  using assms by (simp add: sint_sbintrunc' signed_take_bit_int_eq_self)

lemma sint_i32 [word_conv]:
  "- 2147483648 \<le> x \<Longrightarrow> x < 2147483648 \<Longrightarrow> sint (i32 x) = x"
  using sint_word_of_int_fits [where 'a = 32, of x] by (simp add: i32_def)

lemma sint_i64 [word_conv]:
  "- 9223372036854775808 \<le> x \<Longrightarrow> x < 9223372036854775808 \<Longrightarrow> sint (i64 x) = x"
  using sint_word_of_int_fits [where 'a = 64, of x] by (simp add: i64_def)

lemma uint_i32 [word_conv]: "0 \<le> x \<Longrightarrow> x < 4294967296 \<Longrightarrow> uint (i32 x) = x"
  by (simp add: i32_def uint_word_of_int)

lemma sint32_bounds: "- 2147483648 \<le> sint (w :: 32 word)" "sint (w :: 32 word) < 2147483648"
  using sint_range_size [of w] by (auto simp: word_size)

lemma sint64_bounds:
  "- 9223372036854775808 \<le> sint (w :: 64 word)" "sint (w :: 64 word) < 9223372036854775808"
  using sint_range_size [of w] by (auto simp: word_size)

lemma uint32_bounds: "0 \<le> uint (w :: 32 word)" "uint (w :: 32 word) < 4294967296"
  using uint_range_size [of w] by (auto simp: word_size)

lemma uint64_bounds: "0 \<le> uint (w :: 64 word)" "uint (w :: 64 word) < 18446744073709551616"
  using uint_range_size [of w] by (auto simp: word_size)

lemma uint32_pos: "(w :: 32 word) \<noteq> 0 \<Longrightarrow> 0 < uint w"
  by (simp add: word_neq_0_conv word_less_def)

lemma sint_i64_uint32 [simp]: "sint (i64 (uint (w :: 32 word))) = uint w"
  using uint32_bounds(2) [of w] uint_ge_0 [of w] by (intro sint_i64) linarith+

lemma sint_i64_uint32_neg [simp]: "sint (i64 (- uint (w :: 32 word))) = - uint w"
  using uint32_bounds(2) [of w] uint_ge_0 [of w] by (intro sint_i64) linarith+

lemma i64_sint [simp]: "i64 (sint w) = w"
  by (simp add: i64_def)

lemma i32_sint [simp]: "i32 (sint w) = w"
  by (simp add: i32_def)

lemma i32_uint [simp]: "i32 (uint w) = w"
  by (simp add: i32_def)

lemma sint_eq_iff: "(a :: 'a::len word) = b \<longleftrightarrow> sint a = sint b"
  by (rule signed_word_eqI [THEN iffI [rotated]]) auto

lemma sint_add64 [word_conv]:
  "- 9223372036854775808 \<le> sint a + sint b \<Longrightarrow> sint a + sint b < 9223372036854775808 \<Longrightarrow>
    sint (a + b :: 64 word) = sint a + sint b"
  using sint_i64 [of "sint a + sint b"] by (simp add: i64_def wi_hom_syms)

lemma sint_diff64 [word_conv]:
  "- 9223372036854775808 \<le> sint a - sint b \<Longrightarrow> sint a - sint b < 9223372036854775808 \<Longrightarrow>
    sint (a - b :: 64 word) = sint a - sint b"
  using sint_i64 [of "sint a - sint b"] by (simp add: i64_def wi_hom_syms)

lemma sint_minus64 [word_conv]:
  "- 9223372036854775808 < sint a \<Longrightarrow> sint (- a :: 64 word) = - sint a"
  using sint_i64 [of "- sint a"] sint64_bounds [of a] by (simp add: i64_def wi_hom_syms)

lemma i64_eq_0_iff [word_conv]:
  "- 9223372036854775808 \<le> x \<Longrightarrow> x < 9223372036854775808 \<Longrightarrow> i64 x = 0 \<longleftrightarrow> x = 0"
  by (simp add: sint_eq_iff sint_i64)

lemma sint_0_iff [simp]: "sint w = 0 \<longleftrightarrow> w = 0"
  by (simp add: sint_eq_iff)

subsection \<open>Truncating division\<close>

lemma sdiv_nonneg: "0 \<le> x \<Longrightarrow> 0 < n \<Longrightarrow> x sdiv n = x div n" for x n :: int
  by (simp add: signed_divide_int_def sgn_if)

lemma sdiv_neg: "x < 0 \<Longrightarrow> 0 < n \<Longrightarrow> x sdiv n = - ((- x) div n)" for x n :: int
  by (simp add: signed_divide_int_def sgn_if)

lemma sdiv_enclosed:
  fixes x n lo hi :: int
  assumes n: "0 < n" and lo: "lo * n \<le> x" and hi: "x \<le> hi * n"
  shows "lo \<le> x sdiv n \<and> x sdiv n \<le> hi"
proof -
  have *: "lo \<le> x div n" "x div n \<le> hi"
    using zdiv_mono1 [OF lo n] zdiv_mono1 [OF hi n] n by simp_all
  have **: "- hi \<le> (- x) div n" "(- x) div n \<le> - lo"
    using zdiv_mono1 [of "(- hi) * n" "- x" n] zdiv_mono1 [of "- x" "(- lo) * n" n] lo hi n
    by (simp_all del: mult_minus_left add: minus_mult_left)
  show ?thesis
    by (cases "0 \<le> x") (use * ** n in \<open>simp_all add: sdiv_nonneg sdiv_neg\<close>)
qed

lemma weighted_between:
  fixes lo hi a p m n :: int
  assumes "lo \<le> a" "a \<le> hi" "lo \<le> p" "p \<le> hi" "0 \<le> m" "0 \<le> n"
  shows "lo * (m + n) \<le> a * m + p * n" and "a * m + p * n \<le> hi * (m + n)"
  using mult_right_mono [OF assms(1,5)] mult_right_mono [OF assms(2,5)]
    mult_right_mono [OF assms(3,6)] mult_right_mono [OF assms(4,6)]
  by (simp_all add: distrib_left)

lemma sdiv_rounding:
  fixes x n :: int
  assumes "0 < n"
  shows "\<bar>x - (x sdiv n) * n\<bar> < n"
proof (cases "0 \<le> x")
  case True
  have "x - (x div n) * n = x mod n" by (simp add: minus_div_mult_eq_mod)
  with True assms show ?thesis by (simp add: sdiv_nonneg)
next
  case False
  have "- x - ((- x) div n) * n = (- x) mod n" by (simp add: minus_div_mult_eq_mod)
  moreover have "0 \<le> (- x) mod n" "(- x) mod n < n" using assms by simp_all
  ultimately have "\<bar>- x - ((- x) div n) * n\<bar> < n" by simp
  then show ?thesis using False assms by (simp add: sdiv_neg abs_if split: if_splits)
qed

subsection \<open>Linear search over the live prefix of an array\<close>

text \<open>
  The arrays of the trading components are read only below their \<^verbatim>\<open>count_\<close>; the model keeps that
  live prefix as a list.  \<open>find_index\<close> is the loop \<^verbatim>\<open>for (i = 0; i < count_; ++i) if (p(a[i])) return i\<close>.
\<close>

fun find_index :: "('a \<Rightarrow> bool) \<Rightarrow> 'a list \<Rightarrow> nat option" where
  "find_index p [] = None"
| "find_index p (x # xs) = (if p x then Some 0 else map_option Suc (find_index p xs))"

definition swap_erase :: "nat \<Rightarrow> 'a list \<Rightarrow> 'a list" where
  "swap_erase i xs = butlast (xs[i := last xs])"

lemma find_index_None [list_loop]: "find_index p xs = None \<longleftrightarrow> (\<forall>x \<in> set xs. \<not> p x)"
  by (induction xs) auto

lemma find_index_SomeD:
  "find_index p xs = Some i \<Longrightarrow> i < length xs \<and> p (xs ! i) \<and> (\<forall>j < i. \<not> p (xs ! j))"
proof (induction xs arbitrary: i)
  case (Cons x xs)
  then show ?case
    by (auto simp: less_Suc_eq_0_disj nth_Cons split: if_splits nat.splits)
qed simp

lemma find_index_length: "find_index p xs = Some i \<Longrightarrow> i < length xs"
  by (blast dest: find_index_SomeD)

lemma find_index_holds: "find_index p xs = Some i \<Longrightarrow> p (xs ! i)"
  by (blast dest: find_index_SomeD)

lemma find_index_mem: "find_index p xs = Some i \<Longrightarrow> xs ! i \<in> set xs"
  by (auto dest: find_index_length)

lemma find_index_append:
  "find_index p (xs @ ys) =
     (case find_index p xs of Some i \<Rightarrow> Some i | None \<Rightarrow> map_option ((+) (length xs)) (find_index p ys))"
  by (induction xs)
    (auto split: option.splits simp: option.map_comp comp_def intro: option.map_cong
      option.map_ident_strong [symmetric])

lemma find_index_map: "find_index p (map f xs) = find_index (p \<circ> f) xs"
  by (induction xs) auto

lemma find_index_same_keys:
  "map k xs = map k ys \<Longrightarrow> find_index (\<lambda>x. k x = a) xs = find_index (\<lambda>x. k x = a) ys"
  using find_index_map [of "\<lambda>x. x = a" k xs] find_index_map [of "\<lambda>x. x = a" k ys]
  by (simp add: comp_def)

lemma map_update_same: "i < length xs \<Longrightarrow> f y = f (xs ! i) \<Longrightarrow> map f (xs[i := y]) = map f xs"
  by (metis list_update_id map_update)

lemma find_index_key_unique:
  assumes "distinct (map k xs)" and "i < length xs"
  shows "find_index (\<lambda>x. k x = k (xs ! i)) xs = Some i"
proof (cases "find_index (\<lambda>x. k x = k (xs ! i)) xs")
  case None
  with assms(2) show ?thesis by (auto simp: find_index_None)
next
  case (Some j)
  then have "j < length xs" "k (xs ! j) = k (xs ! i)"
    by (auto dest: find_index_SomeD)
  with assms have "j = i" by (metis distinct_conv_nth length_map nth_map)
  with Some show ?thesis by simp
qed

lemma mset_swap_erase [list_loop]:
  assumes "i < length xs"
  shows "mset (swap_erase i xs) = mset xs - {#xs ! i#}"
proof -
  from assms have ne: "xs[i := last xs] \<noteq> []" by auto
  have lst: "last (xs[i := last xs]) = last xs"
    using assms ne by (cases "i = length xs - 1") (simp_all add: last_conv_nth)
  have "mset (butlast (xs[i := last xs])) = mset (xs[i := last xs]) - {#last xs#}"
    using append_butlast_last_id [OF ne] lst by (metis add_diff_cancel_right' mset.simps(1,2) mset_append)
  also have "\<dots> = mset xs - {#xs ! i#}"
    using assms by (simp add: mset_update)
  finally show ?thesis by (simp add: swap_erase_def)
qed

lemma length_swap_erase [list_loop]: "length (swap_erase i xs) = length xs - 1"
  by (simp add: swap_erase_def)

lemma set_swap_erase_subset: "i < length xs \<Longrightarrow> set (swap_erase i xs) \<subseteq> set xs"
  by (metis in_diffD mset_swap_erase set_mset_mset subsetI)

lemma sum_list_swap_erase [list_loop]:
  fixes f :: "'a \<Rightarrow> int"
  assumes "i < length xs"
  shows "sum_list (map f (swap_erase i xs)) = sum_list (map f xs) - f (xs ! i)"
proof -
  have "sum_mset (image_mset f (mset xs)) =
      f (xs ! i) + sum_mset (image_mset f (mset xs - {#xs ! i#}))"
    using assms by (metis add_mset_add_single image_mset_add_mset insert_DiffM nth_mem_mset sum_mset.insert)
  moreover have "sum_mset (image_mset f (mset ys)) = sum_list (map f ys)" for ys
    by (metis mset_map sum_mset_sum_list)
  ultimately show ?thesis by (metis add_diff_cancel_left' assms mset_swap_erase)
qed

lemma distinct_swap_erase:
  assumes "distinct (map k xs)" and "i < length xs"
  shows "distinct (map k (swap_erase i xs))"
proof -
  obtain us vs where xs: "xs = us @ xs ! i # vs"
    using assms(2) id_take_nth_drop by metis
  then have "mset xs - {#xs ! i#} = mset (us @ vs)"
    by (metis add_mset_remove_trivial mset.simps(2) mset_append union_mset_add_mset_right)
  then have "mset (map k (swap_erase i xs)) = mset (map k (us @ vs))"
    using assms(2) by (simp add: mset_swap_erase)
  moreover have "distinct (map k (us @ vs))"
    using assms(1) by (subst (asm) xs) auto
  ultimately show ?thesis by (metis mset_eq_imp_distinct_iff)
qed

lemma sum_list_update_int:
  fixes f :: "'a \<Rightarrow> int"
  assumes "i < length xs"
  shows "sum_list (map f (xs[i := y])) = sum_list (map f xs) - f (xs ! i) + f y"
  using assms by (induction xs arbitrary: i) (auto split: nat.splits)

subsection \<open>Arrays of records read through a key\<close>

text \<open>
  The abstraction of a table whose entries are found by a key: a finite map from keys to entries.
\<close>

definition keyed :: "('a \<Rightarrow> 'k) \<Rightarrow> 'a list \<Rightarrow> 'k \<rightharpoonup> 'a" where
  "keyed k xs = map_of (map (\<lambda>x. (k x, x)) xs)"

lemma keyed_find: "keyed k xs a = map_option (nth xs) (find_index (\<lambda>x. k x = a) xs)"
  by (induction xs) (auto simp: keyed_def option.map_comp comp_def)

lemma keyed_Some_iff:
  assumes "distinct (map k xs)"
  shows "keyed k xs a = Some x \<longleftrightarrow> x \<in> set xs \<and> k x = a"
proof -
  have "distinct (map fst (map (\<lambda>x. (k x, x)) xs))" using assms by (simp add: comp_def)
  then show ?thesis unfolding keyed_def by (subst map_of_eq_Some_iff) auto
qed

lemma keyed_None_iff: "keyed k xs a = None \<longleftrightarrow> a \<notin> k ` set xs"
  by (force simp: keyed_def map_of_eq_None_iff)

lemma keyed_eqI:
  assumes "distinct (map k xs)" and "\<And>x. x \<in> set xs \<Longrightarrow> m (k x) = Some x"
    and "\<And>a. a \<notin> k ` set xs \<Longrightarrow> m a = None"
  shows "keyed k xs = m"
proof
  fix a
  show "keyed k xs a = m a"
  proof (cases "keyed k xs a")
    case None
    then show ?thesis using assms(3) by (simp add: keyed_None_iff)
  next
    case (Some x)
    then show ?thesis using assms(1,2) by (auto simp: keyed_Some_iff)
  qed
qed

lemma keyed_nth: "distinct (map k xs) \<Longrightarrow> i < length xs \<Longrightarrow> keyed k xs (k (xs ! i)) = Some (xs ! i)"
  by (simp add: keyed_Some_iff)

lemma key_clash: "k y \<notin> k ` S \<Longrightarrow> x \<in> S \<Longrightarrow> k x = k y \<Longrightarrow> P"
  by (metis imageI)

lemma keyed_append:
  assumes "distinct (map k xs)" and "k x \<notin> k ` set xs"
  shows "keyed k (xs @ [x]) = (keyed k xs)(k x \<mapsto> x)"
proof (rule keyed_eqI)
  show "((keyed k xs)(k x \<mapsto> x)) (k y) = Some y" if "y \<in> set (xs @ [x])" for y
    using that assms by (cases "y = x") (auto simp: keyed_Some_iff elim: key_clash)
qed (use assms in \<open>auto simp: keyed_None_iff\<close>)

lemma set_swap_erase:
  assumes "distinct xs" and "i < length xs"
  shows "set (swap_erase i xs) = set xs - {xs ! i}"
proof -
  have "set_mset (mset (swap_erase i xs)) = set_mset (mset xs - {#xs ! i#})"
    using assms(2) by (simp add: mset_swap_erase)
  also have "\<dots> = set xs - {xs ! i}"
    using assms(1) by (simp add: distinct_count_atmost_1 set_eq_iff in_diff_count)
  finally show ?thesis by simp
qed

lemma distinct_update_key:
  assumes "distinct (map k xs)" and "i < length xs" and "k y = k (xs ! i) \<or> k y \<notin> k ` set xs"
  shows "distinct (map k (xs[i := y]))"
  using assms by (auto simp: map_update map_update_same intro!: distinct_list_update)

lemma keyed_update:
  assumes d: "distinct (map k xs)" and i: "i < length xs"
    and y: "k y = k (xs ! i) \<or> k y \<notin> k ` set xs"
  shows "keyed k (xs[i := y]) = (keyed k xs)(k (xs ! i) := None, k y \<mapsto> y)"
proof (rule keyed_eqI)
  show "distinct (map k (xs[i := y]))" using assms by (rule distinct_update_key)
  have set: "set (xs[i := y]) = insert y (set xs - {xs ! i})"
    using d i by (simp add: set_update_distinct distinct_map)
  have inj: "k x = k (xs ! i) \<longleftrightarrow> x = xs ! i" if "x \<in> set xs" for x
    using d i that by (auto simp: distinct_map dest: inj_onD)
  show "((keyed k xs)(k (xs ! i) := None, k y \<mapsto> y)) (k x) = Some x" if "x \<in> set (xs[i := y])" for x
    using that y d inj i by (auto simp: set keyed_Some_iff elim: key_clash)
  show "((keyed k xs)(k (xs ! i) := None, k y \<mapsto> y)) a = None" if "a \<notin> k ` set (xs[i := y])" for a
    using that inj by (auto simp: set keyed_None_iff)
qed

lemma keyed_swap_erase:
  assumes d: "distinct (map k xs)" and i: "i < length xs"
  shows "keyed k (swap_erase i xs) = (keyed k xs)(k (xs ! i) := None)"
proof (rule keyed_eqI)
  show "distinct (map k (swap_erase i xs))" using assms by (rule distinct_swap_erase)
  have set: "set (swap_erase i xs) = set xs - {xs ! i}"
    using d i by (simp add: set_swap_erase distinct_map)
  have inj: "k x = k (xs ! i) \<longleftrightarrow> x = xs ! i" if "x \<in> set xs" for x
    using d i that by (auto simp: distinct_map dest: inj_onD)
  show "((keyed k xs)(k (xs ! i) := None)) (k x) = Some x" if "x \<in> set (swap_erase i xs)" for x
    using that d inj by (auto simp: set keyed_Some_iff)
  show "((keyed k xs)(k (xs ! i) := None)) a = None" if "a \<notin> k ` set (swap_erase i xs)" for a
    using that inj by (auto simp: set keyed_None_iff)
qed

end
