(* ===== verification/Types.thy ===== *)
theory Types
  imports Prelude
begin

text \<open>
  The domain types of \<^verbatim>\<open>src/types.h\<close>: integer aliases and their sentinels, the market update that
  the decoder hands to the books, the order request and response exchanged with the gateway, the
  position, and the best bid and offer.  Field names carry a prefix per struct, since the source
  reuses names such as \<open>qty\<close> and \<open>price\<close> in several structs.
\<close>

subsection \<open>Integer aliases and sentinels\<close>

type_synonym Price = "32 word"       \<comment> \<open>\<^verbatim>\<open>int32_t\<close>, read with \<^const>\<open>sint\<close>\<close>
type_synonym Quantity = "32 word"    \<comment> \<open>\<^verbatim>\<open>uint32_t\<close>, read with \<^const>\<open>uint\<close>\<close>
type_synonym OrderId = "64 word"
type_synonym SeqNum = "64 word"
type_synonym TickerId = "32 word"
type_synonym Ratio = "32 word"       \<comment> \<open>\<^verbatim>\<open>int32_t\<close>, read with \<^const>\<open>sint\<close>\<close>

definition Price_INVALID :: Price where
  "Price_INVALID = 0x80000000"

definition Ratio_INVALID :: Ratio where
  "Ratio_INVALID = 0x80000000"

definition Ratio_SCALE :: int where
  "Ratio_SCALE = 1000000"

definition OrderId_INVALID :: OrderId where
  "OrderId_INVALID = 0xFFFFFFFFFFFFFFFF"

definition TickerId_INVALID :: TickerId where
  "TickerId_INVALID = 0xFFFFFFFF"

subsection \<open>Enumerations\<close>

datatype Side = BUY | SELL

datatype UpdateType = ADD | ADD_MPID | EXECUTE | CANCEL | DELETE | REPLACE
  | SNAPSHOT_START | SNAPSHOT_CLEAR | SNAPSHOT_END

datatype OrderRequestType = RQ_NEW | RQ_CANCEL | RQ_REPLACE

datatype OrderResponseStatus = ACCEPTED | EXECUTED | CANCELED | REJECTED | CANCEL_REJECTED

subsection \<open>Structs\<close>

record MarketUpdate =
  mu_seq_num :: SeqNum
  mu_ticker_id :: TickerId
  mu_type :: UpdateType
  mu_side :: Side
  mu_price :: Price
  mu_qty :: Quantity
  mu_order_ref :: OrderId
  mu_new_ref :: OrderId

definition MarketUpdate_init :: MarketUpdate where
  "MarketUpdate_init = \<lparr>mu_seq_num = 0, mu_ticker_id = TickerId_INVALID, mu_type = ADD, mu_side = BUY,
     mu_price = 0, mu_qty = 0, mu_order_ref = 0, mu_new_ref = 0\<rparr>"

record OrderRequest =
  rq_type :: OrderRequestType
  rq_client_order_id :: OrderId
  rq_new_client_order_id :: OrderId
  rq_ticker_id :: TickerId
  rq_side :: Side
  rq_price :: Price
  rq_qty :: Quantity
  rq_ioc :: bool

record OrderResponse =
  rs_client_order_id :: OrderId
  rs_market_order_id :: OrderId
  rs_side :: Side
  rs_price :: Price
  rs_qty :: Quantity
  rs_executed_qty :: Quantity
  rs_execution_price :: Price
  rs_canceled_qty :: Quantity
  rs_status :: OrderResponseStatus

definition OrderResponse_init :: OrderResponse where
  "OrderResponse_init = \<lparr>rs_client_order_id = 0, rs_market_order_id = 0, rs_side = BUY, rs_price = 0,
     rs_qty = 0, rs_executed_qty = 0, rs_execution_price = 0, rs_canceled_qty = 0, rs_status = REJECTED\<rparr>"

record Position =
  net_qty :: "64 word"
  realized_pnl :: "64 word"
  unrealized_pnl :: "64 word"
  avg_entry_price :: Price
  mark_price :: Price

definition Position_init :: Position where
  "Position_init = \<lparr>net_qty = 0, realized_pnl = 0, unrealized_pnl = 0,
     avg_entry_price = Price_INVALID, mark_price = Price_INVALID\<rparr>"

record BBO =
  bid_price :: Price
  bid_qty :: Quantity
  ask_price :: Price
  ask_qty :: Quantity

definition BBO_init :: BBO where
  "BBO_init = \<lparr>bid_price = Price_INVALID, bid_qty = 0, ask_price = Price_INVALID, ask_qty = 0\<rparr>"

text \<open>Reserved \<^verbatim>\<open>stock_locate\<close> values of the snapshot stream (\<^verbatim>\<open>namespace SnapshotControl\<close>).\<close>

definition SNAPSHOT_START_locate :: "16 word" where
  "SNAPSHOT_START_locate = 0xBBBB"

definition SNAPSHOT_CLEAR_locate :: "16 word" where
  "SNAPSHOT_CLEAR_locate = 0xCCCC"

definition SNAPSHOT_END_locate :: "16 word" where
  "SNAPSHOT_END_locate = 0xEEEE"

subsection \<open>Signed quantities\<close>

text \<open>
  The expression \<^verbatim>\<open>side == Side::BUY ? static_cast<int64_t>(qty) : -static_cast<int64_t>(qty)\<close>,
  which the PnL tracker and the risk manager share.
\<close>

definition signed_qty :: "Side \<Rightarrow> Quantity \<Rightarrow> int" where
  "signed_qty s q = (case s of BUY \<Rightarrow> uint q | SELL \<Rightarrow> - uint q)"

lemma signed_qty_simps [simp]: "signed_qty BUY q = uint q" "signed_qty SELL q = - uint q"
  by (simp_all add: signed_qty_def)

lemma signed_qty_bound: "\<bar>signed_qty s q\<bar> < 4294967296"
  using uint32_bounds [of q] by (cases s) auto

lemma abs_signed_qty [simp]: "\<bar>signed_qty s q\<bar> = uint q"
  using uint32_bounds [of q] by (cases s) auto

lemma sint_Price_INVALID [simp]: "sint Price_INVALID = - 2147483648"
  by (simp add: Price_INVALID_def)

lemma sint_Ratio_INVALID [simp]: "sint Ratio_INVALID = - 2147483648"
  by (simp add: Ratio_INVALID_def)

lemma Price_valid_iff: "p \<noteq> Price_INVALID \<longleftrightarrow> - 2147483648 < sint p"
  using sint32_bounds(1) [of p] by (auto simp: sint_eq_iff)

end
