(* ===== verification/Market_Order_Book.thy ===== *)
theory Market_Order_Book
  imports Types "HOL-Library.AList" "HOL-Library.Monad_Syntax"
begin

text \<open>
  The limit order book, \<^verbatim>\<open>src/market_order_book.h\<close> and \<^verbatim>\<open>src/market_order_book.cpp\<close>.  Orders and price
  levels live in an explicit store: orders at addresses handed out by the object pool, levels at the
  addresses of their \<^verbatim>\<open>std::map\<close> nodes.  A level owns a doubly linked list of orders through \<^verbatim>\<open>head\<close>,
  \<^verbatim>\<open>tail\<close>, \<^verbatim>\<open>next\<close> and \<^verbatim>\<open>prev\<close>.  Operations return \<open>None\<close> where the code would follow a null or dangling
  pointer; that they do not is part of what is proved.

  \<^verbatim>\<open>quantlink::ObjectPool\<close> is not under \<^verbatim>\<open>src/\<close>: it is a parameter, a state of type \<open>'p\<close> with the two
  operations of \<open>PoolOps\<close>.  The level pool is constructed by the code but never used and is left out, as
  is the logger.
\<close>

type_synonym addr = nat       \<comment> \<open>address of a \<^verbatim>\<open>BookOrder\<close>\<close>
type_synonym laddr = nat      \<comment> \<open>address of a \<^verbatim>\<open>PriceLevel\<close>\<close>

record BookOrder =
  bo_order_ref :: OrderId
  bo_qty :: Quantity
  bo_next :: "addr option"
  bo_prev :: "addr option"

record PriceLevel =
  pl_price :: Price
  pl_total_qty :: Quantity
  pl_head :: "addr option"
  pl_tail :: "addr option"

definition PriceLevel_init :: PriceLevel where
  "PriceLevel_init = \<lparr>pl_price = 0, pl_total_qty = 0, pl_head = None, pl_tail = None\<rparr>"

record OrderLocation =
  ol_side :: Side
  ol_level :: laddr
  ol_order :: addr

record 'p PoolOps =
  po_allocate :: "'p \<Rightarrow> addr option \<times> 'p"
  po_deallocate :: "addr \<Rightarrow> 'p \<Rightarrow> 'p"

record 'p MarketOrderBook =
  bk_ticker_id :: TickerId
  bk_bids :: "(Price \<times> laddr) list"
  bk_asks :: "(Price \<times> laddr) list"
  bk_order_index :: "(OrderId \<times> OrderLocation) list"
  bk_bbo :: BBO
  bk_best_bid :: "laddr option"
  bk_best_ask :: "laddr option"
  bk_pool :: 'p
  bk_in_snapshot :: bool
  bk_orders :: "addr \<rightharpoonup> BookOrder"
  bk_levels :: "laddr \<rightharpoonup> PriceLevel"
  bk_fresh :: laddr              \<comment> \<open>no map node has this or a larger address\<close>

definition MarketOrderBook_init :: "TickerId \<Rightarrow> 'p \<Rightarrow> 'p MarketOrderBook" where
  "MarketOrderBook_init tid pool = \<lparr>bk_ticker_id = tid, bk_bids = [], bk_asks = [], bk_order_index = [],
     bk_bbo = BBO_init, bk_best_bid = None, bk_best_ask = None, bk_pool = pool, bk_in_snapshot = False,
     bk_orders = Map.empty, bk_levels = Map.empty, bk_fresh = 0\<rparr>"

subsection \<open>Store access\<close>

definition modify_order :: "addr \<Rightarrow> (BookOrder \<Rightarrow> BookOrder) \<Rightarrow> 'p MarketOrderBook \<Rightarrow> 'p MarketOrderBook option" where
  "modify_order a f b = (case bk_orders b a of
     None \<Rightarrow> None | Some o' \<Rightarrow> Some (b\<lparr>bk_orders := (bk_orders b)(a \<mapsto> f o')\<rparr>))"

definition modify_level :: "laddr \<Rightarrow> (PriceLevel \<Rightarrow> PriceLevel) \<Rightarrow> 'p MarketOrderBook \<Rightarrow> 'p MarketOrderBook option" where
  "modify_level l f b = (case bk_levels b l of
     None \<Rightarrow> None | Some lv \<Rightarrow> Some (b\<lparr>bk_levels := (bk_levels b)(l \<mapsto> f lv)\<rparr>))"

text \<open>The two maps: \<^verbatim>\<open>std::greater<>\<close> orders the bids, \<^verbatim>\<open>std::less<>\<close> the asks.\<close>

definition before :: "Side \<Rightarrow> Price \<Rightarrow> Price \<Rightarrow> bool" where
  "before s p q = (case s of BUY \<Rightarrow> sint q < sint p | SELL \<Rightarrow> sint p < sint q)"

fun insert_level :: "Side \<Rightarrow> Price \<Rightarrow> 'a \<Rightarrow> (Price \<times> 'a) list \<Rightarrow> (Price \<times> 'a) list" where
  "insert_level s p x [] = [(p, x)]"
| "insert_level s p x ((q, y) # m) = (if before s p q then (p, x) # (q, y) # m else (q, y) # insert_level s p x m)"

definition side_levels :: "Side \<Rightarrow> 'p MarketOrderBook \<Rightarrow> (Price \<times> laddr) list" where
  "side_levels s b = (case s of BUY \<Rightarrow> bk_bids b | SELL \<Rightarrow> bk_asks b)"

definition set_side_levels :: "Side \<Rightarrow> (Price \<times> laddr) list \<Rightarrow> 'p MarketOrderBook \<Rightarrow> 'p MarketOrderBook" where
  "set_side_levels s m b = (case s of BUY \<Rightarrow> b\<lparr>bk_bids := m\<rparr> | SELL \<Rightarrow> b\<lparr>bk_asks := m\<rparr>)"

definition erase_level :: "Side \<Rightarrow> Price \<Rightarrow> 'p MarketOrderBook \<Rightarrow> 'p MarketOrderBook" where
  "erase_level s p b = (case map_of (side_levels s b) p of
     None \<Rightarrow> b
   | Some l \<Rightarrow> set_side_levels s (AList.delete p (side_levels s b)) (b\<lparr>bk_levels := (bk_levels b)(l := None)\<rparr>))"

subsection \<open>Private operations\<close>

definition getOrCreateLevel :: "Side \<Rightarrow> Price \<Rightarrow> 'p MarketOrderBook \<Rightarrow> laddr \<times> 'p MarketOrderBook" where
  "getOrCreateLevel s p b = (case map_of (side_levels s b) p of
     Some l \<Rightarrow> (l, b)
   | None \<Rightarrow>
       let l = bk_fresh b in
       (l, set_side_levels s (insert_level s p l (side_levels s b))
             (b\<lparr>bk_levels := (bk_levels b)(l \<mapsto> PriceLevel_init\<lparr>pl_price := p\<rparr>), bk_fresh := l + 1\<rparr>)))"

definition allocateOrder :: "'p PoolOps \<Rightarrow> OrderId \<Rightarrow> Quantity \<Rightarrow> 'p MarketOrderBook \<Rightarrow> (addr \<times> 'p MarketOrderBook) option" where
  "allocateOrder ops ref q b = (case po_allocate ops (bk_pool b) of
     (None, pool) \<Rightarrow> None
   | (Some a, pool) \<Rightarrow> Some (a, b\<lparr>bk_pool := pool, bk_orders := (bk_orders b)
       (a \<mapsto> \<lparr>bo_order_ref = ref, bo_qty = q, bo_next = None, bo_prev = None\<rparr>)\<rparr>))"

definition deallocateOrder :: "'p PoolOps \<Rightarrow> addr \<Rightarrow> 'p MarketOrderBook \<Rightarrow> 'p MarketOrderBook" where
  "deallocateOrder ops a b =
     b\<lparr>bk_pool := po_deallocate ops a (bk_pool b), bk_orders := (bk_orders b)(a := None)\<rparr>"

definition linkOrder :: "laddr \<Rightarrow> addr \<Rightarrow> 'p MarketOrderBook \<Rightarrow> 'p MarketOrderBook option" where
  "linkOrder l a b = do {
     lv \<leftarrow> bk_levels b l;
     b \<leftarrow> (case pl_head lv of
             None \<Rightarrow> modify_level l (\<lambda>lv. lv\<lparr>pl_head := Some a, pl_tail := Some a\<rparr>) b
           | Some _ \<Rightarrow> do {
               b \<leftarrow> modify_order a (\<lambda>o'. o'\<lparr>bo_prev := pl_tail lv\<rparr>) b;
               t \<leftarrow> pl_tail lv;
               b \<leftarrow> modify_order t (\<lambda>o'. o'\<lparr>bo_next := Some a\<rparr>) b;
               modify_level l (\<lambda>lv. lv\<lparr>pl_tail := Some a\<rparr>) b
             });
     o' \<leftarrow> bk_orders b a;
     modify_level l (\<lambda>lv. lv\<lparr>pl_total_qty := pl_total_qty lv + bo_qty o'\<rparr>) b
   }"

definition unlinkOrder :: "laddr \<Rightarrow> addr \<Rightarrow> 'p MarketOrderBook \<Rightarrow> 'p MarketOrderBook option" where
  "unlinkOrder l a b = do {
     o' \<leftarrow> bk_orders b a;
     b \<leftarrow> (case bo_prev o' of
             Some p \<Rightarrow> modify_order p (\<lambda>x. x\<lparr>bo_next := bo_next o'\<rparr>) b
           | None \<Rightarrow> modify_level l (\<lambda>lv. lv\<lparr>pl_head := bo_next o'\<rparr>) b);
     o' \<leftarrow> bk_orders b a;
     b \<leftarrow> (case bo_next o' of
             Some n \<Rightarrow> modify_order n (\<lambda>x. x\<lparr>bo_prev := bo_prev o'\<rparr>) b
           | None \<Rightarrow> modify_level l (\<lambda>lv. lv\<lparr>pl_tail := bo_prev o'\<rparr>) b);
     o' \<leftarrow> bk_orders b a;
     modify_level l (\<lambda>lv. lv\<lparr>pl_total_qty := pl_total_qty lv - bo_qty o'\<rparr>) b
   }"

definition updateBBO :: "'p MarketOrderBook \<Rightarrow> 'p MarketOrderBook option" where
  "updateBBO b = do {
     let bbo = BBO_init;
     (best_bid, bbo) \<leftarrow> (case bk_bids b of
         [] \<Rightarrow> Some (None, bbo)
       | (_, l) # _ \<Rightarrow> do {
           lv \<leftarrow> bk_levels b l;
           Some (Some l, bbo\<lparr>bid_price := pl_price lv, bid_qty := pl_total_qty lv\<rparr>)
         });
     (best_ask, bbo) \<leftarrow> (case bk_asks b of
         [] \<Rightarrow> Some (None, bbo)
       | (_, l) # _ \<Rightarrow> do {
           lv \<leftarrow> bk_levels b l;
           Some (Some l, bbo\<lparr>ask_price := pl_price lv, ask_qty := pl_total_qty lv\<rparr>)
         });
     Some (b\<lparr>bk_bbo := bbo, bk_best_bid := best_bid, bk_best_ask := best_ask\<rparr>)
   }"

text \<open>\<^verbatim>\<open>if (level->head == nullptr) (side == BUY ? bids_ : asks_).erase(level->price)\<close>\<close>

definition drop_if_empty :: "Side \<Rightarrow> laddr \<Rightarrow> 'p MarketOrderBook \<Rightarrow> 'p MarketOrderBook option" where
  "drop_if_empty s l b = do {
     lv \<leftarrow> bk_levels b l;
     Some (if pl_head lv = None then erase_level s (pl_price lv) b else b)
   }"

definition eraseOrder :: "'p PoolOps \<Rightarrow> OrderId \<Rightarrow> 'p MarketOrderBook \<Rightarrow> (bool \<times> 'p MarketOrderBook) option" where
  "eraseOrder ops ref b = (case map_of (bk_order_index b) ref of
     None \<Rightarrow> Some (False, b)
   | Some loc \<Rightarrow> do {
       b \<leftarrow> unlinkOrder (ol_level loc) (ol_order loc) b;
       let b = deallocateOrder ops (ol_order loc) b;
       b \<leftarrow> drop_if_empty (ol_side loc) (ol_level loc) b;
       Some (True, b\<lparr>bk_order_index := AList.delete ref (bk_order_index b)\<rparr>)
     })"

definition reduceOrder :: "'p PoolOps \<Rightarrow> MarketUpdate \<Rightarrow> 'p MarketOrderBook \<Rightarrow> (bool \<times> 'p MarketOrderBook) option" where
  "reduceOrder ops u b = (case map_of (bk_order_index b) (mu_order_ref u) of
     None \<Rightarrow> Some (False, b)
   | Some loc \<Rightarrow> do {
       o' \<leftarrow> bk_orders b (ol_order loc);
       if bo_qty o' \<le> mu_qty u then eraseOrder ops (mu_order_ref u) b
       else do {
         b \<leftarrow> modify_order (ol_order loc) (\<lambda>x. x\<lparr>bo_qty := bo_qty x - mu_qty u\<rparr>) b;
         b \<leftarrow> modify_level (ol_level loc) (\<lambda>lv. lv\<lparr>pl_total_qty := pl_total_qty lv - mu_qty u\<rparr>) b;
         Some (True, b)
       }
     })"

definition replaceOrder :: "MarketUpdate \<Rightarrow> 'p MarketOrderBook \<Rightarrow> (bool \<times> 'p MarketOrderBook) option" where
  "replaceOrder u b = (case map_of (bk_order_index b) (mu_order_ref u) of
     None \<Rightarrow> Some (False, b)
   | Some loc \<Rightarrow>
       if map_of (bk_order_index b) (mu_new_ref u) \<noteq> None then Some (False, b)
       else do {
         b \<leftarrow> unlinkOrder (ol_level loc) (ol_order loc) b;
         b \<leftarrow> drop_if_empty (ol_side loc) (ol_level loc) b;
         let (l, b) = getOrCreateLevel (mu_side u) (mu_price u) b;
         b \<leftarrow> modify_order (ol_order loc) (\<lambda>x. x\<lparr>bo_order_ref := mu_new_ref u, bo_qty := mu_qty u\<rparr>) b;
         b \<leftarrow> linkOrder l (ol_order loc) b;
         Some (True, b\<lparr>bk_order_index := AList.update (mu_new_ref u)
           \<lparr>ol_side = mu_side u, ol_level = l, ol_order = ol_order loc\<rparr>
           (AList.delete (mu_order_ref u) (bk_order_index b))\<rparr>)
       })"

subsection \<open>Clearing and snapshots\<close>

partial_function (option) free_chain ::
    "'p PoolOps \<Rightarrow> addr option \<Rightarrow> 'p MarketOrderBook \<Rightarrow> 'p MarketOrderBook option" where
  [code]: "free_chain ops x b = (case x of
     None \<Rightarrow> Some b
   | Some a \<Rightarrow> Option.bind (bk_orders b a) (\<lambda>o'. free_chain ops (bo_next o') (deallocateOrder ops a b)))"

fun free_levels :: "'p PoolOps \<Rightarrow> (Price \<times> laddr) list \<Rightarrow> 'p MarketOrderBook \<Rightarrow> 'p MarketOrderBook option" where
  "free_levels ops [] b = Some b"
| "free_levels ops ((p, l) # m) b = do {
     lv \<leftarrow> bk_levels b l;
     b \<leftarrow> free_chain ops (pl_head lv) b;
     free_levels ops m b
   }"

definition clear :: "'p PoolOps \<Rightarrow> 'p MarketOrderBook \<Rightarrow> 'p MarketOrderBook option" where
  "clear ops b = do {
     b \<leftarrow> free_levels ops (bk_bids b) b;
     b \<leftarrow> free_levels ops (bk_asks b) b;
     Some (b\<lparr>bk_levels := (\<lambda>l. if l \<in> set (map snd (bk_bids b @ bk_asks b)) then None else bk_levels b l),
       bk_bids := [], bk_asks := [], bk_order_index := [],
       bk_best_bid := None, bk_best_ask := None, bk_bbo := BBO_init\<rparr>)
   }"

definition onSnapshotStart :: "'p PoolOps \<Rightarrow> 'p MarketOrderBook \<Rightarrow> 'p MarketOrderBook option" where
  "onSnapshotStart ops b = map_option (\<lambda>b. b\<lparr>bk_in_snapshot := True\<rparr>) (clear ops b)"

definition onSnapshotClear :: "'p PoolOps \<Rightarrow> 'p MarketOrderBook \<Rightarrow> 'p MarketOrderBook option" where
  "onSnapshotClear ops b = clear ops b"

definition onSnapshotEnd :: "'p MarketOrderBook \<Rightarrow> 'p MarketOrderBook option" where
  "onSnapshotEnd b = updateBBO (b\<lparr>bk_in_snapshot := False\<rparr>)"

subsection \<open>The update handler\<close>

definition addOrder :: "'p PoolOps \<Rightarrow> MarketUpdate \<Rightarrow> 'p MarketOrderBook \<Rightarrow> 'p MarketOrderBook option" where
  "addOrder ops u b =
     (if map_of (bk_order_index b) (mu_order_ref u) \<noteq> None then Some b
      else do {
        let (l, b) = getOrCreateLevel (mu_side u) (mu_price u) b;
        (a, b) \<leftarrow> allocateOrder ops (mu_order_ref u) (mu_qty u) b;
        b \<leftarrow> linkOrder l a b;
        updateBBO (b\<lparr>bk_order_index := AList.update (mu_order_ref u)
          \<lparr>ol_side = mu_side u, ol_level = l, ol_order = a\<rparr> (bk_order_index b)\<rparr>)
      })"

definition refresh :: "(bool \<times> 'p MarketOrderBook) option \<Rightarrow> 'p MarketOrderBook option" where
  "refresh r = do { (changed, b) \<leftarrow> r; if changed then updateBBO b else Some b }"

definition applyUpdate :: "'p PoolOps \<Rightarrow> MarketUpdate \<Rightarrow> 'p MarketOrderBook \<Rightarrow> 'p MarketOrderBook option" where
  "applyUpdate ops u b = (case mu_type u of
     SNAPSHOT_START \<Rightarrow> onSnapshotStart ops b
   | SNAPSHOT_CLEAR \<Rightarrow> if mu_ticker_id u = bk_ticker_id b then onSnapshotClear ops b else Some b
   | SNAPSHOT_END \<Rightarrow> onSnapshotEnd b
   | t \<Rightarrow>
       if mu_ticker_id u \<noteq> bk_ticker_id b then Some b
       else (case t of
           DELETE \<Rightarrow> refresh (eraseOrder ops (mu_order_ref u) b)
         | CANCEL \<Rightarrow> refresh (reduceOrder ops u b)
         | EXECUTE \<Rightarrow> refresh (reduceOrder ops u b)
         | REPLACE \<Rightarrow> refresh (replaceOrder u b)
         | _ \<Rightarrow> addOrder ops u b))"

subsection \<open>Observers\<close>

text \<open>The pointers returned by \<^verbatim>\<open>getBestBid\<close> and \<^verbatim>\<open>getBestAsk\<close> are read through the store of levels.\<close>

definition getBestBid :: "'p MarketOrderBook \<Rightarrow> PriceLevel option" where
  "getBestBid b = Option.bind (bk_best_bid b) (bk_levels b)"

definition getBestAsk :: "'p MarketOrderBook \<Rightarrow> PriceLevel option" where
  "getBestAsk b = Option.bind (bk_best_ask b) (bk_levels b)"

definition book_empty :: "'p MarketOrderBook \<Rightarrow> bool" where
  "book_empty b \<longleftrightarrow> bk_bids b = [] \<and> bk_asks b = []"

definition getTickerId :: "'p MarketOrderBook \<Rightarrow> TickerId" where
  "getTickerId b = bk_ticker_id b"

definition book_trackedOrders :: "'p MarketOrderBook \<Rightarrow> nat" where
  "book_trackedOrders b = length (bk_order_index b)"

definition bidLevels :: "'p MarketOrderBook \<Rightarrow> nat" where
  "bidLevels b = length (bk_bids b)"

definition askLevels :: "'p MarketOrderBook \<Rightarrow> nat" where
  "askLevels b = length (bk_asks b)"

definition isInSnapshot :: "'p MarketOrderBook \<Rightarrow> bool" where
  "isInSnapshot b = bk_in_snapshot b"

end
