(* ===== verification/Book_Lists.thy ===== *)
theory Book_Lists
  imports Market_Order_Book
begin

text \<open>
  Doubly linked segments in the order store, and what \<^verbatim>\<open>linkOrder\<close> and \<^verbatim>\<open>unlinkOrder\<close> do to one level's
  list.  \<open>dseg h p x as y q\<close> says that from \<open>x\<close> the \<open>next\<close> pointers visit exactly the orders \<open>as\<close> and end in
  \<open>q\<close>, that the \<open>prev\<close> pointers visit them backwards from \<open>y\<close> and end in \<open>p\<close>.
\<close>

type_synonym order_store = "addr \<rightharpoonup> BookOrder"

fun dseg :: "order_store \<Rightarrow> addr option \<Rightarrow> addr option \<Rightarrow> addr list \<Rightarrow> addr option \<Rightarrow> addr option \<Rightarrow> bool" where
  "dseg h p x [] y q \<longleftrightarrow> x = q \<and> y = p"
| "dseg h p x (a # as) y q \<longleftrightarrow> x = Some a \<and>
     (case h a of None \<Rightarrow> False | Some o' \<Rightarrow> bo_prev o' = p \<and> dseg h (Some a) (bo_next o') as y q)"

named_theorems segs

lemma dseg_append [segs]:
  "dseg h p x (as @ bs) y q \<longleftrightarrow> (\<exists>m n. dseg h p x as m n \<and> dseg h m n bs y q)"
  by (induction as arbitrary: p x) (auto split: option.splits)

lemma dseg_live: "dseg h p x as y q \<Longrightarrow> a \<in> set as \<Longrightarrow> \<exists>o'. h a = Some o'"
  by (induction as arbitrary: p x) (auto split: option.splits)

lemma dseg_first: "dseg h p x as y q \<Longrightarrow> as \<noteq> [] \<Longrightarrow> x = Some (hd as)"
  by (cases as) auto

lemma dseg_last: "dseg h p x as y q \<Longrightarrow> as \<noteq> [] \<Longrightarrow> y = Some (last as)"
  by (induction as arbitrary: p x) (auto split: option.splits)

definition links :: "BookOrder \<Rightarrow> addr option \<times> addr option" where
  "links o' = (bo_next o', bo_prev o')"

text \<open>A segment depends only on the links of its own orders.\<close>

lemma dseg_cong:
  assumes "\<And>a. a \<in> set as \<Longrightarrow> map_option links (h' a) = map_option links (h a)"
  shows "dseg h' p x as y q = dseg h p x as y q"
  using assms
proof (induction as arbitrary: p x)
  case (Cons a as)
  have "map_option links (h' a) = map_option links (h a)" using Cons.prems by simp
  moreover have "dseg h' p' x' as y q = dseg h p' x' as y q" for p' x' using Cons by simp
  ultimately show ?case by (cases "h' a"; cases "h a") (auto simp: links_def)
qed simp

lemma dseg_upd [simp]: "a \<notin> set as \<Longrightarrow> dseg (h(a := v)) p x as y q = dseg h p x as y q"
  by (rule dseg_cong) auto

lemma dseg_null: "dseg h None x as y None \<Longrightarrow> x = None \<longleftrightarrow> as = []"
  by (cases as) auto

text \<open>Redirecting the last \<open>next\<close> or the first \<open>prev\<close> pointer of a segment.\<close>

lemma dseg_set_next:
  assumes "dseg h p x (as @ [t]) y q" and "t \<notin> set as" and "h t = Some o'"
  shows "dseg (h(t \<mapsto> o'\<lparr>bo_next := q'\<rparr>)) p x (as @ [t]) (Some t) q'"
  using assms by (auto simp: segs)

lemma dseg_set_prev:
  assumes "dseg h p x (a # as) y q" and "a \<notin> set as" and "h a = Some o'"
  shows "dseg (h(a \<mapsto> o'\<lparr>bo_prev := p'\<rparr>)) p' x (a # as) y q"
  using assms by auto

subsection \<open>Linking at the tail\<close>

lemma link_chain:
  assumes seg: "dseg h None x (as @ [t]) y None" and d: "distinct (as @ [t])" and a: "a \<notin> set (as @ [t])"
    and h: "h a = Some oa" "bo_next oa = None" and ht: "h t = Some ot"
  shows "dseg (h(a \<mapsto> oa\<lparr>bo_prev := Some t\<rparr>, t \<mapsto> ot\<lparr>bo_next := Some a\<rparr>)) None x (as @ [t, a]) (Some a) None"
proof -
  let ?h = "h(a \<mapsto> oa\<lparr>bo_prev := Some t\<rparr>)"
  have "dseg ?h None x (as @ [t]) y None" using seg a by simp
  then have "dseg (?h(t \<mapsto> ot\<lparr>bo_next := Some a\<rparr>)) None x (as @ [t]) (Some t) (Some a)"
    by (rule dseg_set_next) (use d a ht in auto)
  moreover have "dseg (?h(t \<mapsto> ot\<lparr>bo_next := Some a\<rparr>)) (Some t) (Some a) [a] (Some a) None"
    using h a by auto
  ultimately have "dseg (?h(t \<mapsto> ot\<lparr>bo_next := Some a\<rparr>)) None x ((as @ [t]) @ [a]) (Some a) None"
    unfolding dseg_append [of _ _ _ "as @ [t]"] by blast
  then show ?thesis by simp
qed

subsection \<open>Unlinking anywhere\<close>

text \<open>
  The order before the removed one (or the head) gets its \<open>next\<close>, the order after it (or the tail) its
  \<open>prev\<close>; \<open>relink\<close> and \<open>rehead\<close> name the two store updates.
\<close>

definition relink_next :: "addr option \<Rightarrow> addr option \<Rightarrow> order_store \<Rightarrow> order_store" where
  "relink_next p n h = (case p of None \<Rightarrow> h | Some p \<Rightarrow> h(p := map_option (\<lambda>x. x\<lparr>bo_next := n\<rparr>) (h p)))"

definition relink_prev :: "addr option \<Rightarrow> addr option \<Rightarrow> order_store \<Rightarrow> order_store" where
  "relink_prev n p h = (case n of None \<Rightarrow> h | Some n \<Rightarrow> h(n := map_option (\<lambda>x. x\<lparr>bo_prev := p\<rparr>) (h n)))"

lemma dseg_relink_next:
  assumes "dseg h None x us m q" and "distinct us"
  shows "dseg (relink_next m q' h) None (if us = [] then q' else x) us m q'"
proof (cases us rule: rev_cases)
  case Nil
  with assms show ?thesis by (simp add: relink_next_def)
next
  case (snoc vs t)
  have m: "m = Some t" using dseg_last [OF assms(1)] snoc by simp
  from assms snoc obtain o' where "h t = Some o'" using dseg_live [OF assms(1), of t] by auto
  with assms snoc m show ?thesis
    using dseg_set_next [of h None x vs t m q o' q'] by (simp add: relink_next_def)
qed

lemma dseg_relink_prev:
  assumes "dseg h p x vs y None" and "distinct vs"
  shows "dseg (relink_prev x p' h) p' x vs (if vs = [] then p' else y) None"
proof (cases vs)
  case Nil
  with assms show ?thesis by (simp add: relink_prev_def)
next
  case (Cons a ws)
  from assms Cons obtain o' where "h a = Some o'" "x = Some a" using dseg_live [OF assms(1), of a] by auto
  with assms Cons show ?thesis
    using dseg_set_prev [of h p x a ws y None o' p'] by (simp add: relink_prev_def)
qed

lemma relink_next_other: "p \<noteq> Some a \<Longrightarrow> relink_next p n h a = h a"
  by (auto simp: relink_next_def split: option.split)

lemma relink_prev_other: "n \<noteq> Some a \<Longrightarrow> relink_prev n p h a = h a"
  by (auto simp: relink_prev_def split: option.split)

lemma unlink_chain:
  assumes seg: "dseg h None x (us @ a # vs) y None" and d: "distinct (us @ a # vs)" and h: "h a = Some oa"
  shows "dseg (relink_prev (bo_next oa) (bo_prev oa) (relink_next (bo_prev oa) (bo_next oa) h)) None
      (if us = [] then bo_next oa else x) (us @ vs) (if vs = [] then bo_prev oa else y) None"
    and "bo_prev oa = (if us = [] then None else Some (last us))"
    and "bo_next oa = (if vs = [] then None else Some (hd vs))"
    and "us = [] \<longleftrightarrow> bo_prev oa = None" and "vs = [] \<longleftrightarrow> bo_next oa = None"
proof -
  from seg h obtain m where us: "dseg h None x us m (Some a)" and prev: "bo_prev oa = m"
    and vs: "dseg h (Some a) (bo_next oa) vs y None"
    by (auto simp: segs)
  show p: "bo_prev oa = (if us = [] then None else Some (last us))"
    using dseg_last [OF us] us prev by (cases us) auto
  show n: "bo_next oa = (if vs = [] then None else Some (hd vs))"
    using dseg_first [OF vs] vs by (cases vs) auto
  show "us = [] \<longleftrightarrow> bo_prev oa = None" "vs = [] \<longleftrightarrow> bo_next oa = None" using p n by auto
  let ?h1 = "relink_next m (bo_next oa) h"
  have d': "distinct us" "distinct vs" using d by auto
  have disj: "z \<in> set us \<Longrightarrow> z \<notin> set vs" for z using d by auto
  have apart: "z \<in> set vs \<Longrightarrow> m \<noteq> Some z" "z \<in> set us \<Longrightarrow> bo_next oa \<noteq> Some z" for z
    using p n prev disj [of "last us"] disj [of "hd vs"] by (auto split: if_splits)
  have us1: "dseg ?h1 None (if us = [] then bo_next oa else x) us m (bo_next oa)"
    by (rule dseg_relink_next [OF us d'(1)])
  have "dseg ?h1 (Some a) (bo_next oa) vs y None = dseg h (Some a) (bo_next oa) vs y None"
    by (rule dseg_cong) (simp add: relink_next_other apart(1))
  with vs have vs2: "dseg (relink_prev (bo_next oa) m ?h1) m (bo_next oa) vs (if vs = [] then m else y) None"
    using dseg_relink_prev d'(2) by blast
  have "dseg (relink_prev (bo_next oa) m ?h1) None (if us = [] then bo_next oa else x) us m (bo_next oa) =
      dseg ?h1 None (if us = [] then bo_next oa else x) us m (bo_next oa)"
    by (rule dseg_cong) (simp add: relink_prev_other apart(2))
  with us1 vs2 show "dseg (relink_prev (bo_next oa) (bo_prev oa) (relink_next (bo_prev oa) (bo_next oa) h)) None
      (if us = [] then bo_next oa else x) (us @ vs) (if vs = [] then bo_prev oa else y) None"
    unfolding dseg_append prev by blast
qed

subsection \<open>The lists of several levels\<close>

definition entry_at :: "order_store \<Rightarrow> addr \<Rightarrow> OrderId \<times> Quantity" where
  "entry_at h a = (case h a of None \<Rightarrow> (0, 0) | Some o' \<Rightarrow> (bo_order_ref o', bo_qty o'))"

definition same_data :: "order_store \<Rightarrow> order_store \<Rightarrow> bool" where
  "same_data h h' \<longleftrightarrow> dom h' = dom h \<and> (\<forall>a. entry_at h' a = entry_at h a)"

definition same_prices :: "(laddr \<rightharpoonup> PriceLevel) \<Rightarrow> (laddr \<rightharpoonup> PriceLevel) \<Rightarrow> bool" where
  "same_prices v v' \<longleftrightarrow> (\<forall>l. map_option pl_price (v' l) = map_option pl_price (v l))"

definition total_of :: "order_store \<Rightarrow> addr list \<Rightarrow> Quantity" where
  "total_of h as = sum_list (map (snd \<circ> entry_at h) as)"

definition chain_ok :: "order_store \<Rightarrow> PriceLevel \<Rightarrow> addr list \<Rightarrow> bool" where
  "chain_ok h lv as \<longleftrightarrow> dseg h None (pl_head lv) as (pl_tail lv) None \<and> pl_total_qty lv = total_of h as"

text \<open>Every level of \<open>L\<close> carries its own list \<open>ch l\<close>, and the lists are disjoint.\<close>

definition heap_ok :: "(laddr \<Rightarrow> addr list) \<Rightarrow> laddr set \<Rightarrow> order_store \<Rightarrow> (laddr \<rightharpoonup> PriceLevel) \<Rightarrow> bool" where
  "heap_ok ch L h v \<longleftrightarrow>
     (\<forall>l \<in> L. distinct (ch l) \<and> (\<exists>lv. v l = Some lv \<and> chain_ok h lv (ch l))) \<and>
     (\<forall>l \<in> L. \<forall>l' \<in> L. l \<noteq> l' \<longrightarrow> set (ch l) \<inter> set (ch l') = {})"

lemma heap_okD:
  assumes "heap_ok ch L h v" and "l \<in> L"
  obtains lv where "v l = Some lv" and "dseg h None (pl_head lv) (ch l) (pl_tail lv) None"
    and "pl_total_qty lv = total_of h (ch l)" and "distinct (ch l)"
  using assms by (auto simp: heap_ok_def chain_ok_def)

lemma heap_ok_live: "heap_ok ch L h v \<Longrightarrow> l \<in> L \<Longrightarrow> a \<in> set (ch l) \<Longrightarrow> \<exists>o'. h a = Some o'"
  by (erule (1) heap_okD) (auto dest: dseg_live)

lemma heap_ok_mono: "heap_ok ch L h v \<Longrightarrow> L' \<subseteq> L \<Longrightarrow> heap_ok ch L' h v"
  unfolding heap_ok_def by blast

lemma total_of_cong: "(\<And>a. a \<in> set as \<Longrightarrow> entry_at h' a = entry_at h a) \<Longrightarrow> total_of h' as = total_of h as"
  unfolding total_of_def by (intro arg_cong [where f = sum_list] map_cong) simp_all

lemma chain_ok_cong:
  assumes "\<And>a. a \<in> set as \<Longrightarrow> entry_at h' a = entry_at h a \<and> map_option links (h' a) = map_option links (h a)"
  shows "chain_ok h' lv as = chain_ok h lv as"
  unfolding chain_ok_def using dseg_cong [of as h' h] total_of_cong [of as h' h] assms by simp

text \<open>Rewriting one level's list leaves the others alone.\<close>

lemma heap_ok_upd:
  assumes ok: "heap_ok ch L h v" and l: "l \<in> L"
    and other: "\<And>l' x. l' \<in> L \<Longrightarrow> l' \<noteq> l \<Longrightarrow> x \<in> set (ch l') \<Longrightarrow>
      x \<notin> set as' \<and> entry_at h' x = entry_at h x \<and> map_option links (h' x) = map_option links (h x)"
    and new: "distinct as'" "chain_ok h' lv' as'"
  shows "heap_ok (ch(l := as')) L h' (v(l \<mapsto> lv'))"
  unfolding heap_ok_def
proof (intro conjI ballI impI)
  fix l'
  assume l': "l' \<in> L"
  from heap_okD [OF ok l'] have "distinct (ch l')" by blast
  with new show "distinct ((ch(l := as')) l')" by simp
  show "\<exists>lv. (v(l \<mapsto> lv')) l' = Some lv \<and> chain_ok h' lv ((ch(l := as')) l')"
  proof (cases "l' = l")
    case False
    then have "chain_ok h' lv (ch l') = chain_ok h lv (ch l')" for lv
      using other [OF l' False] by (intro chain_ok_cong) simp
    with ok l' False show ?thesis by (auto simp: heap_ok_def)
  qed (use new in auto)
next
  fix l1 l2
  assume l12: "l1 \<in> L" "l2 \<in> L" "l1 \<noteq> l2"
  then have "set (ch l1) \<inter> set (ch l2) = {}" using ok by (simp add: heap_ok_def)
  then show "set ((ch(l := as')) l1) \<inter> set ((ch(l := as')) l2) = {}"
    using other [OF l12(1)] other [OF l12(2)] l12(3) by (cases "l1 = l"; cases "l2 = l"; simp) blast+
qed

lemma entry_at_upd: "h a = Some o' \<Longrightarrow> bo_order_ref o2 = bo_order_ref o' \<Longrightarrow> bo_qty o2 = bo_qty o' \<Longrightarrow>
    entry_at (h(a \<mapsto> o2)) x = entry_at h x"
  by (simp add: entry_at_def)

lemma same_data_refl [simp]: "same_data h h"
  by (simp add: same_data_def)

lemma same_data_upd:
  assumes "h a = Some o'" and "bo_order_ref o2 = bo_order_ref o'" and "bo_qty o2 = bo_qty o'"
  shows "same_data h (h(a \<mapsto> o2))"
  using assms by (auto simp: same_data_def entry_at_def)

lemma same_data_trans: "same_data h h1 \<Longrightarrow> same_data h1 h2 \<Longrightarrow> same_data h h2"
  by (simp add: same_data_def)

lemma same_data_total: "same_data h h' \<Longrightarrow> total_of h' as = total_of h as"
  by (rule total_of_cong) (simp add: same_data_def)

lemma same_prices_upd: "v l = Some lv \<Longrightarrow> pl_price lv' = pl_price lv \<Longrightarrow> same_prices v (v(l \<mapsto> lv'))"
  by (simp add: same_prices_def)

lemma link_heap:
  assumes ok: "heap_ok ch L (bk_orders b) (bk_levels b)" and l: "l \<in> L"
    and a: "\<And>l'. l' \<in> L \<Longrightarrow> a \<notin> set (ch l')"
    and oa: "bk_orders b a = Some oa" "bo_next oa = None" "ch l = [] \<Longrightarrow> bo_prev oa = None"
  shows "\<exists>h v. linkOrder l a b = Some (b\<lparr>bk_orders := h, bk_levels := v\<rparr>) \<and>
    heap_ok (ch(l := ch l @ [a])) L h v \<and> same_data (bk_orders b) h \<and> same_prices (bk_levels b) v"
proof -
  let ?h = "bk_orders b" and ?v = "bk_levels b"
  obtain lv where lv: "?v l = Some lv" "dseg ?h None (pl_head lv) (ch l) (pl_tail lv) None"
    "pl_total_qty lv = total_of ?h (ch l)" "distinct (ch l)" using heap_okD [OF ok l] .
  have d: "distinct (ch l @ [a])" using lv(4) a [OF l] by simp
  have apart: "x \<notin> set (ch l @ [a])" if "l' \<in> L" "l' \<noteq> l" "x \<in> set (ch l')" for l' x
    using ok that a [OF that(1)] l by (auto simp: heap_ok_def)
  show ?thesis
  proof (cases "ch l" rule: rev_cases)
    case Nil
    let ?lv = "lv\<lparr>pl_head := Some a, pl_tail := Some a, pl_total_qty := pl_total_qty lv + bo_qty oa\<rparr>"
    have "linkOrder l a b = Some (b\<lparr>bk_orders := ?h, bk_levels := ?v(l \<mapsto> ?lv)\<rparr>)"
      using lv Nil oa by (simp add: linkOrder_def modify_level_def)
    moreover have "heap_ok (ch(l := ch l @ [a])) L ?h (?v(l \<mapsto> ?lv))"
      using lv oa Nil apart by (intro heap_ok_upd [OF ok l _ d]) (auto simp: chain_ok_def total_of_def entry_at_def)
    ultimately show ?thesis using same_prices_upd [of ?v l lv ?lv] lv(1) by fastforce
  next
    case (snoc as t)
    obtain ot where ot: "?h t = Some ot" using dseg_live [OF lv(2), of t] snoc by auto
    have at: "a \<noteq> t" using a [OF l] snoc by auto
    have hd: "pl_head lv = Some (hd (ch l))" and tl: "pl_tail lv = Some t"
      using dseg_first [OF lv(2)] dseg_last [OF lv(2)] snoc by simp_all
    let ?h' = "?h(a \<mapsto> oa\<lparr>bo_prev := Some t\<rparr>, t \<mapsto> ot\<lparr>bo_next := Some a\<rparr>)"
    let ?lv = "lv\<lparr>pl_tail := Some a, pl_total_qty := pl_total_qty lv + bo_qty oa\<rparr>"
    have data: "same_data ?h ?h'"
      using at oa ot by (intro same_data_trans [OF same_data_upd same_data_upd]) auto
    have "chain_ok ?h' ?lv (ch l @ [a])"
      unfolding chain_ok_def same_data_total [OF data]
      using link_chain [of ?h "pl_head lv" as t "pl_tail lv" a oa ot] lv oa ot d snoc
      by (simp add: total_of_def entry_at_def)
    moreover have "linkOrder l a b = Some (b\<lparr>bk_orders := ?h', bk_levels := ?v(l \<mapsto> ?lv)\<rparr>)"
      using lv hd tl oa ot at by (simp add: linkOrder_def modify_level_def modify_order_def)
    moreover have "entry_at ?h' x = entry_at ?h x" for x using data by (simp add: same_data_def)
    then have "heap_ok (ch(l := ch l @ [a])) L ?h' (?v(l \<mapsto> ?lv))"
      using apart snoc d calculation(1) by (intro heap_ok_upd [OF ok l]) auto
    ultimately show ?thesis using data same_prices_upd [of ?v l lv ?lv] lv(1) by fastforce
  qed
qed


lemma same_data_relink: "same_data h (relink_prev n p' (relink_next p n' h))"
proof -
  have "same_data h (relink_next p n' h)" for h
    by (auto simp: relink_next_def same_data_def entry_at_def split: option.split)
  moreover have "same_data h (relink_prev n p' h)" for h
    by (auto simp: relink_prev_def same_data_def entry_at_def split: option.split)
  ultimately show ?thesis by (blast intro: same_data_trans)
qed

lemma total_of_remove:
  assumes "distinct (us @ a # vs)"
  shows "total_of h (us @ vs) = total_of h (us @ a # vs) - snd (entry_at h a)"
  by (simp add: total_of_def)

text \<open>\<^verbatim>\<open>unlinkOrder\<close> on an order of a well-formed level.\<close>

lemma unlinkOrder_eq:
  assumes lv: "bk_levels b l = Some lv" "dseg (bk_orders b) None (pl_head lv) (us @ a # vs) (pl_tail lv) None"
    and d: "distinct (us @ a # vs)" and oa: "bk_orders b a = Some oa"
  shows "unlinkOrder l a b = Some (b\<lparr>
      bk_orders := relink_prev (bo_next oa) (bo_prev oa) (relink_next (bo_prev oa) (bo_next oa) (bk_orders b)),
      bk_levels := (bk_levels b)(l \<mapsto> lv\<lparr>pl_head := if us = [] then bo_next oa else pl_head lv,
        pl_tail := if vs = [] then bo_prev oa else pl_tail lv, pl_total_qty := pl_total_qty lv - bo_qty oa\<rparr>)\<rparr>)"
proof -
  note u = unlink_chain(2,3) [OF lv(2) d oa]
  have live: "z \<in> set (us @ vs) \<Longrightarrow> \<exists>o'. bk_orders b z = Some o'" for z
    using dseg_live [OF lv(2), of z] by auto
  have ne: "us \<noteq> [] \<Longrightarrow> last us \<noteq> a" "vs \<noteq> [] \<Longrightarrow> hd vs \<noteq> a"
    using d last_in_set [of us] hd_in_set [of vs] by auto
  have nt: "us \<noteq> [] \<Longrightarrow> vs \<noteq> [] \<Longrightarrow> hd vs \<noteq> last us"
  proof -
    assume "us \<noteq> []" "vs \<noteq> []"
    then have "last us \<in> set us" "hd vs \<in> set vs" by simp_all
    then show "hd vs \<noteq> last us" using d by auto
  qed
  obtain op where op: "us \<noteq> [] \<Longrightarrow> bk_orders b (last us) = Some op" using live [of "last us"] by (cases us rule: rev_cases) auto
  obtain on where on: "vs \<noteq> [] \<Longrightarrow> bk_orders b (hd vs) = Some on" using live [of "hd vs"] by (cases vs) auto
  show ?thesis
    using u ne nt op on oa lv(1)
    by (cases "us = []"; cases "vs = []")
      (simp_all add: unlinkOrder_def modify_order_def modify_level_def relink_next_def relink_prev_def)
qed

lemma unlink_heap:
  assumes ok: "heap_ok ch L (bk_orders b) (bk_levels b)" and l: "l \<in> L" and a: "a \<in> set (ch l)"
  shows "\<exists>h v. unlinkOrder l a b = Some (b\<lparr>bk_orders := h, bk_levels := v\<rparr>) \<and>
    heap_ok (ch(l := remove1 a (ch l))) L h v \<and> same_data (bk_orders b) h \<and> same_prices (bk_levels b) v \<and>
    h a = bk_orders b a"
proof -
  let ?h = "bk_orders b" and ?v = "bk_levels b"
  obtain lv where lv: "?v l = Some lv" "dseg ?h None (pl_head lv) (ch l) (pl_tail lv) None"
    "pl_total_qty lv = total_of ?h (ch l)" "distinct (ch l)" using heap_okD [OF ok l] .
  obtain us vs where ch: "ch l = us @ a # vs" using a by (auto dest: split_list)
  obtain oa where oa: "?h a = Some oa" using heap_ok_live [OF ok l a] by blast
  note seg = lv(2) [unfolded ch] and d = lv(4) [unfolded ch]
  have rem: "remove1 a (ch l) = us @ vs" using ch d by (simp add: remove1_append)
  let ?h' = "relink_prev (bo_next oa) (bo_prev oa) (relink_next (bo_prev oa) (bo_next oa) ?h)"
  let ?lv = "lv\<lparr>pl_head := if us = [] then bo_next oa else pl_head lv,
        pl_tail := if vs = [] then bo_prev oa else pl_tail lv, pl_total_qty := pl_total_qty lv - bo_qty oa\<rparr>"
  have data: "same_data ?h ?h'" by (rule same_data_relink)
  note u = unlink_chain [OF seg d oa]
  have touched: "bo_prev oa = Some z \<Longrightarrow> z \<in> set us" "bo_next oa = Some z \<Longrightarrow> z \<in> set vs" for z
    using u(2,3) last_in_set [of us] hd_in_set [of vs] by (auto split: if_splits)
  have away: "?h' z = ?h z" if "z \<notin> set (us @ vs)" for z
  proof -
    have "bo_prev oa \<noteq> Some z" "bo_next oa \<noteq> Some z" using that touched [of z] by auto
    then show ?thesis by (simp add: relink_prev_other relink_next_other)
  qed
  have "chain_ok ?h' ?lv (us @ vs)"
    unfolding chain_ok_def same_data_total [OF data]
    using u(1) lv(3) total_of_remove [OF d, of ?h] oa ch by (simp add: entry_at_def)
  then have "heap_ok (ch(l := us @ vs)) L ?h' (?v(l \<mapsto> ?lv))"
  proof (rule heap_ok_upd [OF ok l, rotated 2])
    fix l' x
    assume "l' \<in> L" "l' \<noteq> l" "x \<in> set (ch l')"
    then have "x \<notin> set (ch l)" using ok l by (auto simp: heap_ok_def)
    then have "x \<notin> set (us @ vs)" by (simp add: ch)
    with away data show "x \<notin> set (us @ vs) \<and> entry_at ?h' x = entry_at ?h x \<and> map_option links (?h' x) = map_option links (?h x)"
      by (simp add: same_data_def)
  qed (use d in auto)
  moreover have "?h' a = ?h a" using away d by auto
  ultimately show ?thesis
    using unlinkOrder_eq [OF lv(1) seg d oa] data same_prices_upd [of ?v l lv ?lv] lv(1) unfolding rem by fastforce
qed


end
