(* ===== verification/Book_Refinement.thy ===== *)
theory Book_Refinement
  imports Book_Lists
begin

text \<open>
  The order book implements price-time queues.  The abstract book maps each side to its price levels,
  best first, each with its queue of resting orders, oldest first.  \<open>book_ok\<close> is the invariant of the
  pointer structure; the refinement says that on a well-formed book every update runs without touching a
  null or dangling pointer, keeps the invariant, and acts on the abstract book as the specification says.
\<close>

subsection \<open>The abstract book\<close>

type_synonym queue = "(OrderId \<times> Quantity) list"
type_synonym abook = "Side \<Rightarrow> (Price \<times> queue) list"

definition resting :: "abook \<Rightarrow> (OrderId \<times> Quantity) list" where
  "resting B = concat (map snd (B BUY)) @ concat (map snd (B SELL))"

definition enqueue :: "Side \<Rightarrow> Price \<Rightarrow> 'e \<Rightarrow> (Price \<times> 'e list) list \<Rightarrow> (Price \<times> 'e list) list" where
  "enqueue s p e m = (case map_of m p of
     None \<Rightarrow> insert_level s p [e] m | Some q \<Rightarrow> AList.update p (q @ [e]) m)"

definition dequeue :: "('e \<Rightarrow> bool) \<Rightarrow> (Price \<times> 'e list) list \<Rightarrow> (Price \<times> 'e list) list" where
  "dequeue keep m = filter (\<lambda>(p, q). q \<noteq> []) (map (\<lambda>(p, q). (p, filter keep q)) m)"

definition spec_add :: "Side \<Rightarrow> Price \<Rightarrow> OrderId \<Rightarrow> Quantity \<Rightarrow> abook \<Rightarrow> abook" where
  "spec_add s p ref q B = B(s := enqueue s p (ref, q) (B s))"

definition spec_remove :: "OrderId \<Rightarrow> abook \<Rightarrow> abook" where
  "spec_remove ref B = (\<lambda>s. dequeue (\<lambda>e. fst e \<noteq> ref) (B s))"

definition spec_reduce :: "OrderId \<Rightarrow> Quantity \<Rightarrow> abook \<Rightarrow> abook" where
  "spec_reduce ref n B = (case map_of (resting B) ref of
     None \<Rightarrow> B
   | Some q \<Rightarrow> if q \<le> n then spec_remove ref B
     else (\<lambda>s. map (\<lambda>(p, es). (p, map (\<lambda>(r, k). (r, if r = ref then k - n else k)) es)) (B s)))"

definition spec_replace :: "MarketUpdate \<Rightarrow> abook \<Rightarrow> abook" where
  "spec_replace u B =
     (if map_of (resting B) (mu_order_ref u) = None \<or> map_of (resting B) (mu_new_ref u) \<noteq> None then B
      else spec_add (mu_side u) (mu_price u) (mu_new_ref u) (mu_qty u) (spec_remove (mu_order_ref u) B))"

definition spec_apply :: "TickerId \<Rightarrow> MarketUpdate \<Rightarrow> abook \<Rightarrow> abook" where
  "spec_apply tid u B = (case mu_type u of
     SNAPSHOT_START \<Rightarrow> (\<lambda>s. [])
   | SNAPSHOT_CLEAR \<Rightarrow> if mu_ticker_id u = tid then (\<lambda>s. []) else B
   | SNAPSHOT_END \<Rightarrow> B
   | t \<Rightarrow> if mu_ticker_id u \<noteq> tid then B
     else (case t of
         DELETE \<Rightarrow> spec_remove (mu_order_ref u) B
       | CANCEL \<Rightarrow> spec_reduce (mu_order_ref u) (mu_qty u) B
       | EXECUTE \<Rightarrow> spec_reduce (mu_order_ref u) (mu_qty u) B
       | REPLACE \<Rightarrow> spec_replace u B
       | _ \<Rightarrow> if map_of (resting B) (mu_order_ref u) \<noteq> None then B
              else spec_add (mu_side u) (mu_price u) (mu_order_ref u) (mu_qty u) B))"

text \<open>Price and total quantity of the first level of each side.\<close>

definition spec_bbo :: "abook \<Rightarrow> BBO" where
  "spec_bbo B =
     \<lparr>bid_price = (case B BUY of [] \<Rightarrow> Price_INVALID | (p, q) # _ \<Rightarrow> p),
      bid_qty = (case B BUY of [] \<Rightarrow> 0 | (p, q) # _ \<Rightarrow> sum_list (map snd q)),
      ask_price = (case B SELL of [] \<Rightarrow> Price_INVALID | (p, q) # _ \<Rightarrow> p),
      ask_qty = (case B SELL of [] \<Rightarrow> 0 | (p, q) # _ \<Rightarrow> sum_list (map snd q))\<rparr>"

subsection \<open>The invariant of the pointer structure\<close>

definition level_set :: "'p MarketOrderBook \<Rightarrow> laddr set" where
  "level_set b = snd ` set (bk_bids b @ bk_asks b)"

definition view :: "(laddr \<Rightarrow> addr list) \<Rightarrow> 'p MarketOrderBook \<Rightarrow> Side \<Rightarrow> (Price \<times> addr list) list" where
  "view ch b s = map (\<lambda>(p, l). (p, ch l)) (side_levels s b)"

definition abstract :: "(laddr \<Rightarrow> addr list) \<Rightarrow> 'p MarketOrderBook \<Rightarrow> abook" where
  "abstract ch b s = map (\<lambda>(p, as). (p, map (entry_at (bk_orders b)) as)) (view ch b s)"

definition seat :: "(laddr \<Rightarrow> addr list) \<Rightarrow> 'p MarketOrderBook \<Rightarrow> (Side \<times> laddr \<times> addr) set" where
  "seat ch b = {(s, l, a). l \<in> snd ` set (side_levels s b) \<and> a \<in> set (ch l)}"

definition core_ok :: "(laddr \<Rightarrow> addr list) \<Rightarrow> 'p MarketOrderBook \<Rightarrow> bool" where
  "core_ok ch b \<longleftrightarrow>
     heap_ok ch (level_set b) (bk_orders b) (bk_levels b) \<and>
     (\<forall>s. sorted_wrt (before s) (map fst (side_levels s b))) \<and>
     distinct (map snd (bk_bids b @ bk_asks b)) \<and>
     (\<forall>s. \<forall>(p, l) \<in> set (side_levels s b). ch l \<noteq> [] \<and> map_option pl_price (bk_levels b l) = Some p \<and> l < bk_fresh b)"

definition index_ok :: "(laddr \<Rightarrow> addr list) \<Rightarrow> 'p MarketOrderBook \<Rightarrow> bool" where
  "index_ok ch b \<longleftrightarrow> (\<forall>ref loc. map_of (bk_order_index b) ref = Some loc \<longleftrightarrow>
     (ol_side loc, ol_level loc, ol_order loc) \<in> seat ch b \<and> fst (entry_at (bk_orders b) (ol_order loc)) = ref)"

definition store_ok :: "('p \<Rightarrow> addr set) \<Rightarrow> (laddr \<Rightarrow> addr list) \<Rightarrow> 'p MarketOrderBook \<Rightarrow> bool" where
  "store_ok live ch b \<longleftrightarrow> dom (bk_orders b) = (\<lambda>(s, l, a). a) ` seat ch b \<and> live (bk_pool b) = dom (bk_orders b)"

definition bbo_ok :: "(laddr \<Rightarrow> addr list) \<Rightarrow> 'p MarketOrderBook \<Rightarrow> bool" where
  "bbo_ok ch b \<longleftrightarrow> bk_bbo b = spec_bbo (abstract ch b) \<and>
     bk_best_bid b = (case bk_bids b of [] \<Rightarrow> None | (p, l) # _ \<Rightarrow> Some l) \<and>
     bk_best_ask b = (case bk_asks b of [] \<Rightarrow> None | (p, l) # _ \<Rightarrow> Some l)"

definition book_ok :: "('p \<Rightarrow> addr set) \<Rightarrow> (laddr \<Rightarrow> addr list) \<Rightarrow> 'p MarketOrderBook \<Rightarrow> bool" where
  "book_ok live ch b \<longleftrightarrow> core_ok ch b \<and> index_ok ch b \<and> store_ok live ch b \<and> bbo_ok ch b"

text \<open>
  What the book relies on of \<^verbatim>\<open>quantlink::ObjectPool\<close>: a successful \<^verbatim>\<open>allocate\<close> returns an object that is not
  in use, \<^verbatim>\<open>deallocate\<close> takes one object out of use.
\<close>

definition pool_ok :: "'p PoolOps \<Rightarrow> ('p \<Rightarrow> addr set) \<Rightarrow> bool" where
  "pool_ok ops live \<longleftrightarrow>
     (\<forall>p a p'. po_allocate ops p = (Some a, p') \<longrightarrow> a \<notin> live p \<and> live p' = insert a (live p)) \<and>
     (\<forall>p a. a \<in> live p \<longrightarrow> live (po_deallocate ops a p) = live p - {a})"

text \<open>
  The side conditions of the refinement: the pool has an object for an added order; a replaced order is
  the last of its level, and alone in it or moved to a level that exists.
\<close>

definition safe_update :: "'p PoolOps \<Rightarrow> MarketUpdate \<Rightarrow> 'p MarketOrderBook \<Rightarrow> bool" where
  "safe_update ops u b \<longleftrightarrow> (case mu_type u of
     ADD \<Rightarrow> fst (po_allocate ops (bk_pool b)) \<noteq> None
   | ADD_MPID \<Rightarrow> fst (po_allocate ops (bk_pool b)) \<noteq> None
   | REPLACE \<Rightarrow>
       (case map_of (bk_order_index b) (mu_order_ref u) of
          None \<Rightarrow> True
        | Some loc \<Rightarrow>
            (case bk_orders b (ol_order loc) of
               None \<Rightarrow> False
             | Some o' \<Rightarrow> bo_next o' = None \<and>
                 (bo_prev o' = None \<or> map_of (side_levels (mu_side u) b) (mu_price u) \<noteq> None)))
   | _ \<Rightarrow> True)"

subsection \<open>Sorted level lists\<close>

lemma before_irrefl [simp]: "\<not> before s p p"
  by (cases s) (simp_all add: before_def)

lemma before_trans: "before s p q \<Longrightarrow> before s q r \<Longrightarrow> before s p r"
  by (cases s) (auto simp: before_def)

lemma before_total: "p \<noteq> q \<Longrightarrow> before s p q \<or> before s q p"
  using sint_eq_iff [of p q] by (cases s) (auto simp: before_def)

lemma sorted_before_distinct: "sorted_wrt (before s) ps \<Longrightarrow> distinct ps"
  by (induction ps) auto

lemma set_insert_level [simp]: "set (insert_level s p x m) = insert (p, x) (set m)"
  by (induction m rule: insert_level.induct) auto

lemma mset_insert_level: "mset (insert_level s p x m) = add_mset (p, x) (mset m)"
  by (induction s p x m rule: insert_level.induct) auto

lemma distinct_snd_insert_level:
  "distinct (map snd (insert_level s p x m)) \<longleftrightarrow> x \<notin> snd ` set m \<and> distinct (map snd m)"
proof -
  have "image_mset snd (mset (insert_level s p x m)) = add_mset x (image_mset snd (mset m))"
    by (simp add: mset_insert_level)
  then have "mset (map snd (insert_level s p x m)) = mset (x # map snd m)" by simp
  then have "distinct (map snd (insert_level s p x m)) = distinct (x # map snd m)" by (rule mset_eq_imp_distinct_iff)
  then show ?thesis by simp
qed

lemma sorted_insert_level:
  "sorted_wrt (before s) (map fst m) \<Longrightarrow> p \<notin> fst ` set m \<Longrightarrow> sorted_wrt (before s) (map fst (insert_level s p x m))"
proof (induction s p x m rule: insert_level.induct)
  case (2 s p x q y m)
  show ?case
  proof (cases "before s p q")
    case True
    with 2 show ?thesis by (auto intro: before_trans)
  next
    case False
    with 2 before_total [of p q s] show ?thesis by auto
  qed
qed simp

lemma map_insert_level:
  "map (\<lambda>(p, x). (p, f x)) (insert_level s p x m) = insert_level s p (f x) (map (\<lambda>(p, x). (p, f x)) m)"
  by (induction s p x m rule: insert_level.induct) auto

lemma delete_filter: "AList.delete k m = filter (\<lambda>(k', v). k' \<noteq> k) m"
  by (simp add: AList.delete_eq) metis

lemma sorted_delete: "sorted_wrt r (map fst m) \<Longrightarrow> sorted_wrt r (map fst (AList.delete k m))"
  by (induction m) (auto simp: delete_filter)

lemma set_delete: "distinct (map fst m) \<Longrightarrow> map_of m k = Some v \<Longrightarrow> set (AList.delete k m) = set m - {(k, v)}"
  by (auto simp: delete_filter dest: map_of_SomeD eq_key_imp_eq_value)

lemma map_update_value:
  "map (\<lambda>(p, q). (p, f q)) (AList.update p v m) = AList.update p (f v) (map (\<lambda>(p, q). (p, f q)) m)"
  by (induction m) auto

lemma map_of_value: "map_of (map (\<lambda>(p, x). (p, f x)) m) p = map_option f (map_of m p)"
  by (induction m) auto

lemma map_fst_value [simp]: "map fst (map (\<lambda>(p, x). (p, f x)) m) = map fst m"
  by (simp add: case_prod_unfold)

lemma update_at_level:
  assumes "distinct (map fst m)" and "distinct (map snd m)" and "map_of m p = Some l"
  shows "map (\<lambda>(p', l'). (p', (ch(l := v)) l')) m = AList.update p v (map (\<lambda>(p, l). (p, ch l)) m)"
  using assms
proof (induction m)
  case (Cons x m)
  obtain q k where x: "x = (q, k)" by (cases x)
  show ?case
  proof (cases "q = p")
    case True
    then have "l \<notin> snd ` set m" "k = l" using Cons.prems x by auto
    then show ?thesis using True x by (auto simp: case_prod_unfold image_iff)
  next
    case False
    then have "(p, l) \<in> set m" using Cons.prems x by (auto dest: map_of_SomeD)
    then have "k \<noteq> l" using Cons.prems x by force
    then show ?thesis using Cons False x by simp
  qed
qed simp

lemma keep_other_levels:
  assumes "l \<notin> snd ` set m"
  shows "map (\<lambda>(p', l'). (p', (ch(l := v)) l')) m = map (\<lambda>(p, l). (p, ch l)) m"
  using assms by (intro map_cong) force+

lemma enqueue_map:
  "map (\<lambda>(p, q). (p, map f q)) (enqueue s p e m) = enqueue s p (f e) (map (\<lambda>(p, q). (p, map f q)) m)"
  by (cases "map_of m p")
    (simp_all add: enqueue_def map_of_value map_update_value map_insert_level [where f = "map f"])

lemma dequeue_map:
  assumes "\<And>p q x. (p, q) \<in> set m \<Longrightarrow> x \<in> set q \<Longrightarrow> keep' (f x) = keep x"
  shows "map (\<lambda>(p, q). (p, map f q)) (dequeue keep m) = dequeue keep' (map (\<lambda>(p, q). (p, map f q)) m)"
  using assms
proof (induction m)
  case (Cons x m)
  obtain p q where x: "x = (p, q)" by (cases x)
  have "filter keep' (map f q) = map f (filter keep q)"
    using Cons.prems [of p q] x by (auto simp: filter_map comp_def intro!: arg_cong [where f = "map f"] filter_cong)
  moreover have "map (\<lambda>(p, q). (p, map f q)) (dequeue keep m) = dequeue keep' (map (\<lambda>(p, q). (p, map f q)) m)"
    using Cons.prems by (intro Cons.IH) auto
  ultimately show ?case by (simp add: dequeue_def x)
qed (simp add: dequeue_def)


subsection \<open>Levels and seats\<close>

lemma side_levels_simps [simp]:
  "side_levels s (b\<lparr>bk_orders := h\<rparr>) = side_levels s b" "side_levels s (b\<lparr>bk_levels := v\<rparr>) = side_levels s b"
  "side_levels s (b\<lparr>bk_pool := p\<rparr>) = side_levels s b" "side_levels s (b\<lparr>bk_order_index := i\<rparr>) = side_levels s b"
  "side_levels s (b\<lparr>bk_fresh := n\<rparr>) = side_levels s b" "side_levels s (b\<lparr>bk_bbo := bb\<rparr>) = side_levels s b"
  "side_levels s (b\<lparr>bk_best_bid := x\<rparr>) = side_levels s b" "side_levels s (b\<lparr>bk_best_ask := x\<rparr>) = side_levels s b"
  "side_levels s (b\<lparr>bk_in_snapshot := sn\<rparr>) = side_levels s b"
  by (simp_all add: side_levels_def split: Side.split)

lemma set_side_levels_simps [simp]:
  "side_levels s' (set_side_levels s m b) = (if s' = s then m else side_levels s' b)"
  "bk_orders (set_side_levels s m b) = bk_orders b" "bk_levels (set_side_levels s m b) = bk_levels b"
  "bk_pool (set_side_levels s m b) = bk_pool b" "bk_order_index (set_side_levels s m b) = bk_order_index b"
  "bk_fresh (set_side_levels s m b) = bk_fresh b" "bk_ticker_id (set_side_levels s m b) = bk_ticker_id b"
  "bk_in_snapshot (set_side_levels s m b) = bk_in_snapshot b"
  by (auto simp: set_side_levels_def side_levels_def split: Side.splits)

lemma level_set_iff: "l \<in> level_set b \<longleftrightarrow> (\<exists>s. l \<in> snd ` set (side_levels s b))"
proof
  assume "l \<in> level_set b"
  then have "l \<in> snd ` set (side_levels BUY b) \<or> l \<in> snd ` set (side_levels SELL b)"
    by (auto simp: level_set_def side_levels_def)
  then show "\<exists>s. l \<in> snd ` set (side_levels s b)" by blast
next
  assume "\<exists>s. l \<in> snd ` set (side_levels s b)"
  then obtain s where "l \<in> snd ` set (side_levels s b)" by blast
  then show "l \<in> level_set b" by (cases s) (auto simp: level_set_def side_levels_def)
qed

lemma levels_distinct_iff:
  "distinct (map snd (bk_bids b @ bk_asks b)) \<longleftrightarrow>
    (\<forall>s. distinct (map snd (side_levels s b))) \<and>
    (\<forall>s s' l. l \<in> snd ` set (side_levels s b) \<longrightarrow> l \<in> snd ` set (side_levels s' b) \<longrightarrow> s = s')" (is "?D \<longleftrightarrow> ?A \<and> ?B")
proof -
  have all: "(\<forall>s. P s) \<longleftrightarrow> P BUY \<and> P SELL" for P by (metis Side.exhaust)
  show ?thesis unfolding all by (auto simp: side_levels_def)
qed

lemma core_okI:
  assumes "heap_ok ch (level_set b) (bk_orders b) (bk_levels b)"
    and "\<And>s. sorted_wrt (before s) (map fst (side_levels s b))"
    and "\<And>s. distinct (map snd (side_levels s b))"
    and "\<And>s s' l. l \<in> snd ` set (side_levels s b) \<Longrightarrow> l \<in> snd ` set (side_levels s' b) \<Longrightarrow> s = s'"
    and "\<And>s p l. (p, l) \<in> set (side_levels s b) \<Longrightarrow>
      ch l \<noteq> [] \<and> map_option pl_price (bk_levels b l) = Some p \<and> l < bk_fresh b"
  shows "core_ok ch b"
proof -
  have "distinct (map snd (bk_bids b @ bk_asks b))"
    unfolding levels_distinct_iff using assms(3,4) by blast
  then show ?thesis using assms(1,2,5) by (auto simp: core_ok_def)
qed

lemma core_okD:
  assumes "core_ok ch b"
  shows "heap_ok ch (level_set b) (bk_orders b) (bk_levels b)"
    and "sorted_wrt (before s) (map fst (side_levels s b))"
    and "distinct (map fst (side_levels s b))" and "distinct (map snd (side_levels s b))"
    and "l \<in> snd ` set (side_levels s b) \<Longrightarrow> l \<in> snd ` set (side_levels s' b) \<Longrightarrow> s = s'"
    and "(p, l) \<in> set (side_levels s b) \<Longrightarrow>
      ch l \<noteq> [] \<and> map_option pl_price (bk_levels b l) = Some p \<and> l < bk_fresh b"
proof -
  show "heap_ok ch (level_set b) (bk_orders b) (bk_levels b)"
    and srt: "sorted_wrt (before s) (map fst (side_levels s b))"
    and "(p, l) \<in> set (side_levels s b) \<Longrightarrow>
      ch l \<noteq> [] \<and> map_option pl_price (bk_levels b l) = Some p \<and> l < bk_fresh b"
    using assms by (auto simp: core_ok_def)
  show "distinct (map fst (side_levels s b))" using srt by (rule sorted_before_distinct)
  have d: "distinct (map snd (bk_bids b @ bk_asks b))" using assms by (simp add: core_ok_def)
  show "distinct (map snd (side_levels s b))" using d [unfolded levels_distinct_iff] by blast
  show "l \<in> snd ` set (side_levels s b) \<Longrightarrow> l \<in> snd ` set (side_levels s' b) \<Longrightarrow> s = s'"
    using d [unfolded levels_distinct_iff] by blast
qed

lemma seatD:
  assumes "(s, l, a) \<in> seat ch b"
  shows "l \<in> snd ` set (side_levels s b)" and "a \<in> set (ch l)" and "l \<in> level_set b"
  using assms by (auto simp: seat_def level_set_iff)

lemma seat_unique:
  assumes core: "core_ok ch b" and "(s, l, a) \<in> seat ch b" and "(s', l', a) \<in> seat ch b"
  shows "s' = s \<and> l' = l"
proof -
  note x = seatD [OF assms(2)] and y = seatD [OF assms(3)]
  have "l' = l" using core_okD(1) [OF core] x y by (auto simp: heap_ok_def)
  with x(1) y(1) core_okD(5) [OF core] show ?thesis by blast
qed

lemma seat_live: "core_ok ch b \<Longrightarrow> (s, l, a) \<in> seat ch b \<Longrightarrow> \<exists>o'. bk_orders b a = Some o'"
  using heap_ok_live [OF core_okD(1)] seatD by blast

subsection \<open>Taking an order out of its level\<close>

definition taken :: "addr \<Rightarrow> (laddr \<Rightarrow> addr list) \<Rightarrow> laddr \<Rightarrow> addr list" where
  "taken a ch l = filter (\<lambda>x. x \<noteq> a) (ch l)"

text \<open>\<open>same_rest b b'\<close>: the two books agree on everything but levels and links.\<close>

definition same_rest :: "'p MarketOrderBook \<Rightarrow> 'p MarketOrderBook \<Rightarrow> bool" where
  "same_rest b b' \<longleftrightarrow> bk_order_index b' = bk_order_index b \<and> bk_pool b' = bk_pool b \<and>
     bk_ticker_id b' = bk_ticker_id b \<and> bk_in_snapshot b' = bk_in_snapshot b"

lemma heap_ok_cong: "(\<And>l. l \<in> L \<Longrightarrow> ch' l = ch l \<and> v' l = v l) \<Longrightarrow> heap_ok ch L h v \<Longrightarrow> heap_ok ch' L h v'"
  unfolding heap_ok_def by simp

lemma taken_remove1:
  assumes core: "core_ok ch b" and s: "(s, l, a) \<in> seat ch b" and l': "l' \<in> level_set b"
  shows "(ch(l := remove1 a (ch l))) l' = taken a ch l'"
proof (cases "l' = l")
  case True
  have "distinct (ch l)" using core_okD(1) [OF core] seatD [OF s] by (simp add: heap_ok_def)
  then have "remove1 a (ch l) = filter (\<lambda>x. a \<noteq> x) (ch l)"
    by (simp add: distinct_remove1_removeAll removeAll_filter_not_eq)
  also have "\<dots> = taken a ch l" unfolding taken_def by (rule filter_cong) auto
  finally show ?thesis using True by simp
next
  case False
  then have "a \<notin> set (ch l')" using core_okD(1) [OF core] seatD [OF s] l' by (auto simp: heap_ok_def)
  then show ?thesis using False by (auto simp: taken_def intro!: filter_True [symmetric])
qed

lemma seat_taken:
  assumes core: "core_ok ch b" and s: "(s, l, a) \<in> seat ch b"
    and lv: "\<And>s'. side_levels s' b' = filter (\<lambda>(p, l'). taken a ch l' \<noteq> []) (side_levels s' b)"
  shows "seat (taken a ch) b' = seat ch b - {(s, l, a)}"
proof -
  have "(s', l', a') \<in> seat (taken a ch) b' \<longleftrightarrow> (s', l', a') \<in> seat ch b \<and> a' \<noteq> a" for s' l' a'
  proof -
    have "l' \<in> snd ` set (side_levels s' b') \<longleftrightarrow> l' \<in> snd ` set (side_levels s' b) \<and> taken a ch l' \<noteq> []"
      unfolding lv by auto
    moreover have "a' \<in> set (taken a ch l') \<longleftrightarrow> a' \<in> set (ch l') \<and> a' \<noteq> a" by (auto simp: taken_def)
    ultimately show ?thesis by (auto simp: seat_def)
  qed
  moreover have "(s', l', a') \<in> seat ch b \<and> a' \<noteq> a \<longleftrightarrow> (s', l', a') \<in> seat ch b - {(s, l, a)}" for s' l' a'
    using seat_unique [OF core s, of s' l'] by (cases "a' = a") auto
  ultimately show ?thesis by (intro set_eqI) (simp only: split_paired_all)
qed

lemma view_taken:
  assumes "\<And>s'. side_levels s' b' = filter (\<lambda>(p, l'). taken a ch l' \<noteq> []) (side_levels s' b)"
  shows "view (taken a ch) b' s' = dequeue (\<lambda>x. x \<noteq> a) (view ch b s')"
  by (simp add: view_def dequeue_def assms taken_def filter_map comp_def case_prod_unfold)

lemma core_ok_taken:
  assumes core: "core_ok ch b"
    and lv: "\<And>s'. side_levels s' b' = filter (\<lambda>(p, l'). taken a ch l' \<noteq> []) (side_levels s' b)"
    and heap: "heap_ok (taken a ch) (level_set b') (bk_orders b') (bk_levels b')"
    and price: "\<And>s' p l. (p, l) \<in> set (side_levels s' b') \<Longrightarrow>
      map_option pl_price (bk_levels b' l) = map_option pl_price (bk_levels b l)"
    and fresh: "bk_fresh b' = bk_fresh b"
  shows "core_ok (taken a ch) b'"
proof (rule core_okI [OF heap])
  show "sorted_wrt (before s) (map fst (side_levels s b'))" for s
    using core_okD(2) [OF core, of s] unfolding lv sorted_wrt_map by (rule sorted_wrt_filter)
  show "distinct (map snd (side_levels s b'))" for s
    using core_okD(4) [OF core, of s] unfolding lv by (rule distinct_map_filter)
  show "s = s'" if "l \<in> snd ` set (side_levels s b')" "l \<in> snd ` set (side_levels s' b')" for s s' l
    using that core_okD(5) [OF core] by (auto simp: lv)
  show "taken a ch l \<noteq> [] \<and> map_option pl_price (bk_levels b' l) = Some p \<and> l < bk_fresh b'"
    if "(p, l) \<in> set (side_levels s b')" for s p l
    using that price [OF that] core_okD(6) [OF core, of p l s] fresh by (auto simp: lv)
qed


lemma taken_nonempty:
  assumes core: "core_ok ch b" and s: "(s, l, a) \<in> seat ch b" and m: "(p', l') \<in> set (side_levels s' b)"
  shows "taken a ch l' = [] \<longleftrightarrow> l' = l \<and> taken a ch l = []"
proof (cases "l' = l")
  case False
  have "l' \<in> level_set b" using m by (force simp: level_set_iff)
  from taken_remove1 [OF core s this] False core_okD(6) [OF core m] show ?thesis by simp
qed simp

lemma filter_levels:
  assumes core: "core_ok ch b" and s: "(s, l, a) \<in> seat ch b" and p: "(p, l) \<in> set (side_levels s b)"
  shows "filter (\<lambda>(p', l'). taken a ch l' \<noteq> []) (side_levels s' b) =
    (if taken a ch l = [] \<and> s' = s then AList.delete p (side_levels s b) else side_levels s' b)"
proof -
  have keep: "(taken a ch l' \<noteq> []) = (\<not> (taken a ch l = [] \<and> s' = s \<and> p' = p))"
    if m: "(p', l') \<in> set (side_levels s' b)" for p' l'
  proof -
    have "l' = l \<longleftrightarrow> s' = s \<and> p' = p"
    proof
      assume l': "l' = l"
      then have "s' = s" using core_okD(5) [OF core, of l s' s] m p by force
      moreover have "p' = p" using core_okD(6) [OF core m] core_okD(6) [OF core p] l' by simp
      ultimately show "s' = s \<and> p' = p" ..
    next
      assume "s' = s \<and> p' = p"
      then show "l' = l" using core_okD(3) [OF core, of s] m p by (auto dest: eq_key_imp_eq_value)
    qed
    then show ?thesis using taken_nonempty [OF core s m] by blast
  qed
  show ?thesis
  proof (cases "taken a ch l = [] \<and> s' = s")
    case True
    then show ?thesis by (simp add: delete_filter) (rule filter_cong, use keep in auto)
  next
    case False
    then show ?thesis using keep by (auto intro!: filter_True)
  qed
qed

lemma take_out:
  assumes core: "core_ok ch b" and s: "(s, l, a) \<in> seat ch b"
  shows "\<exists>b1 b2. unlinkOrder l a b = Some b1 \<and> drop_if_empty s l b1 = Some b2 \<and> core_ok (taken a ch) b2 \<and>
    (\<forall>s'. side_levels s' b2 = filter (\<lambda>(p, l'). taken a ch l' \<noteq> []) (side_levels s' b)) \<and>
    same_data (bk_orders b) (bk_orders b2) \<and> bk_orders b2 a = bk_orders b a \<and> same_rest b b2"
proof -
  note seat = seatD [OF s] and heap = core_okD(1) [OF core]
  obtain h v where b1: "unlinkOrder l a b = Some (b\<lparr>bk_orders := h, bk_levels := v\<rparr>)"
    and h: "heap_ok (ch(l := remove1 a (ch l))) (level_set b) h v" "same_data (bk_orders b) h" "h a = bk_orders b a"
    and v: "same_prices (bk_levels b) v"
    using unlink_heap [OF heap seat(3,2)] by blast
  have heap': "heap_ok (taken a ch) (level_set b) h v"
    by (rule heap_ok_cong [OF _ h(1)]) (use taken_remove1 [OF core s] in simp)
  obtain p where p: "(p, l) \<in> set (side_levels s b)" using seat(1) by auto
  obtain lv where lv: "v l = Some lv" "dseg h None (pl_head lv) (taken a ch l) (pl_tail lv) None"
    using heap_okD [OF heap' seat(3)] by blast
  have price: "pl_price lv = p" using core_okD(6) [OF core p] v [unfolded same_prices_def, rule_format, of l] lv(1) by auto
  have find: "map_of (side_levels s b) p = Some l" using core_okD(3) [OF core] p by simp
  define b2 where "b2 = (if taken a ch l = []
    then set_side_levels s (AList.delete p (side_levels s b)) (b\<lparr>bk_orders := h, bk_levels := v(l := None)\<rparr>)
    else b\<lparr>bk_orders := h, bk_levels := v\<rparr>)"
  have drop: "drop_if_empty s l (b\<lparr>bk_orders := h, bk_levels := v\<rparr>) = Some b2"
    using lv price find dseg_null [OF lv(2)] by (auto simp: drop_if_empty_def erase_level_def b2_def)
  have side: "side_levels s' b2 = filter (\<lambda>(p, l'). taken a ch l' \<noteq> []) (side_levels s' b)" for s'
    unfolding filter_levels [OF core s p] by (simp add: b2_def)
  have sub: "l' \<in> level_set b \<and> taken a ch l' \<noteq> []" if "l' \<in> level_set b2" for l'
    using that unfolding level_set_iff side by auto
  have lev: "bk_levels b2 l' = v l'" "bk_orders b2 = h" if "taken a ch l' \<noteq> []" for l'
    using that by (auto simp: b2_def)
  have h2: "bk_orders b2 = h" by (simp add: b2_def)
  have "core_ok (taken a ch) b2"
  proof (rule core_ok_taken [OF core side])
    show "heap_ok (taken a ch) (level_set b2) (bk_orders b2) (bk_levels b2)"
      unfolding h2 by (rule heap_ok_cong [OF _ heap_ok_mono [OF heap']]) (use sub lev in auto)
    show "map_option pl_price (bk_levels b2 l') = map_option pl_price (bk_levels b l')"
      if "(p', l') \<in> set (side_levels s' b2)" for s' p' l'
      using that v lev(1) [of l'] by (auto simp: side same_prices_def)
  qed (simp add: b2_def)
  then show ?thesis
    using b1 drop side h h2 by (intro exI [of _ "b\<lparr>bk_orders := h, bk_levels := v\<rparr>"] exI [of _ b2])
      (auto simp: same_rest_def b2_def)
qed


subsection \<open>Putting an order into a level\<close>

lemma fresh_level:
  assumes core: "core_ok ch b"
  shows "bk_fresh b \<notin> level_set b"
proof
  assume "bk_fresh b \<in> level_set b"
  then obtain s p where "(p, bk_fresh b) \<in> set (side_levels s b)" by (auto simp: level_set_iff)
  from core_okD(6) [OF core this] show False by simp
qed

lemma getOrCreateLevel_found:
  "map_of (side_levels s b) p = Some l \<Longrightarrow> getOrCreateLevel s p b = (l, b)"
  by (simp add: getOrCreateLevel_def)

lemma core_ok_link:
  assumes "core_ok ch b" and "heap_ok (ch(l := ch l @ [a])) (level_set b) h v"
    and "same_prices (bk_levels b) v"
  shows "core_ok (ch(l := ch l @ [a])) (b\<lparr>bk_orders := h, bk_levels := v\<rparr>)"
proof (rule core_okI)
  show "heap_ok (ch(l := ch l @ [a])) (level_set (b\<lparr>bk_orders := h, bk_levels := v\<rparr>))
      (bk_orders (b\<lparr>bk_orders := h, bk_levels := v\<rparr>)) (bk_levels (b\<lparr>bk_orders := h, bk_levels := v\<rparr>))"
    using assms(2) by (simp add: level_set_def)
  show "s = s'" if "l' \<in> snd ` set (side_levels s (b\<lparr>bk_orders := h, bk_levels := v\<rparr>))"
    "l' \<in> snd ` set (side_levels s' (b\<lparr>bk_orders := h, bk_levels := v\<rparr>))" for s s' l'
    using that core_okD(5) [OF assms(1), of l' s s'] by simp
  show "(ch(l := ch l @ [a])) l' \<noteq> [] \<and> map_option pl_price (bk_levels (b\<lparr>bk_orders := h, bk_levels := v\<rparr>) l') = Some p \<and>
      l' < bk_fresh (b\<lparr>bk_orders := h, bk_levels := v\<rparr>)"
    if "(p, l') \<in> set (side_levels s (b\<lparr>bk_orders := h, bk_levels := v\<rparr>))" for s p l'
    using that core_okD(6) [OF assms(1), of p l' s] assms(3) [unfolded same_prices_def, rule_format, of l'] by simp
qed (use core_okD(2,4) [OF assms(1)] in simp_all)

lemma put_in_found:
  assumes core: "core_ok ch b" and find: "map_of (side_levels s b) p = Some l"
    and a: "\<And>l. l \<in> level_set b \<Longrightarrow> a \<notin> set (ch l)"
    and oa: "bk_orders b a = Some oa" "bo_next oa = None"
  shows "\<exists>b2 ch'. linkOrder l a b = Some b2 \<and> core_ok ch' b2 \<and> seat ch' b2 = insert (s, l, a) (seat ch b) \<and>
    view ch' b2 = (view ch b)(s := enqueue s p a (view ch b s)) \<and>
    same_data (bk_orders b) (bk_orders b2) \<and> same_rest b b2"
proof -
  have pl: "(p, l) \<in> set (side_levels s b)" using find by (rule map_of_SomeD)
  then have l: "l \<in> snd ` set (side_levels s b)" by force
  then have L: "l \<in> level_set b" by (auto simp: level_set_iff)
  have ne: "ch l \<noteq> []" using core_okD(6) [OF core pl] by simp
  let ?ch = "ch(l := ch l @ [a])"
  obtain h v where b2: "linkOrder l a b = Some (b\<lparr>bk_orders := h, bk_levels := v\<rparr>)"
    and h: "heap_ok ?ch (level_set b) h v" "same_data (bk_orders b) h" "same_prices (bk_levels b) v"
    using link_heap [OF core_okD(1) [OF core] L a oa] ne by blast
  have view: "view ?ch (b\<lparr>bk_orders := h, bk_levels := v\<rparr>) s' = ((view ch b)(s := enqueue s p a (view ch b s))) s'" for s'
  proof (cases "s' = s")
    case True
    have "view ?ch b s = AList.update p (ch l @ [a]) (view ch b s)"
      unfolding view_def by (rule update_at_level [OF core_okD(3,4) [OF core] find])
    moreover have "map_of (view ch b s) p = Some (ch l)" using find by (simp add: view_def map_of_value)
    ultimately show ?thesis using True by (simp add: enqueue_def) (simp add: view_def)
  next
    case False
    then have "l \<notin> snd ` set (side_levels s' b)" using core_okD(5) [OF core l] by blast
    then have "view ?ch b s' = view ch b s'" unfolding view_def by (rule keep_other_levels)
    then show ?thesis using False by (simp add: view_def)
  qed
  have "seat ?ch (b\<lparr>bk_orders := h, bk_levels := v\<rparr>) = insert (s, l, a) (seat ch b)"
  proof (intro set_eqI, unfold split_paired_all)
    fix s' l' x
    have "l \<in> snd ` set (side_levels s' b) \<longleftrightarrow> s' = s" using l core_okD(5) [OF core l, of s'] by blast
    then show "(s', l', x) \<in> seat ?ch (b\<lparr>bk_orders := h, bk_levels := v\<rparr>) \<longleftrightarrow> (s', l', x) \<in> insert (s, l, a) (seat ch b)"
      by (cases "l' = l") (auto simp: seat_def)
  qed
  moreover have "core_ok ?ch (b\<lparr>bk_orders := h, bk_levels := v\<rparr>)" by (rule core_ok_link [OF core h(1,3)])
  moreover have "view ?ch (b\<lparr>bk_orders := h, bk_levels := v\<rparr>) = (view ch b)(s := enqueue s p a (view ch b s))"
    by (rule ext) (rule view)
  ultimately show ?thesis using b2 h(2)
    by (intro exI [of _ "b\<lparr>bk_orders := h, bk_levels := v\<rparr>"] exI [of _ ?ch]) (simp add: same_rest_def)
qed

lemma new_level_heap:
  assumes core: "core_ok ch b" and l: "l = bk_fresh b"
    and b1: "b1 = set_side_levels s (insert_level s p l (side_levels s b))
      (b\<lparr>bk_levels := (bk_levels b)(l \<mapsto> PriceLevel_init\<lparr>pl_price := p\<rparr>), bk_fresh := l + 1\<rparr>)"
  shows "level_set b1 = insert l (level_set b)"
    and "heap_ok (ch(l := [])) (level_set b1) (bk_orders b1) (bk_levels b1)"
proof -
  let ?lv = "PriceLevel_init\<lparr>pl_price := p\<rparr>"
  show L: "level_set b1 = insert l (level_set b)"
    by (cases s) (auto simp: level_set_def b1 set_side_levels_def side_levels_def)
  have "heap_ok (ch(l := [])) (level_set b) (bk_orders b) (bk_levels b1)"
    by (rule heap_ok_cong [OF _ core_okD(1) [OF core]]) (use fresh_level [OF core] l in \<open>auto simp: b1\<close>)
  moreover have "chain_ok (bk_orders b) ?lv []" by (simp add: chain_ok_def PriceLevel_init_def total_of_def)
  ultimately show "heap_ok (ch(l := [])) (level_set b1) (bk_orders b1) (bk_levels b1)"
    unfolding L by (simp add: heap_ok_def b1)
qed

lemma new_level_link:
  assumes core: "core_ok ch b" and a: "\<And>l. l \<in> level_set b \<Longrightarrow> a \<notin> set (ch l)"
    and oa: "bk_orders b a = Some oa" "bo_next oa = None" "bo_prev oa = None" and l: "l = bk_fresh b"
    and b1: "b1 = set_side_levels s (insert_level s p l (side_levels s b))
      (b\<lparr>bk_levels := (bk_levels b)(l \<mapsto> PriceLevel_init\<lparr>pl_price := p\<rparr>), bk_fresh := l + 1\<rparr>)"
  shows "\<exists>h v. linkOrder l a b1 = Some (b1\<lparr>bk_orders := h, bk_levels := v\<rparr>) \<and>
    heap_ok (ch(l := [a])) (level_set b1) h v \<and> same_data (bk_orders b) h \<and> same_prices (bk_levels b1) v"
proof -
  note L = new_level_heap(1) [OF core l b1]
  have "\<exists>h v. linkOrder l a b1 = Some (b1\<lparr>bk_orders := h, bk_levels := v\<rparr>) \<and>
      heap_ok ((ch(l := []))(l := (ch(l := [])) l @ [a])) (level_set b1) h v \<and>
      same_data (bk_orders b1) h \<and> same_prices (bk_levels b1) v"
  proof (rule link_heap [OF new_level_heap(2) [OF core l b1]])
    show "l \<in> level_set b1" by (simp add: L)
    show "a \<notin> set ((ch(l := [])) l')" if "l' \<in> level_set b1" for l' using that a L by auto
    show "bk_orders b1 a = Some oa" using oa(1) by (simp add: b1)
  qed (use oa in simp_all)
  then show ?thesis by (simp add: b1)
qed

lemma core_ok_new_level:
  assumes core: "core_ok ch b" and pnew: "p \<notin> fst ` set (side_levels s b)" and l: "l = bk_fresh b"
    and side: "\<And>s'. side_levels s' b2 = (if s' = s then insert_level s p l (side_levels s b) else side_levels s' b)"
    and heap: "heap_ok (ch(l := [a])) (level_set b2) (bk_orders b2) (bk_levels b2)"
    and price: "\<And>l'. l' \<noteq> l \<Longrightarrow> map_option pl_price (bk_levels b2 l') = map_option pl_price (bk_levels b l')"
      "map_option pl_price (bk_levels b2 l) = Some p"
    and fresh2: "bk_fresh b2 = l + 1"
  shows "core_ok (ch(l := [a])) b2"
proof (rule core_okI [OF heap])
  have fresh: "l \<notin> snd ` set (side_levels s' b)" for s'
    using fresh_level [OF core] unfolding l level_set_iff by blast
  show "sorted_wrt (before s') (map fst (side_levels s' b2))" for s'
    using core_okD(2) [OF core] sorted_insert_level [OF core_okD(2) [OF core] pnew, of l] by (simp add: side)
  show "distinct (map snd (side_levels s' b2))" for s'
    using core_okD(4) [OF core] fresh by (simp add: side distinct_snd_insert_level)
  show "s1 = s2" if "l' \<in> snd ` set (side_levels s1 b2)" "l' \<in> snd ` set (side_levels s2 b2)" for s1 s2 l'
    using that core_okD(5) [OF core, of l' s1 s2] fresh by (auto simp: side split: if_splits)
  show "(ch(l := [a])) l' \<noteq> [] \<and> map_option pl_price (bk_levels b2 l') = Some p' \<and> l' < bk_fresh b2"
    if m: "(p', l') \<in> set (side_levels s' b2)" for s' p' l'
  proof (cases "l' = l")
    case True
    then have "p' = p" using m fresh [of s'] by (force simp: side split: if_splits)
    with True price(2) fresh2 show ?thesis by simp
  next
    case False
    then have "(p', l') \<in> set (side_levels s' b)" using m by (auto simp: side split: if_splits)
    from core_okD(6) [OF core this] False price(1) [OF False] fresh2 l show ?thesis by simp
  qed
qed

lemma put_in_new:
  assumes core: "core_ok ch b" and find: "map_of (side_levels s b) p = None"
    and a: "\<And>l. l \<in> level_set b \<Longrightarrow> a \<notin> set (ch l)"
    and oa: "bk_orders b a = Some oa" "bo_next oa = None" "bo_prev oa = None"
    and new: "getOrCreateLevel s p b = (l, b1)"
  shows "\<exists>b2 ch'. linkOrder l a b1 = Some b2 \<and> core_ok ch' b2 \<and> seat ch' b2 = insert (s, l, a) (seat ch b) \<and>
    view ch' b2 = (view ch b)(s := enqueue s p a (view ch b s)) \<and>
    same_data (bk_orders b) (bk_orders b2) \<and> same_rest b b2"
proof -
  have l: "l = bk_fresh b" and b1: "b1 = set_side_levels s (insert_level s p l (side_levels s b))
      (b\<lparr>bk_levels := (bk_levels b)(l \<mapsto> PriceLevel_init\<lparr>pl_price := p\<rparr>), bk_fresh := l + 1\<rparr>)"
    using new find by (auto simp: getOrCreateLevel_def Let_def)
  have fresh': "l \<notin> snd ` set (side_levels s' b)" for s'
    using fresh_level [OF core] unfolding l level_set_iff by blast
  obtain h v where b2: "linkOrder l a b1 = Some (b1\<lparr>bk_orders := h, bk_levels := v\<rparr>)"
    and h: "heap_ok (ch(l := [a])) (level_set b1) h v" "same_data (bk_orders b) h" "same_prices (bk_levels b1) v"
    using new_level_link [OF core a oa l b1] by blast
  let ?b2 = "b1\<lparr>bk_orders := h, bk_levels := v\<rparr>" and ?ch = "ch(l := [a])"
  have side: "side_levels s' b1 = (if s' = s then insert_level s p l (side_levels s b) else side_levels s' b)" for s'
    by (simp add: b1)
  have "core_ok ?ch ?b2"
  proof (rule core_ok_new_level [OF core _ l])
    show "side_levels s' ?b2 = (if s' = s then insert_level s p l (side_levels s b) else side_levels s' b)" for s'
      using side by simp
    show "p \<notin> fst ` set (side_levels s b)" using find by (simp add: map_of_eq_None_iff)
    show "heap_ok ?ch (level_set ?b2) (bk_orders ?b2) (bk_levels ?b2)" using h(1) by (simp add: level_set_def)
  qed (use h(3) in \<open>simp_all add: same_prices_def b1\<close>)
  moreover have "seat ?ch ?b2 = insert (s, l, a) (seat ch b)"
  proof (intro set_eqI, unfold split_paired_all)
    fix s' l' x
    have "l \<notin> snd ` set (side_levels s' b)" by (rule fresh')
    then show "(s', l', x) \<in> seat ?ch ?b2 \<longleftrightarrow> (s', l', x) \<in> insert (s, l, a) (seat ch b)"
      using fresh' [of s] by (cases "l' = l"; cases "s' = s") (simp_all add: seat_def side)
  qed
  moreover have "view ?ch ?b2 = (view ch b)(s := enqueue s p a (view ch b s))"
  proof (rule ext)
    fix s'
    have none: "map_of (view ch b s) p = None" using find by (simp add: view_def map_of_value)
    have keep: "view ?ch b s'' = view ch b s''" for s'' unfolding view_def by (rule keep_other_levels [OF fresh'])
    have "view ?ch ?b2 s = insert_level s p (?ch l) (view ?ch b s)"
      using map_insert_level [of ?ch s p l "side_levels s b"] by (simp only: view_def side side_levels_simps refl if_True)
    then show "view ?ch ?b2 s' = ((view ch b)(s := enqueue s p a (view ch b s))) s'"
      using keep [of s] keep [of s'] none by (cases "s' = s") (simp_all add: enqueue_def, simp add: view_def side)
  qed
  ultimately show ?thesis using b2 h(2)
    by (intro exI [of _ ?b2] exI [of _ ?ch]) (simp add: same_rest_def b1)
qed


lemma getOrCreate_frame:
  assumes "getOrCreateLevel s p b = (l, b1)"
  shows "getOrCreateLevel s p (b\<lparr>bk_pool := q, bk_orders := h\<rparr>) = (l, b1\<lparr>bk_pool := q, bk_orders := h\<rparr>)"
    and "bk_orders b1 = bk_orders b" and "bk_pool b1 = bk_pool b" and "bk_order_index b1 = bk_order_index b"
  using assms by (cases s; auto simp: getOrCreateLevel_def Let_def set_side_levels_def side_levels_def split: option.splits)+

lemma put_in:
  assumes core: "core_ok ch b" and a: "\<And>l. l \<in> level_set b \<Longrightarrow> a \<notin> set (ch l)"
    and oa: "bk_orders b a = Some oa" "bo_next oa = None" "map_of (side_levels s b) p = None \<Longrightarrow> bo_prev oa = None"
    and new: "getOrCreateLevel s p b = (l, b1)"
  shows "\<exists>b2 ch'. linkOrder l a b1 = Some b2 \<and> core_ok ch' b2 \<and> seat ch' b2 = insert (s, l, a) (seat ch b) \<and>
    view ch' b2 = (view ch b)(s := enqueue s p a (view ch b s)) \<and>
    same_data (bk_orders b) (bk_orders b2) \<and> same_rest b b2"
proof (cases "map_of (side_levels s b) p")
  case None
  show ?thesis by (rule put_in_new [OF core None a oa(1,2) oa(3) [OF None] new])
next
  case (Some l')
  with new have "l' = l" "b1 = b" by (simp_all add: getOrCreateLevel_found)
  then show ?thesis using put_in_found [OF core Some _ oa(1,2)] a by simp
qed

subsection \<open>Changing an order outside every level, and the abstract book\<close>

lemma core_ok_store:
  assumes core: "core_ok ch b" and a: "\<And>l. l \<in> level_set b \<Longrightarrow> a \<notin> set (ch l)"
  shows "core_ok ch (b\<lparr>bk_pool := q, bk_orders := (bk_orders b)(a := x)\<rparr>)"
proof (rule core_okI)
  let ?b = "b\<lparr>bk_pool := q, bk_orders := (bk_orders b)(a := x)\<rparr>"
  have "chain_ok ((bk_orders b)(a := x)) lv (ch l) = chain_ok (bk_orders b) lv (ch l)" if "l \<in> level_set b" for lv l
    by (rule chain_ok_cong) (use a [OF that] in \<open>auto simp: entry_at_def\<close>)
  then have "heap_ok ch (level_set b) ((bk_orders b)(a := x)) (bk_levels b)"
    using core_okD(1) [OF core] by (simp add: heap_ok_def)
  then show "heap_ok ch (level_set ?b) (bk_orders ?b) (bk_levels ?b)" by (simp add: level_set_def)
  show "s = s'" if "l' \<in> snd ` set (side_levels s ?b)" "l' \<in> snd ` set (side_levels s' ?b)" for s s' l'
    using that core_okD(5) [OF core, of l' s s'] by simp
  show "ch l' \<noteq> [] \<and> map_option pl_price (bk_levels ?b l') = Some p \<and> l' < bk_fresh ?b"
    if "(p, l') \<in> set (side_levels s ?b)" for s p l' using that core_okD(6) [OF core, of p l' s] by simp
qed (use core_okD(2,4) [OF core] in simp_all)

lemma view_seat: "(p, as) \<in> set (view ch b s) \<Longrightarrow> x \<in> set as \<Longrightarrow> \<exists>l. (s, l, x) \<in> seat ch b"
  by (auto simp: view_def seat_def) force

lemma abstract_cong:
  assumes "view ch' b' = view ch b" and "\<And>s l x. (s, l, x) \<in> seat ch b \<Longrightarrow> entry_at (bk_orders b') x = entry_at (bk_orders b) x"
  shows "abstract ch' b' = abstract ch b"
proof
  fix s
  show "abstract ch' b' s = abstract ch b s"
    unfolding abstract_def assms(1)
  proof (rule map_cong [OF refl])
    fix pas
    assume m: "pas \<in> set (view ch b s)"
    obtain p as where pas: "pas = (p, as)" by (cases pas)
    have "map (entry_at (bk_orders b')) as = map (entry_at (bk_orders b)) as"
    proof (rule map_cong [OF refl])
      fix x
      assume "x \<in> set as"
      with view_seat [OF m [unfolded pas]] obtain l where "(s, l, x) \<in> seat ch b" by blast
      then show "entry_at (bk_orders b') x = entry_at (bk_orders b) x" by (rule assms(2))
    qed
    then show "(case pas of (p, as) \<Rightarrow> (p, map (entry_at (bk_orders b')) as)) =
        (case pas of (p, as) \<Rightarrow> (p, map (entry_at (bk_orders b)) as))" by (simp add: pas)
  qed
qed


lemma resting_side1:
  "concat (map snd (abstract ch b s)) = map (entry_at (bk_orders b)) (concat (map (\<lambda>x. ch (snd x)) (side_levels s b)))"
  by (simp add: abstract_def view_def map_concat comp_def case_prod_unfold)
lemma resting_side2: "set (concat (map (\<lambda>x. ch (snd x)) (side_levels s b))) = {x. \<exists>l. (s, l, x) \<in> seat ch b}"
  by (auto simp: seat_def image_iff)
lemma resting_side: "e \<in> set (concat (map snd (abstract ch b s))) \<longleftrightarrow> (\<exists>l x. (s, l, x) \<in> seat ch b \<and> e = entry_at (bk_orders b) x)"
  unfolding resting_side1 set_map resting_side2 by blast

lemma resting_seat:
  "e \<in> set (resting (abstract ch b)) \<longleftrightarrow> (\<exists>s l x. (s, l, x) \<in> seat ch b \<and> e = entry_at (bk_orders b) x)"
proof -
  have "e \<in> set (resting (abstract ch b)) \<longleftrightarrow>
      e \<in> set (concat (map snd (abstract ch b BUY))) \<or> e \<in> set (concat (map snd (abstract ch b SELL)))"
    unfolding resting_def set_append by (rule Un_iff)
  also have "\<dots> \<longleftrightarrow> (\<exists>s. e \<in> set (concat (map snd (abstract ch b s))))"
  proof
    assume "\<exists>s. e \<in> set (concat (map snd (abstract ch b s)))"
    then obtain s where "e \<in> set (concat (map snd (abstract ch b s)))" ..
    then show "e \<in> set (concat (map snd (abstract ch b BUY))) \<or> e \<in> set (concat (map snd (abstract ch b SELL)))"
      by (cases s) (simp_all only: simp_thms)
  qed blast
  finally show ?thesis unfolding resting_side .
qed

text \<open>The index knows exactly the resting orders.\<close>

lemma index_okD:
  assumes "index_ok ch b" and "map_of (bk_order_index b) ref = Some loc"
  shows "(ol_side loc, ol_level loc, ol_order loc) \<in> seat ch b" and "fst (entry_at (bk_orders b) (ol_order loc)) = ref"
  using assms(1) [unfolded index_ok_def, rule_format, of ref loc] assms(2) by simp_all

lemma index_ok_find:
  assumes "index_ok ch b" and "(s, l, a) \<in> seat ch b"
  shows "map_of (bk_order_index b) (fst (entry_at (bk_orders b) a)) = Some \<lparr>ol_side = s, ol_level = l, ol_order = a\<rparr>"
  using assms(1) [unfolded index_ok_def, rule_format, of "fst (entry_at (bk_orders b) a)" "\<lparr>ol_side = s, ol_level = l, ol_order = a\<rparr>"]
    assms(2) by simp

lemma index_ref_unique:
  assumes "index_ok ch b" and "(s, l, a) \<in> seat ch b" and "(s', l', a') \<in> seat ch b"
    and "fst (entry_at (bk_orders b) a) = fst (entry_at (bk_orders b) a')"
  shows "a' = a"
proof -
  have "Some \<lparr>ol_side = s, ol_level = l, ol_order = a\<rparr> = Some \<lparr>ol_side = s', ol_level = l', ol_order = a'\<rparr>"
    using index_ok_find [OF assms(1,2)] index_ok_find [OF assms(1,3)] unfolding assms(4) by (rule trans [OF sym])
  then show ?thesis by simp
qed

lemma index_resting:
  assumes ix: "index_ok ch b"
  shows "map_of (resting (abstract ch b)) ref =
    map_option (\<lambda>loc. snd (entry_at (bk_orders b) (ol_order loc))) (map_of (bk_order_index b) ref)"
proof (cases "map_of (bk_order_index b) ref")
  case None
  have "ref \<notin> fst ` set (resting (abstract ch b))"
  proof
    assume "ref \<in> fst ` set (resting (abstract ch b))"
    then obtain e where e: "e \<in> set (resting (abstract ch b))" "ref = fst e" by blast
    then obtain s l x where x: "(s, l, x) \<in> seat ch b" "e = entry_at (bk_orders b) x" unfolding resting_seat by blast
    from index_ok_find [OF ix x(1)] None e(2) x(2) show False by simp
  qed
  then have "map_of (resting (abstract ch b)) ref = None" by (simp add: map_of_eq_None_iff)
  then show ?thesis using None by simp
next
  case (Some loc)
  note loc = index_okD [OF ix Some]
  have "entry_at (bk_orders b) (ol_order loc) \<in> set (resting (abstract ch b))" unfolding resting_seat using loc(1) by blast
  then have "ref \<in> fst ` set (resting (abstract ch b))" using loc(2) by blast
  then obtain q where q: "map_of (resting (abstract ch b)) ref = Some q" by (meson map_of_eq_None_iff not_Some_eq)
  from map_of_SomeD [OF this] obtain s l x where x: "(s, l, x) \<in> seat ch b" "(ref, q) = entry_at (bk_orders b) x"
    unfolding resting_seat by blast
  then have e: "entry_at (bk_orders b) x = (ref, q)" by simp
  have "x = ol_order loc" by (rule index_ref_unique [OF ix loc(1) x(1)]) (simp add: loc(2) e)
  with e q Some show ?thesis by simp
qed


subsection \<open>Index, store and abstract book after a removal or an insertion\<close>

lemma abstract_removed:
  assumes ix: "index_ok ch b" and s: "(s, l, a) \<in> seat ch b" and ref: "fst (entry_at (bk_orders b) a) = ref"
    and lv: "\<And>s'. side_levels s' b' = filter (\<lambda>(p, l'). taken a ch l' \<noteq> []) (side_levels s' b)"
    and same: "\<And>x. x \<noteq> a \<Longrightarrow> entry_at (bk_orders b') x = entry_at (bk_orders b) x"
  shows "abstract (taken a ch) b' = spec_remove ref (abstract ch b)"
proof
  fix s'
  let ?E = "\<lambda>b. \<lambda>(p, as). (p, map (entry_at (bk_orders b)) as)"
  have "abstract (taken a ch) b' s' = map (?E b') (dequeue (\<lambda>x. x \<noteq> a) (view ch b s'))"
    unfolding abstract_def view_taken [OF lv] ..
  also have "\<dots> = map (?E b) (dequeue (\<lambda>x. x \<noteq> a) (view ch b s'))"
    by (rule map_cong [OF refl]) (auto simp: dequeue_def same)
  also have "\<dots> = dequeue (\<lambda>e. fst e \<noteq> ref) (map (?E b) (view ch b s'))"
  proof (rule dequeue_map)
    fix p q x
    assume m: "(p, q) \<in> set (view ch b s')" "x \<in> set q"
    then obtain l' where x: "(s', l', x) \<in> seat ch b" using view_seat by blast
    show "(fst (entry_at (bk_orders b) x) \<noteq> ref) = (x \<noteq> a)"
      using index_ref_unique [OF ix s x] ref by auto
  qed
  finally show "abstract (taken a ch) b' s' = spec_remove ref (abstract ch b) s'"
    by (simp add: spec_remove_def abstract_def)
qed

lemma index_removed:
  assumes core: "core_ok ch b" and ix: "index_ok ch b" and s: "(s, l, a) \<in> seat ch b"
    and ref: "fst (entry_at (bk_orders b) a) = ref"
    and seat: "seat ch' b' = seat ch b - {(s, l, a)}"
    and same: "\<And>x. x \<noteq> a \<Longrightarrow> entry_at (bk_orders b') x = entry_at (bk_orders b) x"
    and idx: "bk_order_index b' = AList.delete ref (bk_order_index b)"
  shows "index_ok ch' b'"
  unfolding index_ok_def
proof (intro allI)
  fix r and loc :: OrderLocation
  let ?t = "(ol_side loc, ol_level loc, ol_order loc)"
  have "map_of (bk_order_index b') r = Some loc \<longleftrightarrow> r \<noteq> ref \<and> map_of (bk_order_index b) r = Some loc"
    by (simp add: idx delete_conv restrict_map_def)
  also have "\<dots> \<longleftrightarrow> r \<noteq> ref \<and> ?t \<in> seat ch b \<and> fst (entry_at (bk_orders b) (ol_order loc)) = r"
    using ix by (simp add: index_ok_def)
  also have "\<dots> \<longleftrightarrow> ol_order loc \<noteq> a \<and> ?t \<in> seat ch b \<and> fst (entry_at (bk_orders b) (ol_order loc)) = r"
    using index_ref_unique [OF ix s, of "ol_side loc" "ol_level loc" "ol_order loc"] ref by auto
  also have "\<dots> \<longleftrightarrow> ?t \<in> seat ch' b' \<and> fst (entry_at (bk_orders b') (ol_order loc)) = r"
    unfolding seat using seat_unique [OF core s, of "ol_side loc" "ol_level loc"] same [of "ol_order loc"]
    by (cases "ol_order loc = a") auto
  finally show "map_of (bk_order_index b') r = Some loc \<longleftrightarrow>
      ?t \<in> seat ch' b' \<and> fst (entry_at (bk_orders b') (ol_order loc)) = r" .
qed

lemma index_inserted:
  assumes ix: "index_ok ch b" and a: "\<And>s l. (s, l, a) \<notin> seat ch b"
    and new: "map_of (bk_order_index b) ref = None"
    and seat: "seat ch' b' = insert (s, l, a) (seat ch b)"
    and same: "\<And>x. x \<noteq> a \<Longrightarrow> entry_at (bk_orders b') x = entry_at (bk_orders b) x"
    and ref: "fst (entry_at (bk_orders b') a) = ref"
    and idx: "bk_order_index b' = AList.update ref \<lparr>ol_side = s, ol_level = l, ol_order = a\<rparr> (bk_order_index b)"
  shows "index_ok ch' b'"
  unfolding index_ok_def
proof (intro allI)
  fix r and loc :: OrderLocation
  let ?t = "(ol_side loc, ol_level loc, ol_order loc)" and ?new = "\<lparr>ol_side = s, ol_level = l, ol_order = a\<rparr>"
  have old: "map_of (bk_order_index b) r = Some loc \<longleftrightarrow> ?t \<in> seat ch b \<and> fst (entry_at (bk_orders b) (ol_order loc)) = r" for r
    using ix by (simp add: index_ok_def)
  have loc: "?t = (s, l, a) \<longleftrightarrow> loc = ?new" by (cases loc) auto
  show "map_of (bk_order_index b') r = Some loc \<longleftrightarrow>
      ?t \<in> seat ch' b' \<and> fst (entry_at (bk_orders b') (ol_order loc)) = r"
  proof (cases "ol_order loc = a")
    case True
    then have nt: "?t \<notin> seat ch b" using a by simp
    then have "map_of (bk_order_index b) r \<noteq> Some loc" using old by simp
    then show ?thesis using True ref loc nt unfolding seat idx update_conv by auto
  next
    case False
    then have "loc \<noteq> ?new" by auto
    moreover have "map_of (bk_order_index b) ref \<noteq> Some loc" using new by simp
    ultimately show ?thesis using False same [OF False] loc old [of r] old [of ref]
      unfolding seat idx update_conv by (cases "r = ref") auto
  qed
qed

lemma abstract_inserted:
  assumes view: "view ch' b' = (view ch b)(s := enqueue s p a (view ch b s))"
    and same: "\<And>s l x. (s, l, x) \<in> seat ch b \<Longrightarrow> entry_at (bk_orders b') x = entry_at (bk_orders b) x"
    and new: "entry_at (bk_orders b') a = (ref, q)"
  shows "abstract ch' b' = spec_add s p ref q (abstract ch b)"
proof
  fix s'
  let ?E = "\<lambda>b. \<lambda>(p, as). (p, map (entry_at (bk_orders b)) as)"
  have old: "map (?E b') (view ch b s'') = abstract ch b s''" for s''
  proof -
    have "abstract ch (b\<lparr>bk_orders := bk_orders b'\<rparr>) = abstract ch b"
      by (rule abstract_cong) (use same in \<open>simp_all add: view_def fun_eq_iff\<close>)
    then have "abstract ch (b\<lparr>bk_orders := bk_orders b'\<rparr>) s'' = abstract ch b s''" by simp
    then show ?thesis by (simp add: abstract_def view_def)
  qed
  show "abstract ch' b' s' = spec_add s p ref q (abstract ch b) s'"
    using enqueue_map [of "entry_at (bk_orders b')" s p a "view ch b s"] old [of s] old [of s'] new
    by (simp add: abstract_def [of ch' b'] view spec_add_def)
qed

subsection \<open>The operations\<close>

definition parts_ok :: "('p \<Rightarrow> addr set) \<Rightarrow> (laddr \<Rightarrow> addr list) \<Rightarrow> 'p MarketOrderBook \<Rightarrow> bool" where
  "parts_ok live ch b \<longleftrightarrow> core_ok ch b \<and> index_ok ch b \<and> store_ok live ch b"

lemma store_image_remove:
  assumes core: "core_ok ch b" and s: "(s, l, a) \<in> seat ch b"
  shows "(\<lambda>(s, l, a). a) ` (seat ch b - {(s, l, a)}) = (\<lambda>(s, l, a). a) ` seat ch b - {a}"
proof -
  have "t = (s, l, a)" if "t \<in> seat ch b" "snd (snd t) = a" for t
    using seat_unique [OF core s, of "fst t" "fst (snd t)"] that by (cases t) auto
  then show ?thesis by (force simp: case_prod_unfold)
qed

lemma store_removed:
  assumes core: "core_ok ch b" and st: "store_ok live ch b" and pool: "pool_ok ops live" and s: "(s, l, a) \<in> seat ch b"
    and seat: "seat ch' b' = seat ch b - {(s, l, a)}" and dom: "dom (bk_orders b') = dom (bk_orders b) - {a}"
    and free: "bk_pool b' = po_deallocate ops a (bk_pool b)"
  shows "store_ok live ch' b'"
proof -
  have "a \<in> live (bk_pool b)" using st seat_live [OF core s] by (auto simp: store_ok_def)
  then have "live (bk_pool b') = live (bk_pool b) - {a}" using pool by (simp add: pool_ok_def free)
  then show ?thesis using st unfolding store_ok_def seat dom store_image_remove [OF core s] by simp
qed

lemma drop_deallocate:
  "drop_if_empty s l (deallocateOrder ops a b) = map_option (deallocateOrder ops a) (drop_if_empty s l b)"
  by (cases s; cases "bk_levels b l"; cases "map_of (side_levels s b) (pl_price (the (bk_levels b l)))")
    (simp_all add: drop_if_empty_def deallocateOrder_def erase_level_def set_side_levels_def side_levels_def)

lemma deallocate_index [simp]: "bk_order_index (deallocateOrder ops a b) = bk_order_index b"
  by (simp add: deallocateOrder_def)

lemma erase_refines:
  assumes ok: "parts_ok live ch b" and pool: "pool_ok ops live" and find: "map_of (bk_order_index b) ref = Some loc"
  shows "\<exists>b' ch'. eraseOrder ops ref b = Some (True, b') \<and> parts_ok live ch' b' \<and>
    abstract ch' b' = spec_remove ref (abstract ch b) \<and> bk_ticker_id b' = bk_ticker_id b \<and>
    bk_in_snapshot b' = bk_in_snapshot b"
proof -
  have core: "core_ok ch b" and ix: "index_ok ch b" and st: "store_ok live ch b" using ok by (simp_all add: parts_ok_def)
  let ?a = "ol_order loc" and ?ch = "taken (ol_order loc) ch"
  note loc = index_okD [OF ix find]
  obtain b1 b2 where b1: "unlinkOrder (ol_level loc) ?a b = Some b1" and b2: "drop_if_empty (ol_side loc) (ol_level loc) b1 = Some b2"
    and core2: "core_ok ?ch b2" and lv: "\<And>s'. side_levels s' b2 = filter (\<lambda>(p, l'). ?ch l' \<noteq> []) (side_levels s' b)"
    and data: "same_data (bk_orders b) (bk_orders b2)" and rest: "same_rest b b2"
    using take_out [OF core loc(1)] by blast
  define b' where "b' = (deallocateOrder ops ?a b2)\<lparr>bk_order_index := AList.delete ref (bk_order_index b)\<rparr>"
  have seat2: "seat ?ch b2 = seat ch b - {(ol_side loc, ol_level loc, ?a)}" by (rule seat_taken [OF core loc(1) lv])
  have out: "?a \<notin> set (?ch l)" for l by (simp add: taken_def)
  have lv': "side_levels s' b' = side_levels s' b2" for s' by (simp add: b'_def deallocateOrder_def)
  have seat': "seat ?ch b' = seat ch b - {(ol_side loc, ol_level loc, ?a)}"
    using seat2 by (simp add: seat_def lv')
  have same: "entry_at (bk_orders b') x = entry_at (bk_orders b) x" if "x \<noteq> ?a" for x
    using data that by (simp add: same_data_def b'_def deallocateOrder_def entry_at_def)
  have run: "eraseOrder ops ref b = Some (True, b')"
    using find b1 b2 rest by (simp add: eraseOrder_def drop_deallocate b'_def same_rest_def)
  have "core_ok ?ch b'"
  proof -
    have "b' = (b2\<lparr>bk_pool := po_deallocate ops ?a (bk_pool b2), bk_orders := (bk_orders b2)(?a := None)\<rparr>)
        \<lparr>bk_order_index := AList.delete ref (bk_order_index b)\<rparr>" by (simp add: b'_def deallocateOrder_def)
    moreover have "core_ok ?ch (b2\<lparr>bk_pool := po_deallocate ops ?a (bk_pool b2), bk_orders := (bk_orders b2)(?a := None)\<rparr>)"
      by (rule core_ok_store [OF core2 out])
    ultimately show ?thesis by (simp add: core_ok_def level_set_def)
  qed
  moreover have "index_ok ?ch b'"
    by (rule index_removed [OF core ix loc seat' same]) (simp_all add: b'_def)
  moreover have "store_ok live ?ch b'"
    using data rest by (intro store_removed [OF core st pool loc(1) seat'])
      (auto simp: b'_def deallocateOrder_def same_data_def same_rest_def)
  moreover have "abstract ?ch b' = spec_remove ref (abstract ch b)"
    by (rule abstract_removed [OF ix loc]) (simp_all add: lv' lv same)
  ultimately show ?thesis using run rest
    by (intro exI [of _ b'] exI [of _ ?ch]) (simp add: parts_ok_def b'_def deallocateOrder_def same_rest_def)
qed


lemma seat_cong: "(\<And>s. side_levels s b' = side_levels s b) \<Longrightarrow> seat ch b' = seat ch b"
  by (simp add: seat_def)

lemma core_ok_index [simp]: "core_ok ch (b\<lparr>bk_order_index := i\<rparr>) = core_ok ch b"
  by (simp add: core_ok_def level_set_def)

lemma unseated:
  assumes "store_ok live ch b" and "a \<notin> dom (bk_orders b)"
  shows "(s, l, a) \<notin> seat ch b" and "l \<in> level_set b \<Longrightarrow> a \<notin> set (ch l)"
proof -
  show *: "(s, l, a) \<notin> seat ch b" for s l
  proof
    assume "(s, l, a) \<in> seat ch b"
    then have "a \<in> (\<lambda>(s, l, a). a) ` seat ch b" by (rule rev_image_eqI) simp
    with assms show False by (simp add: store_ok_def)
  qed
  show "l \<in> level_set b \<Longrightarrow> a \<notin> set (ch l)" using * by (auto simp: level_set_iff seat_def)
qed

text \<open>Giving a detached order its contents, linking it, and recording it in the index.\<close>

lemma seat_order:
  assumes core: "core_ok ch b" and ix: "index_ok ch b"
    and un: "\<And>s l. (s, l, a) \<notin> seat ch b" "\<And>l. l \<in> level_set b \<Longrightarrow> a \<notin> set (ch l)"
    and new: "map_of (bk_order_index b) (bo_order_ref oa) = None"
    and oa: "bo_next oa = None" "map_of (side_levels s b) p = None \<Longrightarrow> bo_prev oa = None"
    and g: "getOrCreateLevel s p b = (l, b1)"
  shows "\<exists>b2 ch' b'. linkOrder l a (b1\<lparr>bk_pool := q, bk_orders := (bk_orders b)(a \<mapsto> oa)\<rparr>) = Some b2 \<and>
    b' = b2\<lparr>bk_order_index := AList.update (bo_order_ref oa)
      \<lparr>ol_side = s, ol_level = l, ol_order = a\<rparr> (bk_order_index b)\<rparr> \<and>
    core_ok ch' b' \<and> index_ok ch' b' \<and> seat ch' b' = insert (s, l, a) (seat ch b) \<and>
    abstract ch' b' = spec_add s p (bo_order_ref oa) (bo_qty oa) (abstract ch b) \<and>
    dom (bk_orders b') = insert a (dom (bk_orders b)) \<and> same_rest (b\<lparr>bk_pool := q\<rparr>) b2"
proof -
  let ?h = "(bk_orders b)(a \<mapsto> oa)"
  let ?b0 = "b\<lparr>bk_pool := q, bk_orders := ?h\<rparr>" and ?b1 = "b1\<lparr>bk_pool := q, bk_orders := ?h\<rparr>"
  note g0 = getOrCreate_frame(1) [OF g, where q = q and h = ?h]
  have core0: "core_ok ch ?b0" by (rule core_ok_store [OF core un(2)])
  have "\<exists>b2 ch'. linkOrder l a ?b1 = Some b2 \<and> core_ok ch' b2 \<and> seat ch' b2 = insert (s, l, a) (seat ch ?b0) \<and>
    view ch' b2 = (view ch ?b0)(s := enqueue s p a (view ch ?b0 s)) \<and>
    same_data (bk_orders ?b0) (bk_orders b2) \<and> same_rest ?b0 b2"
    by (rule put_in [OF core0 _ _ _ _ g0, of a oa]) (use un(2) oa in \<open>simp_all add: level_set_def\<close>)
  then obtain b2 ch' where link: "linkOrder l a ?b1 = Some b2" and core2: "core_ok ch' b2"
    and seat2: "seat ch' b2 = insert (s, l, a) (seat ch ?b0)"
    and view2: "view ch' b2 = (view ch ?b0)(s := enqueue s p a (view ch ?b0 s))"
    and data: "same_data (bk_orders ?b0) (bk_orders b2)" and rest: "same_rest ?b0 b2"
    by blast
  define b' where "b' = b2\<lparr>bk_order_index := AList.update (bo_order_ref oa)
      \<lparr>ol_side = s, ol_level = l, ol_order = a\<rparr> (bk_order_index b)\<rparr>"
  have side: "seat ch' b' = insert (s, l, a) (seat ch b)" using seat2 by (simp add: b'_def seat_def)
  have same: "entry_at (bk_orders b') x = entry_at (bk_orders b) x" if "x \<noteq> a" for x
    using data that by (simp add: same_data_def b'_def entry_at_def)
  have ent: "entry_at (bk_orders b') a = (bo_order_ref oa, bo_qty oa)"
    using data by (simp add: same_data_def b'_def) (simp add: entry_at_def)
  have "core_ok ch' b'" using core2 by (simp add: b'_def)
  moreover have "index_ok ch' b'"
    by (rule index_inserted [OF ix un(1) new side same]) (simp, simp add: ent, simp add: b'_def)
  moreover have "abstract ch' b' = spec_add s p (bo_order_ref oa) (bo_qty oa) (abstract ch b)"
  proof (rule abstract_inserted [OF _ _ ent])
    have v0: "view ch ?b0 = view ch b" by (simp add: view_def fun_eq_iff)
    have "view ch' b' = view ch' b2" by (simp add: b'_def view_def fun_eq_iff)
    then show "view ch' b' = (view ch b)(s := enqueue s p a (view ch b s))" using view2 unfolding v0 by simp
    show "entry_at (bk_orders b') x = entry_at (bk_orders b) x" if "(s', l', x) \<in> seat ch b" for s' l' x
      using that un(1) same [of x] by (cases "x = a") auto
  qed
  moreover have "dom (bk_orders b') = insert a (dom (bk_orders b))" using data by (simp add: same_data_def b'_def)
  ultimately show ?thesis using link rest side b'_def by (intro exI [of _ b2] exI [of _ ch'] exI [of _ b']) (simp add: same_rest_def)
qed

lemma add_refines:
  assumes ok: "parts_ok live ch b" and pool: "pool_ok ops live"
    and new: "map_of (bk_order_index b) (mu_order_ref u) = None" and room: "fst (po_allocate ops (bk_pool b)) \<noteq> None"
  shows "\<exists>b' ch'. addOrder ops u b = updateBBO b' \<and> parts_ok live ch' b' \<and>
    abstract ch' b' = spec_add (mu_side u) (mu_price u) (mu_order_ref u) (mu_qty u) (abstract ch b) \<and>
    bk_ticker_id b' = bk_ticker_id b \<and> bk_in_snapshot b' = bk_in_snapshot b"
proof -
  have core: "core_ok ch b" and ix: "index_ok ch b" and st: "store_ok live ch b" using ok by (simp_all add: parts_ok_def)
  obtain a pool' where al: "po_allocate ops (bk_pool b) = (Some a, pool')" using room by (cases "po_allocate ops (bk_pool b)") auto
  have live: "a \<notin> live (bk_pool b)" "live pool' = insert a (live (bk_pool b))" using pool al by (simp_all add: pool_ok_def)
  have free: "a \<notin> dom (bk_orders b)" using live(1) st by (simp add: store_ok_def)
  let ?oa = "\<lparr>bo_order_ref = mu_order_ref u, bo_qty = mu_qty u, bo_next = None, bo_prev = None\<rparr>"
  obtain l b1 where g: "getOrCreateLevel (mu_side u) (mu_price u) b = (l, b1)" by fastforce
  obtain b2 ch' b' where link: "linkOrder l a (b1\<lparr>bk_pool := pool', bk_orders := (bk_orders b)(a \<mapsto> ?oa)\<rparr>) = Some b2"
    and b': "b' = b2\<lparr>bk_order_index := AList.update (mu_order_ref u)
      \<lparr>ol_side = mu_side u, ol_level = l, ol_order = a\<rparr> (bk_order_index b)\<rparr>"
    and ok': "core_ok ch' b'" "index_ok ch' b'" "seat ch' b' = insert (mu_side u, l, a) (seat ch b)"
      "dom (bk_orders b') = insert a (dom (bk_orders b))"
    and abs: "abstract ch' b' = spec_add (mu_side u) (mu_price u) (mu_order_ref u) (mu_qty u) (abstract ch b)"
    and rest: "same_rest (b\<lparr>bk_pool := pool'\<rparr>) b2"
    using seat_order [OF core ix unseated [OF st free] _ _ _ g, of ?oa pool'] new by auto
  have "addOrder ops u b = updateBBO b'"
    using new g al link rest getOrCreate_frame(2,3,4) [OF g] by (simp add: addOrder_def allocateOrder_def b' same_rest_def)
  moreover have "store_ok live ch' b'"
    using st rest live(2) ok'(3,4) by (simp add: store_ok_def same_rest_def b')
  ultimately show ?thesis using rest abs ok'(1,2)
    by (intro exI [of _ b'] exI [of _ ch']) (simp add: parts_ok_def b' same_rest_def)
qed


lemma linkOrder_index:
  "linkOrder l a (b\<lparr>bk_order_index := i\<rparr>) = map_option (\<lambda>b. b\<lparr>bk_order_index := i\<rparr>) (linkOrder l a b)"
  by (auto simp: linkOrder_def modify_level_def modify_order_def split: option.split Option.bind_split)

lemma linkOrder_keeps: "linkOrder l a b = Some b' \<Longrightarrow> bk_order_index b' = bk_order_index b"
  by (auto simp: linkOrder_def modify_level_def modify_order_def split: option.splits Option.bind_splits)

lemma prev_not_alone:
  assumes core: "core_ok ch b" and s: "(s, l, a) \<in> seat ch b" and o': "bk_orders b a = Some o'" and p: "bo_prev o' \<noteq> None"
  shows "taken a ch l \<noteq> []"
proof -
  obtain lv where "bk_levels b l = Some lv" and lv: "dseg (bk_orders b) None (pl_head lv) (ch l) (pl_tail lv) None"
    and "pl_total_qty lv = total_of (bk_orders b) (ch l)" and d: "distinct (ch l)"
    using heap_okD [OF core_okD(1) [OF core] seatD(3) [OF s]] .
  obtain us vs where ch: "ch l = us @ a # vs" using seatD(2) [OF s] by (auto dest: split_list)
  have "us \<noteq> []" using unlink_chain(4) [OF lv [unfolded ch] d [unfolded ch] o'] p by simp
  moreover have "filter (\<lambda>x. x \<noteq> a) us = us" using d ch by (auto intro!: filter_True)
  ultimately show ?thesis by (simp add: taken_def ch)
qed

text \<open>A listed order taken out of its level and of the index, but not yet freed.\<close>

lemma detach_order:
  assumes ok: "parts_ok live ch b" and find: "map_of (bk_order_index b) ref = Some loc"
  shows "\<exists>b1 b2 bd. unlinkOrder (ol_level loc) (ol_order loc) b = Some b1 \<and>
    drop_if_empty (ol_side loc) (ol_level loc) b1 = Some b2 \<and> same_rest b b2 \<and>
    bd = b2\<lparr>bk_order_index := AList.delete ref (bk_order_index b)\<rparr> \<and>
    core_ok (taken (ol_order loc) ch) bd \<and> index_ok (taken (ol_order loc) ch) bd \<and>
    seat (taken (ol_order loc) ch) bd = seat ch b - {(ol_side loc, ol_level loc, ol_order loc)} \<and>
    abstract (taken (ol_order loc) ch) bd = spec_remove ref (abstract ch b) \<and>
    dom (bk_orders bd) = dom (bk_orders b) \<and> bk_orders bd (ol_order loc) = bk_orders b (ol_order loc) \<and>
    (\<forall>s'. side_levels s' bd = filter (\<lambda>(p, l'). taken (ol_order loc) ch l' \<noteq> []) (side_levels s' b))"
proof -
  have core: "core_ok ch b" and ix: "index_ok ch b" using ok by (simp_all add: parts_ok_def)
  let ?a = "ol_order loc" and ?ch = "taken (ol_order loc) ch"
  note loc = index_okD [OF ix find]
  obtain b1 b2 where b12: "unlinkOrder (ol_level loc) ?a b = Some b1" "drop_if_empty (ol_side loc) (ol_level loc) b1 = Some b2"
    and core2: "core_ok ?ch b2" and lv: "\<And>s'. side_levels s' b2 = filter (\<lambda>(p, l'). ?ch l' \<noteq> []) (side_levels s' b)"
    and data: "same_data (bk_orders b) (bk_orders b2)" "bk_orders b2 ?a = bk_orders b ?a" and rest: "same_rest b b2"
    using take_out [OF core loc(1)] by blast
  define bd where "bd = b2\<lparr>bk_order_index := AList.delete ref (bk_order_index b)\<rparr>"
  have lvd: "side_levels s' bd = filter (\<lambda>(p, l'). ?ch l' \<noteq> []) (side_levels s' b)" for s' by (simp add: bd_def lv)
  have seat: "seat ?ch bd = seat ch b - {(ol_side loc, ol_level loc, ?a)}" by (rule seat_taken [OF core loc(1) lvd])
  have same: "entry_at (bk_orders bd) x = entry_at (bk_orders b) x" for x using data by (simp add: same_data_def bd_def)
  have "index_ok ?ch bd" by (rule index_removed [OF core ix loc seat same]) (simp add: bd_def)
  moreover have "abstract ?ch bd = spec_remove ref (abstract ch b)" by (rule abstract_removed [OF ix loc lvd same])
  moreover have "core_ok ?ch bd" using core2 by (simp add: bd_def)
  moreover have "dom (bk_orders bd) = dom (bk_orders b)" "bk_orders bd ?a = bk_orders b ?a"
    using data by (simp_all add: same_data_def bd_def)
  ultimately show ?thesis using b12 rest seat lvd bd_def by blast
qed

lemma detached_level:
  assumes core: "core_ok ch b" and s: "(s, l, a) \<in> seat ch b" and o': "bk_orders b a = Some o'"
    and dest: "bo_prev o' = None \<or> map_of (side_levels s1 b) p \<noteq> None"
    and lv: "\<And>s'. side_levels s' bd = filter (\<lambda>(p, l'). taken a ch l' \<noteq> []) (side_levels s' b)"
    and none: "map_of (side_levels s1 bd) p = None"
  shows "bo_prev o' = None"
proof (rule ccontr)
  assume p: "bo_prev o' \<noteq> None"
  obtain p' where "(p', l) \<in> set (side_levels s b)" using seatD(1) [OF s] by auto
  from filter_levels [OF core s this, of s1] prev_not_alone [OF core s o' p]
  have "side_levels s1 bd = side_levels s1 b" by (simp add: lv)
  with none dest p show False by simp
qed

lemma getOrCreate_index:
  "getOrCreateLevel s p b = (l, bg) \<Longrightarrow>
    getOrCreateLevel s p (b\<lparr>bk_order_index := i\<rparr>) = (l, bg\<lparr>bk_order_index := i\<rparr>)"
  by (cases s) (auto simp: getOrCreateLevel_def Let_def set_side_levels_def side_levels_def split: option.splits)

lemma store_moved:
  assumes core: "core_ok ch b" and st: "store_ok live ch b" and s: "(s, l, a) \<in> seat ch b"
    and seat: "seat ch' b' = insert (s', l', a) (seat ch b - {(s, l, a)})"
    and dom: "dom (bk_orders b') = insert a (dom (bk_orders b))" and pool: "bk_pool b' = bk_pool b"
  shows "store_ok live ch' b'"
proof -
  have a: "a \<in> dom (bk_orders b)" using seat_live [OF core s] by blast
  have "(\<lambda>(s, l, a). a) ` seat ch' b' = insert a ((\<lambda>(s, l, a). a) ` seat ch b - {a})"
    unfolding seat image_insert store_image_remove [OF core s] by simp
  also have "\<dots> = insert a (dom (bk_orders b) - {a})" using st by (simp add: store_ok_def)
  also have "\<dots> = dom (bk_orders b)" using a by (rule insert_Diff)
  finally have "(\<lambda>(s, l, a). a) ` seat ch' b' = dom (bk_orders b')" by (simp add: dom insert_absorb [OF a])
  moreover have "live (bk_pool b') = dom (bk_orders b')" using st unfolding store_ok_def dom pool insert_absorb [OF a] by simp
  ultimately show ?thesis by (simp add: store_ok_def)
qed

lemma replace_refines:
  assumes ok: "parts_ok live ch b" and find: "map_of (bk_order_index b) (mu_order_ref u) = Some loc"
    and new: "map_of (bk_order_index b) (mu_new_ref u) = None"
    and o': "bk_orders b (ol_order loc) = Some o'" "bo_next o' = None"
      "bo_prev o' = None \<or> map_of (side_levels (mu_side u) b) (mu_price u) \<noteq> None"
  shows "\<exists>b' ch'. replaceOrder u b = Some (True, b') \<and> parts_ok live ch' b' \<and>
    abstract ch' b' = spec_add (mu_side u) (mu_price u) (mu_new_ref u) (mu_qty u) (spec_remove (mu_order_ref u) (abstract ch b)) \<and>
    bk_ticker_id b' = bk_ticker_id b \<and> bk_in_snapshot b' = bk_in_snapshot b"
proof -
  have core: "core_ok ch b" and ix: "index_ok ch b" and st: "store_ok live ch b" using ok by (simp_all add: parts_ok_def)
  note loc = index_okD [OF ix find]
  let ?a = "ol_order loc" and ?ch = "taken (ol_order loc) ch" and ?idx = "AList.delete (mu_order_ref u) (bk_order_index b)"
  obtain b1 b2 bd where b12: "unlinkOrder (ol_level loc) ?a b = Some b1" "drop_if_empty (ol_side loc) (ol_level loc) b1 = Some b2"
    and rest: "same_rest b b2" and bd: "bd = b2\<lparr>bk_order_index := ?idx\<rparr>"
    and cored: "core_ok ?ch bd" and ixd: "index_ok ?ch bd"
    and seatd: "seat ?ch bd = seat ch b - {(ol_side loc, ol_level loc, ?a)}"
    and absd: "abstract ?ch bd = spec_remove (mu_order_ref u) (abstract ch b)"
    and ordd: "dom (bk_orders bd) = dom (bk_orders b)" "bk_orders bd ?a = bk_orders b ?a"
    and lvd: "\<And>s'. side_levels s' bd = filter (\<lambda>(p, l'). ?ch l' \<noteq> []) (side_levels s' b)"
    using detach_order [OF ok find] by blast
  let ?oa = "o'\<lparr>bo_order_ref := mu_new_ref u, bo_qty := mu_qty u\<rparr>"
  obtain l bg where g: "getOrCreateLevel (mu_side u) (mu_price u) b2 = (l, bg)" by fastforce
  note gd = getOrCreate_index [OF g, of ?idx, folded bd] and gf = getOrCreate_frame(2,3,4) [OF g]
  have "\<exists>b3 ch' b'. linkOrder l ?a ((bg\<lparr>bk_order_index := ?idx\<rparr>)\<lparr>bk_pool := bk_pool b2, bk_orders := (bk_orders bd)(?a \<mapsto> ?oa)\<rparr>) = Some b3 \<and>
    b' = b3\<lparr>bk_order_index := AList.update (bo_order_ref ?oa) \<lparr>ol_side = mu_side u, ol_level = l, ol_order = ?a\<rparr> (bk_order_index bd)\<rparr> \<and>
    core_ok ch' b' \<and> index_ok ch' b' \<and> seat ch' b' = insert (mu_side u, l, ?a) (seat ?ch bd) \<and>
    abstract ch' b' = spec_add (mu_side u) (mu_price u) (bo_order_ref ?oa) (bo_qty ?oa) (abstract ?ch bd) \<and>
    dom (bk_orders b') = insert ?a (dom (bk_orders bd)) \<and> same_rest (bd\<lparr>bk_pool := bk_pool b2\<rparr>) b3"
  proof (rule seat_order [OF cored ixd _ _ _ _ _ gd])
    show "map_of (side_levels (mu_side u) bd) (mu_price u) = None \<Longrightarrow> bo_prev ?oa = None"
      using detached_level [OF core loc(1) o'(1,3) lvd] by simp
  qed (use o'(2) new in \<open>simp_all add: seat_def taken_def bd delete_conv restrict_map_def\<close>)
  then obtain b3 ch' b' where link: "linkOrder l ?a ((bg\<lparr>bk_order_index := ?idx\<rparr>)\<lparr>bk_pool := bk_pool b2,
        bk_orders := (bk_orders bd)(?a \<mapsto> ?oa)\<rparr>) = Some b3"
    and b'0: "b' = b3\<lparr>bk_order_index := AList.update (bo_order_ref ?oa)
        \<lparr>ol_side = mu_side u, ol_level = l, ol_order = ?a\<rparr> (bk_order_index bd)\<rparr>"
    and ok': "core_ok ch' b'" "index_ok ch' b'" "seat ch' b' = insert (mu_side u, l, ?a) (seat ?ch bd)"
    and abs': "abstract ch' b' = spec_add (mu_side u) (mu_price u) (bo_order_ref ?oa) (bo_qty ?oa) (abstract ?ch bd)"
    and dom': "dom (bk_orders b') = insert ?a (dom (bk_orders bd))" and rest3: "same_rest (bd\<lparr>bk_pool := bk_pool b2\<rparr>) b3"
    by blast
  have b': "b' = b3\<lparr>bk_order_index := AList.update (mu_new_ref u) \<lparr>ol_side = mu_side u, ol_level = l, ol_order = ?a\<rparr> ?idx\<rparr>"
    unfolding b'0 by (simp add: bd)
  have eq: "(bg\<lparr>bk_order_index := ?idx\<rparr>)\<lparr>bk_pool := bk_pool b2, bk_orders := (bk_orders bd)(?a \<mapsto> ?oa)\<rparr> =
      (bg\<lparr>bk_orders := (bk_orders b2)(?a \<mapsto> ?oa)\<rparr>)\<lparr>bk_order_index := ?idx\<rparr>"
    using gf(2) by (simp add: bd flip: gf(2))
  obtain b4 where b4: "linkOrder l ?a (bg\<lparr>bk_orders := (bk_orders b2)(?a \<mapsto> ?oa)\<rparr>) = Some b4" "b3 = b4\<lparr>bk_order_index := ?idx\<rparr>"
    using link unfolding eq linkOrder_index by auto
  have run: "replaceOrder u b = Some (True, b')"
    using find new b12 g o'(1) ordd(2) gf b4 linkOrder_keeps [OF b4(1)] rest
    by (simp add: replaceOrder_def modify_order_def b' same_rest_def bd)
  have "store_ok live ch' b'"
    using ok'(3) dom' rest rest3 unfolding seatd ordd(1)
    by (intro store_moved [OF core st loc(1)]) (simp_all add: same_rest_def b' bd)
  then show ?thesis using run ok' abs' absd rest rest3
    by (intro exI [of _ b'] exI [of _ ch']) (simp add: parts_ok_def b' same_rest_def bd)
qed


subsection \<open>Reducing an order in place\<close>

lemma total_of_reduce:
  assumes d: "distinct as" and a: "a \<in> set as"
    and same: "\<And>x. x \<noteq> a \<Longrightarrow> entry_at h' x = entry_at h x" and q: "snd (entry_at h' a) = snd (entry_at h a) - n"
  shows "total_of h' as = total_of h as - n"
proof -
  obtain us vs where as: "as = us @ a # vs" using a by (auto dest: split_list)
  have "total_of h' us = total_of h us" "total_of h' vs = total_of h vs"
    using d as by (auto intro!: total_of_cong same)
  then show ?thesis using q by (simp add: as total_of_def)
qed

lemma core_ok_reduce:
  assumes core: "core_ok ch b" and s: "(s, l, a) \<in> seat ch b" and o': "bk_orders b a = Some o'" and lv: "bk_levels b l = Some lv"
    and b': "b' = b\<lparr>bk_orders := (bk_orders b)(a \<mapsto> o'\<lparr>bo_qty := bo_qty o' - n\<rparr>),
      bk_levels := (bk_levels b)(l \<mapsto> lv\<lparr>pl_total_qty := pl_total_qty lv - n\<rparr>)\<rparr>"
  shows "core_ok ch b'"
proof (rule core_okI)
  let ?h = "(bk_orders b)(a \<mapsto> o'\<lparr>bo_qty := bo_qty o' - n\<rparr>)"
  let ?lv = "lv\<lparr>pl_total_qty := pl_total_qty lv - n\<rparr>"
  have heap: "heap_ok ch (level_set b) (bk_orders b) (bk_levels b)" by (rule core_okD(1) [OF core])
  have chain: "chain_ok (bk_orders b) lv (ch l)" "distinct (ch l)" using heap seatD(3) [OF s] lv by (auto simp: heap_ok_def)
  have links: "map_option links (?h x) = map_option links (bk_orders b x)" for x using o' by (simp add: links_def)
  have "total_of ?h (ch l) = total_of (bk_orders b) (ch l) - n"
    by (rule total_of_reduce [OF chain(2) seatD(2) [OF s]]) (use o' in \<open>simp_all add: entry_at_def\<close>)
  then have new: "chain_ok ?h ?lv (ch l)"
    using chain(1) dseg_cong [of "ch l" ?h "bk_orders b"] links by (simp add: chain_ok_def)
  have "heap_ok (ch(l := ch l)) (level_set b) ?h ((bk_levels b)(l \<mapsto> ?lv))"
  proof (rule heap_ok_upd [OF heap seatD(3) [OF s] _ chain(2) new])
    fix l' x
    assume "l' \<in> level_set b" "l' \<noteq> l" "x \<in> set (ch l')"
    then have "x \<notin> set (ch l)" using heap seatD(3) [OF s] by (auto simp: heap_ok_def)
    moreover from this have "x \<noteq> a" using seatD(2) [OF s] by auto
    ultimately show "x \<notin> set (ch l) \<and> entry_at ?h x = entry_at (bk_orders b) x \<and>
        map_option links (?h x) = map_option links (bk_orders b x)"
      using links by (simp add: entry_at_def)
  qed
  then show "heap_ok ch (level_set b') (bk_orders b') (bk_levels b')" by (simp add: b' level_set_def)
  show "s1 = s2" if "l' \<in> snd ` set (side_levels s1 b')" "l' \<in> snd ` set (side_levels s2 b')" for s1 s2 l'
    using that core_okD(5) [OF core, of l' s1 s2] by (simp add: b')
  show "ch l' \<noteq> [] \<and> map_option pl_price (bk_levels b' l') = Some p \<and> l' < bk_fresh b'"
    if "(p, l') \<in> set (side_levels s' b')" for s' p l'
    using that core_okD(6) [OF core, of p l' s'] lv by (auto simp: b')
qed (use core_okD(2,4) [OF core] in \<open>simp_all add: b'\<close>)

lemma abstract_mapped:
  assumes v: "view ch b' s = view ch b s"
    and ent: "\<And>l x. (s, l, x) \<in> seat ch b \<Longrightarrow> entry_at (bk_orders b') x = f (entry_at (bk_orders b) x)"
  shows "abstract ch b' s = map (\<lambda>(p, es). (p, map f es)) (abstract ch b s)"
  unfolding abstract_def v map_map
proof (rule map_cong [OF refl])
  fix pas
  assume m: "pas \<in> set (view ch b s)"
  obtain p as where pas: "pas = (p, as)" by (cases pas)
  have "map (entry_at (bk_orders b')) as = map (f \<circ> entry_at (bk_orders b)) as"
    using view_seat [OF m [unfolded pas]] ent by (auto simp: comp_def)
  then show "(case pas of (p, as) \<Rightarrow> (p, map (entry_at (bk_orders b')) as)) =
      ((\<lambda>(p, es). (p, map f es)) \<circ> (\<lambda>(p, as). (p, map (entry_at (bk_orders b)) as))) pas"
    by (simp add: pas)
qed

lemma reduce_refines:
  assumes ok: "parts_ok live ch b" and find: "map_of (bk_order_index b) (mu_order_ref u) = Some loc"
    and q: "mu_qty u < snd (entry_at (bk_orders b) (ol_order loc))"
  shows "\<exists>b'. reduceOrder ops u b = Some (True, b') \<and> parts_ok live ch b' \<and>
    abstract ch b' = spec_reduce (mu_order_ref u) (mu_qty u) (abstract ch b) \<and>
    bk_ticker_id b' = bk_ticker_id b \<and> bk_in_snapshot b' = bk_in_snapshot b"
proof -
  have core: "core_ok ch b" and ix: "index_ok ch b" and st: "store_ok live ch b" using ok by (simp_all add: parts_ok_def)
  note loc = index_okD [OF ix find]
  let ?a = "ol_order loc" and ?n = "mu_qty u" and ?ref = "mu_order_ref u"
  obtain o' where o': "bk_orders b ?a = Some o'" using seat_live [OF core loc(1)] by blast
  obtain lv where lv: "bk_levels b (ol_level loc) = Some lv"
    using core_okD(1) [OF core] seatD(3) [OF loc(1)] by (auto simp: heap_ok_def)
  define b' where "b' = b\<lparr>bk_orders := (bk_orders b)(?a \<mapsto> o'\<lparr>bo_qty := bo_qty o' - ?n\<rparr>),
      bk_levels := (bk_levels b)(ol_level loc \<mapsto> lv\<lparr>pl_total_qty := pl_total_qty lv - ?n\<rparr>)\<rparr>"
  have q': "?n < bo_qty o'" using q o' by (simp add: entry_at_def)
  then have run: "reduceOrder ops u b = Some (True, b')"
    using find o' lv by (simp add: reduceOrder_def modify_order_def modify_level_def b'_def not_le [symmetric])
  have core': "core_ok ch b'" using b'_def by (rule core_ok_reduce [OF core loc(1) o' lv])
  have seat': "seat ch b' = seat ch b" by (simp add: seat_def b'_def)
  have ent: "entry_at (bk_orders b') x = (\<lambda>(r, k). (r, if r = ?ref then k - ?n else k)) (entry_at (bk_orders b) x)"
    if "(s, l, x) \<in> seat ch b" for s l x
    using index_ref_unique [OF ix loc(1) that] loc(2) o' by (cases "x = ?a") (auto simp: b'_def entry_at_def split: option.splits)
  have "index_ok ch b'" unfolding index_ok_def
  proof (intro allI)
    fix r and l :: OrderLocation
    have "fst (entry_at (bk_orders b') x) = fst (entry_at (bk_orders b) x)" for x
      using o' by (simp add: b'_def entry_at_def)
    then show "map_of (bk_order_index b') r = Some l \<longleftrightarrow> (ol_side l, ol_level l, ol_order l) \<in> seat ch b' \<and>
        fst (entry_at (bk_orders b') (ol_order l)) = r"
      using ix unfolding seat' index_ok_def by (simp add: b'_def)
  qed
  moreover have "dom (bk_orders b') = dom (bk_orders b)" using o' by (auto simp: b'_def)
  then have "store_ok live ch b'" using st unfolding store_ok_def seat' by (simp add: b'_def)
  moreover have "abstract ch b' = spec_reduce ?ref ?n (abstract ch b)"
  proof
    fix s
    have rest: "map_of (resting (abstract ch b)) ?ref = Some (bo_qty o')"
      unfolding index_resting [OF ix] using find o' by (simp add: entry_at_def)
    have v: "view ch b' s = view ch b s" by (simp add: view_def b'_def)
    have "abstract ch b' s = map (\<lambda>(p, es). (p, map (\<lambda>(r, k). (r, if r = ?ref then k - ?n else k)) es)) (abstract ch b s)"
      by (rule abstract_mapped [OF v ent])
    then show "abstract ch b' s = spec_reduce ?ref ?n (abstract ch b) s"
      using q' by (simp add: spec_reduce_def rest not_le [symmetric])
  qed
  ultimately show ?thesis using run core' by (intro exI [of _ b']) (simp add: parts_ok_def b'_def)
qed

subsection \<open>The best bid and offer\<close>

definition bbo_only :: "'p MarketOrderBook \<Rightarrow> 'p MarketOrderBook \<Rightarrow> bool" where
  "bbo_only b b' \<longleftrightarrow> b' = b\<lparr>bk_bbo := bk_bbo b', bk_best_bid := bk_best_bid b', bk_best_ask := bk_best_ask b'\<rparr>"

lemma top_level:
  assumes core: "core_ok ch b" and top: "side_levels s b = (p, l) # m"
  shows "\<exists>v. bk_levels b l = Some v \<and> pl_price v = p \<and> pl_total_qty v = sum_list (map (snd \<circ> entry_at (bk_orders b)) (ch l))"
proof -
  have m: "(p, l) \<in> set (side_levels s b)" by (simp add: top)
  then have "l \<in> level_set b" by (force simp: level_set_iff)
  with core_okD(1) [OF core] obtain v where "bk_levels b l = Some v" "pl_total_qty v = total_of (bk_orders b) (ch l)"
    by (auto simp: heap_ok_def chain_ok_def)
  with core_okD(6) [OF core m] show ?thesis by (simp add: total_of_def)
qed

lemma updateBBO_refines:
  assumes core: "core_ok ch b"
  shows "\<exists>b'. updateBBO b = Some b' \<and> bbo_ok ch b' \<and> bbo_only b b'"
proof -
  note defs = updateBBO_def bbo_ok_def bbo_only_def spec_bbo_def abstract_def view_def side_levels_def BBO_init_def
  have bid: "\<exists>v. bk_levels b l = Some v \<and> pl_price v = p \<and> pl_total_qty v = sum_list (map (snd \<circ> entry_at (bk_orders b)) (ch l))"
    if "bk_bids b = (p, l) # m" for p l m
    using top_level [OF core, of BUY] that by (simp add: side_levels_def)
  have ask: "\<exists>v. bk_levels b l = Some v \<and> pl_price v = p \<and> pl_total_qty v = sum_list (map (snd \<circ> entry_at (bk_orders b)) (ch l))"
    if "bk_asks b = (p, l) # m" for p l m
    using top_level [OF core, of SELL] that by (simp add: side_levels_def)
  show ?thesis
  proof (cases "bk_bids b" rule: list.exhaust [case_names Nil Cons])
    case Nil
    then show ?thesis using ask by (cases "bk_asks b") (force simp: defs)+
  next
    case (Cons x m)
    obtain p l where x: "x = (p, l)" by (cases x)
    with bid Cons obtain v where v: "bk_levels b l = Some v" "pl_price v = p"
      "pl_total_qty v = sum_list (map (snd \<circ> entry_at (bk_orders b)) (ch l))" by blast
    show ?thesis
    proof (cases "bk_asks b")
      case Nil
      with v x Cons show ?thesis by (simp add: defs)
    next
      case (Cons y k)
      obtain q j where y: "y = (q, j)" by (cases y)
      with ask Cons obtain w where "bk_levels b j = Some w" "pl_price w = q"
        "pl_total_qty w = sum_list (map (snd \<circ> entry_at (bk_orders b)) (ch j))" by blast
      with v x y Cons \<open>bk_bids b = x # m\<close> show ?thesis by (simp add: defs)
    qed
  qed
qed

lemma bbo_only_parts:
  assumes "bbo_only b b'"
  shows "parts_ok live ch b' = parts_ok live ch b" and "abstract ch b' = abstract ch b"
    and "bk_ticker_id b' = bk_ticker_id b" and "bk_in_snapshot b' = bk_in_snapshot b"
  by (subst assms [unfolded bbo_only_def]; simp add: parts_ok_def core_ok_def index_ok_def store_ok_def level_set_def seat_def
      abstract_def view_def fun_eq_iff)+

lemma refresh_refines:
  assumes "r = Some (True, b')" and "parts_ok live ch b'"
  shows "\<exists>b''. refresh r = Some b'' \<and> book_ok live ch b'' \<and> abstract ch b'' = abstract ch b' \<and>
    bk_ticker_id b'' = bk_ticker_id b' \<and> bk_in_snapshot b'' = bk_in_snapshot b'"
proof -
  obtain b'' where b'': "updateBBO b' = Some b''" "bbo_ok ch b''" "bbo_only b' b''"
    using updateBBO_refines [of ch b'] assms(2) by (auto simp: parts_ok_def)
  note same = bbo_only_parts [OF b''(3)]
  have "parts_ok live ch b''" using assms(2) same(1) by simp
  then show ?thesis using b''(1,2) assms(1) same by (simp add: refresh_def book_ok_def parts_ok_def)
qed


subsection \<open>Clearing\<close>

definition released :: "'p PoolOps \<Rightarrow> addr list \<Rightarrow> 'p MarketOrderBook \<Rightarrow> 'p MarketOrderBook" where
  "released ops as b = b\<lparr>bk_pool := fold (po_deallocate ops) as (bk_pool b), bk_orders := bk_orders b |` (- set as)\<rparr>"

lemma released_Nil [simp]: "released ops [] b = b"
  by (simp add: released_def restrict_map_def)

lemma released_Cons: "released ops (a # as) b = released ops as (deallocateOrder ops a b)"
proof -
  have "bk_orders b |` (- set (a # as)) = ((bk_orders b)(a := None)) |` (- set as)"
    by (auto simp: restrict_map_def fun_eq_iff)
  then show ?thesis by (simp only: released_def deallocateOrder_def) simp
qed

lemma released_append: "released ops (as @ bs) b = released ops bs (released ops as b)"
  by (induction as arbitrary: b) (simp_all add: released_Cons)

lemma free_chain_released:
  "dseg (bk_orders b) p x as y None \<Longrightarrow> distinct as \<Longrightarrow> free_chain ops x b = Some (released ops as b)"
proof (induction as arbitrary: b p x)
  case Nil
  then show ?case by (simp add: free_chain.simps)
next
  case (Cons a as)
  from Cons.prems obtain o' where o': "bk_orders b a = Some o'" "dseg (bk_orders b) (Some a) (bo_next o') as y None"
    and x: "x = Some a" by (auto split: option.splits)
  have "dseg (bk_orders (deallocateOrder ops a b)) (Some a) (bo_next o') as y None"
    using o'(2) Cons.prems(2) by (simp add: deallocateOrder_def)
  from Cons.IH [OF this] Cons.prems(2) show ?case
    by (subst free_chain.simps) (simp add: x o'(1) released_Cons)
qed

lemma free_levels_released:
  assumes "\<And>p l. (p, l) \<in> set m \<Longrightarrow> \<exists>v y. bk_levels b l = Some v \<and> dseg (bk_orders b) None (pl_head v) (ch l) y None"
    and "distinct (concat (map (\<lambda>x. ch (snd x)) m))"
  shows "free_levels ops m b = Some (released ops (concat (map (\<lambda>x. ch (snd x)) m)) b)"
  using assms
proof (induction m arbitrary: b)
  case (Cons x m)
  obtain p l where x: "x = (p, l)" by (cases x)
  obtain v y where v: "bk_levels b l = Some v" "dseg (bk_orders b) None (pl_head v) (ch l) y None"
    using Cons.prems(1) [of p l] x by auto
  have d: "distinct (ch l)" "set (ch l) \<inter> set (concat (map (\<lambda>x. ch (snd x)) m)) = {}" "distinct (concat (map (\<lambda>x. ch (snd x)) m))"
    using Cons.prems(2) x by auto
  have "free_levels ops m (released ops (ch l) b) = Some (released ops (concat (map (\<lambda>x. ch (snd x)) m)) (released ops (ch l) b))"
  proof (rule Cons.IH [OF _ d(3)])
    fix q k
    assume k: "(q, k) \<in> set m"
    with Cons.prems(1) [of q k] obtain w z where w: "bk_levels b k = Some w" "dseg (bk_orders b) None (pl_head w) (ch k) z None" by auto
    have "dseg (bk_orders (released ops (ch l) b)) None (pl_head w) (ch k) z None"
      using w(2) k d(2) by (subst dseg_cong [of _ _ "bk_orders b"]) (force simp: released_def restrict_map_def)+
    then show "\<exists>v y. bk_levels (released ops (ch l) b) k = Some v \<and> dseg (bk_orders (released ops (ch l) b)) None (pl_head v) (ch k) y None"
      using w(1) by (auto simp: released_def)
  qed
  with free_chain_released [OF v(2) d(1)] v(1) show ?case by (simp add: x released_append)
qed simp

lemma pool_released:
  assumes "pool_ok ops live"
  shows "set as \<subseteq> live p \<Longrightarrow> distinct as \<Longrightarrow> live (fold (po_deallocate ops) as p) = live p - set as"
proof (induction as arbitrary: p)
  case (Cons a as)
  have "live (po_deallocate ops a p) = live p - {a}" using assms Cons.prems(1) by (simp add: pool_ok_def)
  with Cons show ?case by auto
qed simp


definition all_orders :: "(laddr \<Rightarrow> addr list) \<Rightarrow> 'p MarketOrderBook \<Rightarrow> addr list" where
  "all_orders ch b = concat (map (\<lambda>x. ch (snd x)) (bk_bids b @ bk_asks b))"

lemma distinct_all_orders:
  assumes "core_ok ch b"
  shows "distinct (all_orders ch b)"
proof -
  have heap: "heap_ok ch (level_set b) (bk_orders b) (bk_levels b)" and d: "distinct (map snd (bk_bids b @ bk_asks b))"
    using assms by (simp_all add: core_ok_def)
  have "distinct (concat (map (\<lambda>x. ch (snd x)) m))" if "distinct (map snd m)" "snd ` set m \<subseteq> level_set b" for m
    using that
  proof (induction m)
    case (Cons x m)
    have "set (ch (snd x)) \<inter> set (ch l) = {}" if "l \<in> snd ` set m" for l
    proof -
      have "snd x \<in> level_set b" "l \<in> level_set b" "snd x \<noteq> l" using Cons.prems that by auto
      with heap show ?thesis unfolding heap_ok_def by blast
    qed
    moreover have "distinct (ch (snd x))" using heap Cons.prems by (simp add: heap_ok_def)
    moreover have "distinct (concat (map (\<lambda>x. ch (snd x)) m))" using Cons by simp
    ultimately show ?case by auto
  qed simp
  from this [OF d] show ?thesis by (simp add: all_orders_def level_set_def)
qed

lemma third_image: "(\<lambda>(s, l, a). a) ` S = {a. \<exists>s l. (s, l, a) \<in> S}"
  by force

lemma set_all_orders: "set (all_orders ch b) = (\<lambda>(s, l, a). a) ` seat ch b"
proof -
  have "set (all_orders ch b) = {a. \<exists>l \<in> level_set b. a \<in> set (ch l)}" unfolding all_orders_def level_set_def by auto
  also have "\<dots> = {a. \<exists>s l. (s, l, a) \<in> seat ch b}" 
    by (simp only: seat_def level_set_iff Bex_def mem_Collect_eq case_prod_conv) (rule Collect_cong, blast)
  finally show ?thesis unfolding third_image .
qed

lemma free_levels_append:
  "free_levels ops (m @ m') b = Option.bind (free_levels ops m b) (free_levels ops m')"
proof (induction m arbitrary: b)
  case (Cons x m)
  obtain p l where x: "x = (p, l)" by (cases x)
  have "free_levels ops (m @ m') = (\<lambda>b. Option.bind (free_levels ops m b) (free_levels ops m'))" by (rule ext) (rule Cons.IH)
  then show ?case by (simp add: x)
qed simp

lemma free_sides:
  assumes core: "core_ok ch b"
  shows "Option.bind (free_levels ops (bk_bids b) b) (\<lambda>b'. free_levels ops (bk_asks b') b') = Some (released ops (all_orders ch b) b)"
proof -
  have seg: "\<exists>v y. bk_levels b l = Some v \<and> dseg (bk_orders b) None (pl_head v) (ch l) y None" if "l \<in> level_set b" for l
    using core_okD(1) [OF core] that unfolding heap_ok_def chain_ok_def by blast
  have free: "free_levels ops m b = Some (released ops (concat (map (\<lambda>x. ch (snd x)) m)) b)"
    if m: "set m \<subseteq> set (bk_bids b @ bk_asks b)" "distinct (concat (map (\<lambda>x. ch (snd x)) m))" for m
  proof (rule free_levels_released [OF _ m(2)])
    fix p l
    assume "(p, l) \<in> set m"
    then have "l \<in> level_set b" unfolding level_set_def using m(1) by (metis image_eqI snd_conv subsetD)
    then show "\<exists>v y. bk_levels b l = Some v \<and> dseg (bk_orders b) None (pl_head v) (ch l) y None" by (rule seg)
  qed
  have d: "distinct (all_orders ch b)" by (rule distinct_all_orders [OF core])
  have "free_levels ops (bk_bids b @ bk_asks b) b = Some (released ops (all_orders ch b) b)"
    unfolding all_orders_def by (rule free) (use d in \<open>simp_all add: all_orders_def\<close>)
  moreover have "free_levels ops (bk_bids b) b = Some (released ops (concat (map (\<lambda>x. ch (snd x)) (bk_bids b))) b)"
    by (rule free) (use d in \<open>simp_all add: all_orders_def\<close>)
  moreover have "bk_asks (released ops as b) = bk_asks b" for as by (simp add: released_def)
  ultimately show ?thesis by (simp add: free_levels_append)
qed

lemma empty_book_ok:
  assumes lv: "bk_bids b = []" "bk_asks b = []" and "bk_order_index b = []" and "bk_orders b = Map.empty"
    and "live (bk_pool b) = {}" and "bk_bbo b = BBO_init" and "bk_best_bid b = None" and "bk_best_ask b = None"
  shows "book_ok live ch b" and "abstract ch b = (\<lambda>s. [])"
proof -
  have s: "side_levels s b = []" for s by (cases s) (simp_all add: side_levels_def lv)
  have seat: "seat ch b = {}" by (simp add: seat_def s)
  show abs: "abstract ch b = (\<lambda>s. [])" by (rule ext) (simp add: abstract_def view_def s)
  have "core_ok ch b" by (simp add: core_ok_def s lv level_set_def heap_ok_def)
  then show "book_ok live ch b"
    using assms by (simp add: book_ok_def index_ok_def store_ok_def bbo_ok_def spec_bbo_def BBO_init_def seat abs)
qed

lemma clear_refines:
  assumes ok: "parts_ok live ch b" and pool: "pool_ok ops live"
  shows "\<exists>b'. clear ops b = Some b' \<and> book_ok live ch b' \<and> abstract ch b' = (\<lambda>s. []) \<and> live (bk_pool b') = {} \<and>
    bk_ticker_id b' = bk_ticker_id b \<and> bk_in_snapshot b' = bk_in_snapshot b"
proof -
  have core: "core_ok ch b" and st: "store_ok live ch b" using ok by (simp_all add: parts_ok_def)
  define r where "r = released ops (all_orders ch b) b"
  define b' where "b' = r\<lparr>bk_levels := (\<lambda>l. if l \<in> set (map snd (bk_bids r @ bk_asks r)) then None else bk_levels r l),
       bk_bids := [], bk_asks := [], bk_order_index := [], bk_best_bid := None, bk_best_ask := None, bk_bbo := BBO_init\<rparr>"
  obtain b1 where "free_levels ops (bk_bids b) b = Some b1" "free_levels ops (bk_asks b1) b1 = Some r"
    using free_sides [OF core, of ops] by (auto simp: bind_eq_Some_conv r_def)
  then have run: "clear ops b = Some b'" by (simp add: clear_def b'_def)
  have live: "live (bk_pool b) = set (all_orders ch b)" "dom (bk_orders b) = set (all_orders ch b)"
    using st by (simp_all add: store_ok_def set_all_orders)
  have "live (fold (po_deallocate ops) (all_orders ch b) (bk_pool b)) = {}"
    using pool_released [OF pool, of "all_orders ch b" "bk_pool b"] distinct_all_orders [OF core] live(1) by simp
  then have p: "live (bk_pool b') = {}" by (simp add: b'_def r_def released_def)
  have "bk_orders b |` (- dom (bk_orders b)) = Map.empty" by (auto simp: restrict_map_def fun_eq_iff)
  then have "bk_orders b' = Map.empty" by (simp add: b'_def r_def released_def flip: live(2))
  then have "book_ok live ch b'" "abstract ch b' = (\<lambda>s. [])"
    by (rule_tac [!] empty_book_ok) (simp_all add: p, simp_all add: b'_def)
  with run p show ?thesis by (simp add: b'_def r_def released_def)
qed

subsection \<open>The update handler\<close>

lemma spec_remove_absent:
  assumes core: "core_ok ch b" and ix: "index_ok ch b" and "map_of (bk_order_index b) ref = None"
  shows "spec_remove ref (abstract ch b) = abstract ch b"
proof -
  have none: "map_of (resting (abstract ch b)) ref = None" using index_resting [OF ix] assms(3) by simp
  have *: "fst e \<noteq> ref" if "(p, q) \<in> set (abstract ch b s)" "e \<in> set q" for s p q e
  proof -
    have "e \<in> set (resting (abstract ch b))" using that by (cases s) (force simp: resting_def)+
    then show ?thesis using none by (auto simp: map_of_eq_None_iff)
  qed
  have ne: "q \<noteq> []" if "(p, q) \<in> set (abstract ch b s)" for s p q
    using that core_okD(6) [OF core] by (auto simp: abstract_def view_def)
  have keep: "map (\<lambda>(p, q). (p, filter (\<lambda>e. fst e \<noteq> ref) q)) (abstract ch b s) = abstract ch b s" for s
  proof (rule map_idI)
    fix x
    assume x: "x \<in> set (abstract ch b s)"
    obtain p q where "x = (p, q)" by (cases x)
    with * [of p q s] x show "(\<lambda>(p, q). (p, filter (\<lambda>e. fst e \<noteq> ref) q)) x = x" by (simp add: filter_id_conv)
  qed
  have "filter (\<lambda>(p, q). q \<noteq> []) (abstract ch b s) = abstract ch b s" for s
    using ne [of _ _ s] by (auto simp: filter_id_conv)
  with keep show ?thesis by (simp add: spec_remove_def dequeue_def fun_eq_iff)
qed

text \<open>The outcome every handler has on a well-formed book.\<close>

definition implements :: "('p \<Rightarrow> addr set) \<Rightarrow> 'p MarketOrderBook \<Rightarrow> 'p MarketOrderBook option \<Rightarrow> abook \<Rightarrow> bool" where
  "implements live b r B \<longleftrightarrow> (\<exists>b' ch'. r = Some b' \<and> book_ok live ch' b' \<and> abstract ch' b' = B \<and> bk_ticker_id b' = bk_ticker_id b)"

lemma implements_unchanged: "book_ok live ch b \<Longrightarrow> implements live b (Some b) (abstract ch b)"
  by (auto simp: implements_def)

lemma implements_refresh:
  assumes "\<exists>b' ch'. r = Some (True, b') \<and> parts_ok live ch' b' \<and> abstract ch' b' = B \<and> bk_ticker_id b' = bk_ticker_id b \<and> bk_in_snapshot b' = bk_in_snapshot b"
  shows "implements live b (refresh r) B"
proof -
  from assms obtain b' ch' where b': "r = Some (True, b')" "parts_ok live ch' b'" "abstract ch' b' = B" "bk_ticker_id b' = bk_ticker_id b"
    by blast
  from refresh_refines [OF this(1,2)] obtain b'' where "refresh r = Some b''" "book_ok live ch' b''" "abstract ch' b'' = abstract ch' b'"
    "bk_ticker_id b'' = bk_ticker_id b'" by blast
  with b'(3,4) show ?thesis unfolding implements_def by (intro exI [of _ b''] exI [of _ ch']) simp
qed

lemma refresh_False [simp]: "refresh (Some (False, b)) = Some b"
  by (simp add: refresh_def)

lemma book_ok_parts: "book_ok live ch b \<longleftrightarrow> parts_ok live ch b \<and> bbo_ok ch b"
  by (auto simp: book_ok_def parts_ok_def)

lemma delete_implements:
  assumes ok: "book_ok live ch b" and pool: "pool_ok ops live"
  shows "implements live b (refresh (eraseOrder ops ref b)) (spec_remove ref (abstract ch b))"
proof (cases "map_of (bk_order_index b) ref")
  case None
  then have "spec_remove ref (abstract ch b) = abstract ch b"
    using spec_remove_absent [of ch b ref] ok by (simp add: book_ok_def)
  with None implements_unchanged [OF ok] show ?thesis by (simp add: eraseOrder_def)
next
  case (Some loc)
  show ?thesis by (rule implements_refresh, rule erase_refines [OF _ pool Some]) (use ok in \<open>simp add: book_ok_parts\<close>)
qed

lemma reduce_implements:
  assumes ok: "book_ok live ch b" and pool: "pool_ok ops live"
  shows "implements live b (refresh (reduceOrder ops u b)) (spec_reduce (mu_order_ref u) (mu_qty u) (abstract ch b))"
proof (cases "map_of (bk_order_index b) (mu_order_ref u)")
  case None
  have ix: "index_ok ch b" using ok by (simp add: book_ok_def)
  from None index_resting [OF ix, of "mu_order_ref u"]
  have "spec_reduce (mu_order_ref u) (mu_qty u) (abstract ch b) = abstract ch b" by (simp add: spec_reduce_def)
  with None implements_unchanged [OF ok] show ?thesis by (simp add: reduceOrder_def)
next
  case (Some loc)
  have p: "parts_ok live ch b" and ix: "index_ok ch b" and core: "core_ok ch b" using ok by (simp_all add: book_ok_def parts_ok_def)
  obtain o' where o': "bk_orders b (ol_order loc) = Some o'"
    using seat_live [OF core index_okD(1) [OF ix Some]] by blast
  then have e: "snd (entry_at (bk_orders b) (ol_order loc)) = bo_qty o'" by (simp add: entry_at_def)
  show ?thesis
  proof (cases "bo_qty o' \<le> mu_qty u")
    case True
    then have "reduceOrder ops u b = eraseOrder ops (mu_order_ref u) b" using Some o' by (simp add: reduceOrder_def)
    moreover have "spec_reduce (mu_order_ref u) (mu_qty u) (abstract ch b) = spec_remove (mu_order_ref u) (abstract ch b)"
      using True e Some index_resting [OF ix, of "mu_order_ref u"] by (simp add: spec_reduce_def)
    ultimately show ?thesis using delete_implements [OF ok pool] by simp
  next
    case False
    then have "mu_qty u < snd (entry_at (bk_orders b) (ol_order loc))" using e by simp
    from reduce_refines [OF p Some this] show ?thesis by (intro implements_refresh) blast
  qed
qed

lemma replace_implements:
  assumes ok: "book_ok live ch b" and safe: "safe_update ops u b" and t: "mu_type u = REPLACE"
  shows "implements live b (refresh (replaceOrder u b)) (spec_replace u (abstract ch b))"
proof (cases "map_of (bk_order_index b) (mu_order_ref u)")
  case None
  have "index_ok ch b" using ok by (simp add: book_ok_def)
  from None index_resting [OF this] have "spec_replace u (abstract ch b) = abstract ch b" by (simp add: spec_replace_def)
  with None implements_unchanged [OF ok] show ?thesis by (simp add: replaceOrder_def)
next
  case (Some loc)
  have p: "parts_ok live ch b" and ix: "index_ok ch b" using ok by (simp_all add: book_ok_def parts_ok_def)
  note find = index_resting [OF ix]
  show ?thesis
  proof (cases "map_of (bk_order_index b) (mu_new_ref u)")
    case None
    obtain o' where o': "bk_orders b (ol_order loc) = Some o'" "bo_next o' = None"
      "bo_prev o' = None \<or> map_of (side_levels (mu_side u) b) (mu_price u) \<noteq> None"
      using safe Some t by (auto simp: safe_update_def split: option.splits)
    have "spec_replace u (abstract ch b) =
        spec_add (mu_side u) (mu_price u) (mu_new_ref u) (mu_qty u) (spec_remove (mu_order_ref u) (abstract ch b))"
      using Some None find by (simp add: spec_replace_def)
    with replace_refines [OF p Some None o'] show ?thesis by (intro implements_refresh) simp
  next
    case new: (Some loc')
    then have "spec_replace u (abstract ch b) = abstract ch b" using find by (simp add: spec_replace_def)
    with Some new implements_unchanged [OF ok] show ?thesis by (simp add: replaceOrder_def)
  qed
qed

lemma add_implements:
  assumes ok: "book_ok live ch b" and pool: "pool_ok ops live" and room: "fst (po_allocate ops (bk_pool b)) \<noteq> None"
  shows "implements live b (addOrder ops u b) (if map_of (resting (abstract ch b)) (mu_order_ref u) \<noteq> None then abstract ch b
    else spec_add (mu_side u) (mu_price u) (mu_order_ref u) (mu_qty u) (abstract ch b))"
proof (cases "map_of (bk_order_index b) (mu_order_ref u)")
  case None
  have p: "parts_ok live ch b" and ix: "index_ok ch b" using ok by (simp_all add: book_ok_def parts_ok_def)
  from add_refines [OF p pool None room] obtain b' ch' where b': "addOrder ops u b = updateBBO b'" "parts_ok live ch' b'"
    "abstract ch' b' = spec_add (mu_side u) (mu_price u) (mu_order_ref u) (mu_qty u) (abstract ch b)" "bk_ticker_id b' = bk_ticker_id b"
    "bk_in_snapshot b' = bk_in_snapshot b" by blast
  then have "implements live b (refresh (Some (True, b'))) (abstract ch' b')" by (intro implements_refresh) blast
  with b'(1,3) None index_resting [OF ix] show ?thesis by (simp add: refresh_def)
next
  case (Some loc)
  have ix: "index_ok ch b" using ok by (simp add: book_ok_def)
  with Some implements_unchanged [OF ok] index_resting [OF ix] show ?thesis by (simp add: addOrder_def)
qed

lemma snapshot_flag [simp]:
  "abstract ch (b\<lparr>bk_in_snapshot := x\<rparr>) = abstract ch b" "parts_ok live ch (b\<lparr>bk_in_snapshot := x\<rparr>) = parts_ok live ch b"
  "bbo_ok ch (b\<lparr>bk_in_snapshot := x\<rparr>) = bbo_ok ch b"
proof -
  show "abstract ch (b\<lparr>bk_in_snapshot := x\<rparr>) = abstract ch b" by (simp add: abstract_def view_def fun_eq_iff)
  then show "bbo_ok ch (b\<lparr>bk_in_snapshot := x\<rparr>) = bbo_ok ch b" by (simp add: bbo_ok_def)
  show "parts_ok live ch (b\<lparr>bk_in_snapshot := x\<rparr>) = parts_ok live ch b"
    by (simp add: parts_ok_def core_ok_def index_ok_def store_ok_def level_set_def seat_def)
qed

lemma clear_implements:
  assumes ok: "book_ok live ch b" and pool: "pool_ok ops live"
  shows "implements live b (onSnapshotClear ops b) (\<lambda>s. [])" and "implements live b (onSnapshotStart ops b) (\<lambda>s. [])"
proof -
  have "parts_ok live ch b" using ok by (simp add: book_ok_parts)
  from clear_refines [OF this pool] obtain b' where b': "clear ops b = Some b'" "book_ok live ch b'" "abstract ch b' = (\<lambda>s. [])"
    "bk_ticker_id b' = bk_ticker_id b" by blast
  then show "implements live b (onSnapshotClear ops b) (\<lambda>s. [])" by (auto simp: implements_def onSnapshotClear_def)
  with b' show "implements live b (onSnapshotStart ops b) (\<lambda>s. [])"
    unfolding implements_def onSnapshotStart_def
    by (intro exI [of _ "b'\<lparr>bk_in_snapshot := True\<rparr>"] exI [of _ ch]) (simp add: book_ok_parts)
qed

lemma end_implements:
  assumes ok: "book_ok live ch b"
  shows "implements live b (onSnapshotEnd b) (abstract ch b)"
proof -
  have "implements live b (refresh (Some (True, b\<lparr>bk_in_snapshot := False\<rparr>))) (abstract ch b)"
  proof -
    have p: "parts_ok live ch (b\<lparr>bk_in_snapshot := False\<rparr>)" using ok by (simp add: book_ok_parts)
    from refresh_refines [OF refl this] obtain b' where "refresh (Some (True, b\<lparr>bk_in_snapshot := False\<rparr>)) = Some b'"
      "book_ok live ch b'" "abstract ch b' = abstract ch b" "bk_ticker_id b' = bk_ticker_id b" by auto
    then show ?thesis unfolding implements_def by blast
  qed
  then show ?thesis by (simp add: refresh_def onSnapshotEnd_def)
qed

lemma applyUpdate_implements:
  assumes ok: "book_ok live ch b" and pool: "pool_ok ops live" and safe: "safe_update ops u b"
  shows "implements live b (applyUpdate ops u b) (spec_apply (bk_ticker_id b) u (abstract ch b))"
proof -
  note parts = delete_implements [OF ok pool] reduce_implements [OF ok pool] clear_implements [OF ok pool] end_implements [OF ok]
    implements_unchanged [OF ok] replace_implements [OF ok safe] add_implements [OF ok pool]
  show ?thesis
  proof (cases "mu_type u")
    case ADD
    with safe have "fst (po_allocate ops (bk_pool b)) \<noteq> None" by (simp add: safe_update_def)
    with parts ADD show ?thesis by (simp add: applyUpdate_def spec_apply_def)
  next
    case ADD_MPID
    with safe have "fst (po_allocate ops (bk_pool b)) \<noteq> None" by (simp add: safe_update_def)
    with parts ADD_MPID show ?thesis by (simp add: applyUpdate_def spec_apply_def)
  qed (use parts in \<open>simp_all add: applyUpdate_def spec_apply_def\<close>)
qed

end
