(* ===== verification/Book_Properties.thy ===== *)
theory Book_Properties
  imports Book_Refinement
begin

text \<open>
  What the order book promises its users: sequences of updates act as the price-time specification says,
  the cached best bid and offer are those of the book, an order that is added and deleted leaves no trace,
  and clearing returns every object to the pool.  The last theorem shows where \<^verbatim>\<open>replaceOrder\<close> leaves the
  specification.
\<close>

text \<open>A sequence of updates, and that each of them meets its side condition when it arrives.\<close>

fun book_run :: "'p PoolOps \<Rightarrow> MarketUpdate list \<Rightarrow> 'p MarketOrderBook \<Rightarrow> 'p MarketOrderBook option" where
  "book_run ops [] b = Some b"
| "book_run ops (u # us) b = Option.bind (applyUpdate ops u b) (book_run ops us)"

fun safe_run :: "'p PoolOps \<Rightarrow> MarketUpdate list \<Rightarrow> 'p MarketOrderBook \<Rightarrow> bool" where
  "safe_run ops [] b = True"
| "safe_run ops (u # us) b \<longleftrightarrow> safe_update ops u b \<and>
     (case applyUpdate ops u b of None \<Rightarrow> True | Some b' \<Rightarrow> safe_run ops us b')"

lemma init_book_ok:
  assumes "live p = {}"
  shows "book_ok live ch (MarketOrderBook_init t p)" and "abstract ch (MarketOrderBook_init t p) = (\<lambda>s. [])"
  by (rule_tac [!] empty_book_ok) (use assms in \<open>simp_all add: MarketOrderBook_init_def\<close>)

lemma book_run_implements:
  assumes pool: "pool_ok ops live"
  shows "book_ok live ch b \<Longrightarrow> safe_run ops us b \<Longrightarrow>
    implements live b (book_run ops us b) (fold (spec_apply (bk_ticker_id b)) us (abstract ch b))"
proof (induction us arbitrary: b ch)
  case Nil
  then show ?case by (simp add: implements_unchanged)
next
  case (Cons u us)
  have "safe_update ops u b" using Cons.prems(2) by simp
  from applyUpdate_implements [OF Cons.prems(1) pool this] obtain b' ch' where b': "applyUpdate ops u b = Some b'" "book_ok live ch' b'"
    "abstract ch' b' = spec_apply (bk_ticker_id b) u (abstract ch b)" "bk_ticker_id b' = bk_ticker_id b"
    unfolding implements_def by blast
  with Cons.IH [OF b'(2)] Cons.prems(2) show ?case by (simp add: implements_def)
qed

lemma book_ok_bbo: "book_ok live ch b \<Longrightarrow> bk_bbo b = spec_bbo (abstract ch b)"
  by (simp add: book_ok_def bbo_ok_def)

lemma book_ok_index: "book_ok live ch b \<Longrightarrow> map_of (bk_order_index b) ref \<noteq> None \<longleftrightarrow> map_of (resting (abstract ch b)) ref \<noteq> None"
  using index_resting [of ch b ref] by (simp add: book_ok_def)

subsection \<open>Best prices\<close>

text \<open>The levels of a side stand best first.\<close>

lemma first_is_best:
  assumes core: "core_ok ch b" and x: "x \<in> set (side_levels s b)" and top: "side_levels s b = t # m"
  shows "fst t = fst x \<or> before s (fst t) (fst x)"
  using core_okD(2) [OF core, of s] x top by auto

lemma bbo_of_levels:
  assumes "book_ok live ch b"
  shows "bid_price (bk_bbo b) = (case bk_bids b of [] \<Rightarrow> Price_INVALID | (p, l) # _ \<Rightarrow> p)"
    and "ask_price (bk_bbo b) = (case bk_asks b of [] \<Rightarrow> Price_INVALID | (p, l) # _ \<Rightarrow> p)"
  using book_ok_bbo [OF assms]
  by (auto simp: spec_bbo_def abstract_def view_def side_levels_def split: list.splits)

subsection \<open>Adding and deleting\<close>

lemma dequeue_enqueue:
  assumes fresh: "\<And>p q x. (p, q) \<in> set m \<Longrightarrow> x \<in> set q \<Longrightarrow> keep x" and ne: "\<And>p. (p, []) \<notin> set m"
    and d: "distinct (map fst m)" and e: "\<not> keep e"
  shows "dequeue keep (enqueue s p e m) = m"
proof -
  have id: "dequeue keep m' = m'" if "set m' \<subseteq> set m" for m'
  proof -
    have "map (\<lambda>(p, q). (p, filter keep q)) m' = m'"
      by (rule map_idI) (use fresh that in \<open>fastforce simp: filter_id_conv\<close>)
    moreover have "filter (\<lambda>(p, q). q \<noteq> []) m' = m'" using ne that by (auto simp: filter_id_conv)
    ultimately show ?thesis by (simp add: dequeue_def)
  qed
  have ins: "dequeue keep (insert_level s p [e] m') = dequeue keep m'" for m'
    using e by (induction m') (simp_all add: dequeue_def split_paired_all)
  have upd: "dequeue keep (AList.update p (q @ [e]) m') = dequeue keep m'" if "map_of m' p = Some q" for m' q
    using that e by (induction m') (auto simp: dequeue_def)
  show ?thesis
    using id [of m] ins upd by (simp add: enqueue_def split: option.split)
qed

lemma spec_remove_add:
  assumes ok: "book_ok live ch b" and new: "map_of (resting (abstract ch b)) ref = None"
  shows "spec_remove ref (spec_add s p ref q (abstract ch b)) = abstract ch b"
proof -
  have core: "core_ok ch b" and ix: "index_ok ch b" using ok by (simp_all add: book_ok_def)
  have "map_of (bk_order_index b) ref = None" using new index_resting [OF ix, of ref] by simp
  from spec_remove_absent [OF core ix this] have same: "dequeue (\<lambda>e. fst e \<noteq> ref) (abstract ch b s') = abstract ch b s'" for s'
    by (simp add: spec_remove_def fun_eq_iff)
  have "dequeue (\<lambda>e. fst e \<noteq> ref) (enqueue s p (ref, q) (abstract ch b s)) = abstract ch b s"
  proof (rule dequeue_enqueue)
    show "fst x \<noteq> ref" if "(p', q') \<in> set (abstract ch b s)" "x \<in> set q'" for p' q' x
    proof -
      have "x \<in> set (resting (abstract ch b))" using that by (cases s) (force simp: resting_def)+
      then show ?thesis using new by (auto simp: map_of_eq_None_iff)
    qed
    show "(p', []) \<notin> set (abstract ch b s)" for p'
      using core_okD(6) [OF core] by (auto simp: abstract_def view_def)
    show "distinct (map fst (abstract ch b s))"
      using sorted_before_distinct [OF core_okD(2) [OF core, of s]]
      by (simp add: abstract_def view_def comp_def case_prod_unfold)
  qed simp
  with same show ?thesis by (simp add: spec_remove_def spec_add_def fun_eq_iff)
qed

subsection \<open>Concrete books\<close>

text \<open>A pool of \<open>n\<close> objects that hands out the first one not in use, and updates of ticker 7.\<close>

definition first_free :: "nat \<Rightarrow> addr list PoolOps" where
  "first_free n = \<lparr>po_allocate = (\<lambda>used. case find (\<lambda>a. a \<notin> set used) [0..<n] of
       None \<Rightarrow> (None, used) | Some a \<Rightarrow> (Some a, a # used)),
     po_deallocate = (\<lambda>a used. removeAll a used)\<rparr>"

definition upd :: "UpdateType \<Rightarrow> Side \<Rightarrow> OrderId \<Rightarrow> Price \<Rightarrow> Quantity \<Rightarrow> OrderId \<Rightarrow> MarketUpdate" where
  "upd t s r p q n = \<lparr>mu_seq_num = 0, mu_ticker_id = 7, mu_type = t, mu_side = s, mu_price = p, mu_qty = q,
     mu_order_ref = r, mu_new_ref = n\<rparr>"

definition session :: "MarketUpdate list" where
  "session = [upd ADD BUY 1 100 10 0, upd ADD BUY 2 101 5 0, upd ADD SELL 3 103 8 0, upd ADD BUY 4 100 7 0,
     upd EXECUTE BUY 1 0 4 0, upd REPLACE BUY 2 99 6 5, upd CANCEL SELL 3 0 1 0, upd DELETE BUY 4 0 0 0]"

definition replace_script :: "MarketUpdate list" where
  "replace_script = [upd ADD BUY 1 100 10 0, upd ADD BUY 2 100 5 0, upd REPLACE BUY 1 101 7 3, upd DELETE BUY 3 0 0 0]"

lemma first_free_ok: "pool_ok (first_free n) set"
  by (auto simp: pool_ok_def first_free_def find_Some_iff split: option.splits)

lemma session_safe: "safe_run (first_free 4) session (MarketOrderBook_init 7 [])"
  by code_simp

lemma session_book:
  obtains b ch where "book_run (first_free 4) session (MarketOrderBook_init 7 []) = Some b" and "book_ok set ch b"
    and "bk_ticker_id b = 7"
proof -
  have "bk_ticker_id (MarketOrderBook_init 7 ([] :: addr list)) = 7" by (simp add: MarketOrderBook_init_def)
  with book_run_implements [OF first_free_ok init_book_ok(1) session_safe, of "\<lambda>l. []"] that show thesis
    unfolding implements_def by auto
qed

lemma session_end:
  "map_option (\<lambda>b. (map_of (bk_order_index b) 9 = None, fst (po_allocate (first_free 4) (bk_pool b)) \<noteq> None))
    (book_run (first_free 4) session (MarketOrderBook_init 7 [])) = Some (True, True)"
  by code_simp

subsection \<open>Properties\<close>

text \<open>
  C2.  The book implements price-time queues: on every sequence of updates whose side conditions hold, the
  pointer structure never reaches a null or dangling pointer, ends well formed, holds exactly the queues that
  the specification computes from the same updates, and its cached best bid and offer is that of the
  specification.
\<close>

theorem book_run_refines:
  assumes "pool_ok ops live" and "live p = {}" and "safe_run ops us (MarketOrderBook_init t p)"
  shows "\<exists>b ch. book_run ops us (MarketOrderBook_init t p) = Some b \<and> book_ok live ch b \<and>
    abstract ch b = fold (spec_apply t) us (\<lambda>s. []) \<and> bk_bbo b = spec_bbo (fold (spec_apply t) us (\<lambda>s. []))"
proof -
  note init = init_book_ok [of live p "\<lambda>l. []" t, OF assms(2)]
  have t: "bk_ticker_id (MarketOrderBook_init t p) = t" by (simp add: MarketOrderBook_init_def)
  from book_run_implements [OF assms(1) init(1) assms(3)] init(2) t obtain b ch where
    "book_run ops us (MarketOrderBook_init t p) = Some b" "book_ok live ch b" "abstract ch b = fold (spec_apply t) us (\<lambda>s. [])"
    unfolding implements_def by auto
  then show ?thesis using book_ok_bbo by metis
qed

theorem book_run_refines_witness:
  "\<exists>b ch. book_run (first_free 4) session (MarketOrderBook_init 7 []) = Some b \<and> book_ok set ch b \<and>
    abstract ch b = fold (spec_apply 7) session (\<lambda>s. []) \<and> bk_bbo b = spec_bbo (fold (spec_apply 7) session (\<lambda>s. []))"
  using book_run_refines [OF first_free_ok _ session_safe] by simp



text \<open>
  C34.  An order that is added and then deleted leaves no trace: on a well-formed book with room in the pool,
  ADD of an unknown reference followed by DELETE of it gives a well-formed book with the same queues and the
  same best bid and offer.
\<close>

theorem add_delete_roundtrip:
  assumes ok: "book_ok live ch b" and pool: "pool_ok ops live" and room: "fst (po_allocate ops (bk_pool b)) \<noteq> None"
    and u: "mu_type u = ADD" "mu_ticker_id u = bk_ticker_id b" "map_of (bk_order_index b) (mu_order_ref u) = None"
  shows "\<exists>b' ch'. book_run ops [u, u\<lparr>mu_type := DELETE\<rparr>] b = Some b' \<and> book_ok live ch' b' \<and>
    abstract ch' b' = abstract ch b \<and> bk_bbo b' = bk_bbo b"
proof -
  have safe: "safe_run ops [u, u\<lparr>mu_type := DELETE\<rparr>] b" using room u(1) by (simp add: safe_update_def split: option.split)
  have new: "map_of (resting (abstract ch b)) (mu_order_ref u) = None" using book_ok_index [OF ok, of "mu_order_ref u"] u(3) by simp
  have "fold (spec_apply (bk_ticker_id b)) [u, u\<lparr>mu_type := DELETE\<rparr>] (abstract ch b) = abstract ch b"
    using u new spec_remove_add [OF ok new] by (simp add: spec_apply_def)
  with book_run_implements [OF pool ok safe] obtain b' ch' where
    "book_run ops [u, u\<lparr>mu_type := DELETE\<rparr>] b = Some b'" "book_ok live ch' b'" "abstract ch' b' = abstract ch b"
    unfolding implements_def by auto
  then show ?thesis using book_ok_bbo ok by metis
qed

theorem add_delete_roundtrip_witness:
  "\<exists>b b'. book_run (first_free 4) session (MarketOrderBook_init 7 []) = Some b \<and>
    book_run (first_free 4) [upd ADD SELL 9 102 3 0, upd DELETE SELL 9 102 3 0] b = Some b' \<and> bk_bbo b' = bk_bbo b"
proof -
  obtain b ch where b: "book_run (first_free 4) session (MarketOrderBook_init 7 []) = Some b" "book_ok set ch b" "bk_ticker_id b = 7"
    by (rule session_book)
  have room: "fst (po_allocate (first_free 4) (bk_pool b)) \<noteq> None" and new: "map_of (bk_order_index b) 9 = None"
    using session_end b(1) by auto
  let ?u = "upd ADD SELL 9 102 3 0"
  have u: "mu_type ?u = ADD" "mu_ticker_id ?u = bk_ticker_id b" "map_of (bk_order_index b) (mu_order_ref ?u) = None"
    "?u\<lparr>mu_type := DELETE\<rparr> = upd DELETE SELL 9 102 3 0" using b(3) new by (simp_all add: upd_def)
  from add_delete_roundtrip [OF b(2) first_free_ok room u(1,2,3)] b(1) show ?thesis unfolding u(4) by blast
qed

text \<open>
  C32.  Clearing a well-formed book ends, whatever the lengths of its lists, releases every object of the pool
  exactly once, and leaves an empty, well-formed book.
\<close>

theorem clear_releases_all:
  assumes "book_ok live ch b" and "pool_ok ops live"
  shows "\<exists>b'. clear ops b = Some b' \<and> live (bk_pool b') = {} \<and> bk_orders b' = Map.empty \<and> bk_order_index b' = [] \<and>
    book_ok live ch b' \<and> bk_bbo b' = BBO_init"
proof -
  have "parts_ok live ch b" using assms(1) by (simp add: book_ok_parts)
  from clear_refines [OF this assms(2)] obtain b' where b': "clear ops b = Some b'" "book_ok live ch b'" "live (bk_pool b') = {}" by blast
  then have "dom (bk_orders b') = {}" unfolding book_ok_def store_ok_def by metis
  then have "bk_orders b' = Map.empty" by (simp only: dom_eq_empty_conv)
  moreover have "bk_order_index b' = []" "bk_bbo b' = BBO_init" using b'(1) by (auto simp: clear_def bind_eq_Some_conv)
  ultimately show ?thesis using b' by blast
qed

theorem clear_releases_all_witness:
  "\<exists>b b'. book_run (first_free 4) session (MarketOrderBook_init 7 []) = Some b \<and> clear (first_free 4) b = Some b' \<and>
    set (bk_pool b') = {} \<and> bk_bbo b' = BBO_init"
proof -
  obtain b ch where b: "book_run (first_free 4) session (MarketOrderBook_init 7 []) = Some b" "book_ok set ch b"
    by (rule session_book)
  from clear_releases_all [OF b(2) first_free_ok, of 4] b(1) show ?thesis by blast
qed

text \<open>
  \<^verbatim>\<open>replaceOrder\<close> moves an order with its old \<^verbatim>\<open>next\<close> pointer: when the replaced order is not the last of
  its level, the new level's list runs on into the old one.  Two bids at 100, the first replaced to 101 and then
  deleted: the book shows a bid of quantity 0 at 101 where the specification shows the remaining order, 5 at 100;
  and clearing it visits the same order twice, which is an access to a released object.
\<close>

theorem replace_keeps_stale_links:
  "map_option bk_bbo (book_run (first_free 4) replace_script (MarketOrderBook_init 7 []))
     = Some (BBO_init\<lparr>bid_price := 101, bid_qty := 0\<rparr>) \<and>
   spec_bbo (fold (spec_apply 7) replace_script (\<lambda>s. [])) = BBO_init\<lparr>bid_price := 100, bid_qty := 5\<rparr> \<and>
   book_run (first_free 4) (replace_script @ [upd SNAPSHOT_START BUY 0 0 0 0]) (MarketOrderBook_init 7 []) = None"
  by code_simp


text \<open>
  The observers of a well-formed book show the queues of the specification: the numbers of levels, whether there
  are any, and the prices of the best levels.
\<close>

theorem observers_show_queues:
  assumes "book_ok live ch b"
  shows "bidLevels b = length (abstract ch b BUY) \<and> askLevels b = length (abstract ch b SELL) \<and>
    (book_empty b \<longleftrightarrow> abstract ch b = (\<lambda>s. [])) \<and>
    map_option pl_price (getBestBid b) = (case abstract ch b BUY of [] \<Rightarrow> None | (p, q) # _ \<Rightarrow> Some p) \<and>
    map_option pl_price (getBestAsk b) = (case abstract ch b SELL of [] \<Rightarrow> None | (p, q) # _ \<Rightarrow> Some p)"
proof -
  have sides: "side_levels BUY b = bk_bids b" "side_levels SELL b = bk_asks b" by (simp_all add: side_levels_def)
  have price: "map_option pl_price (bk_levels b l) = Some p" if "(p, l) \<in> set (side_levels s b)" for p l s
    using assms that by (auto simp: book_ok_def core_ok_def)
  have best: "bk_best_bid b = (case bk_bids b of [] \<Rightarrow> None | (p, l) # _ \<Rightarrow> Some l)"
    "bk_best_ask b = (case bk_asks b of [] \<Rightarrow> None | (p, l) # _ \<Rightarrow> Some l)"
    using assms by (simp_all add: book_ok_def bbo_ok_def)
  have queues: "abstract ch b BUY = map (\<lambda>(p, l). (p, map (entry_at (bk_orders b)) (ch l))) (bk_bids b)"
    "abstract ch b SELL = map (\<lambda>(p, l). (p, map (entry_at (bk_orders b)) (ch l))) (bk_asks b)"
    by (simp_all add: abstract_def view_def sides comp_def case_prod_unfold)
  have "book_empty b \<longleftrightarrow> abstract ch b = (\<lambda>s. [])"
  proof
    assume "book_empty b"
    then have "abstract ch b s = []" for s by (cases s) (simp_all add: book_empty_def queues)
    then show "abstract ch b = (\<lambda>s. [])" by (rule ext)
  qed (use queues in \<open>simp add: book_empty_def\<close>)
  moreover have "map_option pl_price (getBestBid b) = (case abstract ch b BUY of [] \<Rightarrow> None | (p, q) # _ \<Rightarrow> Some p)"
    using price [of _ _ BUY] by (auto simp: getBestBid_def best queues sides split: list.split)
  moreover have "map_option pl_price (getBestAsk b) = (case abstract ch b SELL of [] \<Rightarrow> None | (p, q) # _ \<Rightarrow> Some p)"
    using price [of _ _ SELL] by (auto simp: getBestAsk_def best queues sides split: list.split)
  ultimately show ?thesis by (simp add: bidLevels_def askLevels_def queues)
qed

end
