(* ===== verification/Features.thy ===== *)
theory Features
  imports Book_Properties
begin

text \<open>
  The feature plugins of \<^verbatim>\<open>src/trading/features/\<close> and the engine that runs them.  Three of them are
  functions of the best bid and offer alone (market price, spread, imbalance), one accumulates trade
  prints.  The arithmetic is that of \<^verbatim>\<open>int64_t\<close>, truncated to 64 bits where the source does not widen, and
  the theorems give the ranges in which it is exact.
\<close>

definition getBBO :: "'p MarketOrderBook \<Rightarrow> BBO" where
  "getBBO b = bk_bbo b"

subsection \<open>Market price\<close>

record MktPriceFeature =
  mp_price :: Price

definition MktPriceFeature_init :: MktPriceFeature where
  "MktPriceFeature_init = \<lparr>mp_price = Price_INVALID\<rparr>"

definition mkt_price :: "BBO \<Rightarrow> Price" where
  "mkt_price q =
     (if bid_price q = Price_INVALID \<or> ask_price q = Price_INVALID \<or> bid_qty q = 0 \<or> ask_qty q = 0 then Price_INVALID
      else i32 (sint (i64 (sint (ask_price q) * uint (bid_qty q) + sint (bid_price q) * uint (ask_qty q)))
                sdiv (uint (bid_qty q) + uint (ask_qty q))))"

definition mp_onMarketUpdate :: "MarketUpdate \<Rightarrow> 'p MarketOrderBook \<Rightarrow> MktPriceFeature \<Rightarrow> MktPriceFeature" where
  "mp_onMarketUpdate u b f = f\<lparr>mp_price := mkt_price (getBBO b)\<rparr>"

subsection \<open>Spread\<close>

record SpreadFeature =
  sp_spread :: Price

definition SpreadFeature_init :: SpreadFeature where
  "SpreadFeature_init = \<lparr>sp_spread = Price_INVALID\<rparr>"

definition spread :: "BBO \<Rightarrow> Price" where
  "spread q = (if bid_price q = Price_INVALID \<or> ask_price q = Price_INVALID then Price_INVALID
     else i32 (sint (ask_price q) - sint (bid_price q)))"

definition sp_onMarketUpdate :: "MarketUpdate \<Rightarrow> 'p MarketOrderBook \<Rightarrow> SpreadFeature \<Rightarrow> SpreadFeature" where
  "sp_onMarketUpdate u b f = f\<lparr>sp_spread := spread (getBBO b)\<rparr>"

subsection \<open>Order book imbalance\<close>

record OrderBookImbalanceFeature =
  ob_imbalance :: Ratio

definition OrderBookImbalanceFeature_init :: OrderBookImbalanceFeature where
  "OrderBookImbalanceFeature_init = \<lparr>ob_imbalance = Ratio_INVALID\<rparr>"

definition imbalance :: "BBO \<Rightarrow> Ratio" where
  "imbalance q =
     (let total = uint (bid_qty q) + uint (ask_qty q) in
      if bid_price q = Price_INVALID \<or> ask_price q = Price_INVALID \<or> total = 0 then Ratio_INVALID
      else i32 (((uint (bid_qty q) - uint (ask_qty q)) * Ratio_SCALE) sdiv total))"

definition ob_onMarketUpdate :: "MarketUpdate \<Rightarrow> 'p MarketOrderBook \<Rightarrow> OrderBookImbalanceFeature \<Rightarrow> OrderBookImbalanceFeature" where
  "ob_onMarketUpdate u b f = f\<lparr>ob_imbalance := imbalance (getBBO b)\<rparr>"

subsection \<open>Aggressive trade ratio\<close>

record AggTradeRatioFeature =
  at_buy_qty :: "64 word"
  at_sell_qty :: "64 word"

definition AggTradeRatioFeature_init :: AggTradeRatioFeature where
  "AggTradeRatioFeature_init = \<lparr>at_buy_qty = 0, at_sell_qty = 0\<rparr>"

definition at_onMarketUpdate :: "MarketUpdate \<Rightarrow> 'p MarketOrderBook \<Rightarrow> AggTradeRatioFeature \<Rightarrow> AggTradeRatioFeature" where
  "at_onMarketUpdate u b f =
     (if mu_type u \<noteq> EXECUTE then f
      else if mu_side u = SELL then f\<lparr>at_buy_qty := i64 (sint (at_buy_qty f) + uint (mu_qty u))\<rparr>
      else f\<lparr>at_sell_qty := i64 (sint (at_sell_qty f) + uint (mu_qty u))\<rparr>)"

definition at_value :: "AggTradeRatioFeature \<Rightarrow> Ratio" where
  "at_value f =
     (let total = i64 (sint (at_buy_qty f) + sint (at_sell_qty f)) in
      if total = 0 then Ratio_INVALID
      else i32 (sint (i64 (sint (at_buy_qty f) * Ratio_SCALE)) sdiv sint total))"

definition at_reset :: "AggTradeRatioFeature \<Rightarrow> AggTradeRatioFeature" where
  "at_reset f = f\<lparr>at_buy_qty := 0, at_sell_qty := 0\<rparr>"

subsection \<open>The feature engine\<close>

text \<open>
  \<^verbatim>\<open>FeatureEngine<Features...>\<close> in the instantiation of \<^verbatim>\<open>main.cpp\<close>; the fold expression runs the plugins in
  the order of the parameter pack, and \<^verbatim>\<open>get<T>()\<close> is the selector of a component.
\<close>

record TradingFeatures =
  tf_mkt_price :: MktPriceFeature
  tf_spread :: SpreadFeature
  tf_imbalance :: OrderBookImbalanceFeature
  tf_agg_trade :: AggTradeRatioFeature

definition TradingFeatures_init :: TradingFeatures where
  "TradingFeatures_init = \<lparr>tf_mkt_price = MktPriceFeature_init, tf_spread = SpreadFeature_init,
     tf_imbalance = OrderBookImbalanceFeature_init, tf_agg_trade = AggTradeRatioFeature_init\<rparr>"

definition tf_onMarketUpdate :: "MarketUpdate \<Rightarrow> 'p MarketOrderBook \<Rightarrow> TradingFeatures \<Rightarrow> TradingFeatures" where
  "tf_onMarketUpdate u b f =
     (let f = f\<lparr>tf_mkt_price := mp_onMarketUpdate u b (tf_mkt_price f)\<rparr>;
          f = f\<lparr>tf_spread := sp_onMarketUpdate u b (tf_spread f)\<rparr>;
          f = f\<lparr>tf_imbalance := ob_onMarketUpdate u b (tf_imbalance f)\<rparr>
      in f\<lparr>tf_agg_trade := at_onMarketUpdate u b (tf_agg_trade f)\<rparr>)"

subsection \<open>Features of the quote\<close>

text \<open>
  The contract of a plugin that reads the book only through its best bid and offer: its value after an
  update is a function of the quote, and it is invalid on a one-sided quote.
\<close>

locale quote_feature =
  fixes on_update :: "MarketUpdate \<Rightarrow> 'p MarketOrderBook \<Rightarrow> 'f \<Rightarrow> 'f"
    and current :: "'f \<Rightarrow> 32 word" and of_quote :: "BBO \<Rightarrow> 32 word" and bad :: "32 word"
  assumes tracks: "current (on_update u b f) = of_quote (getBBO b)"
    and one_sided: "bid_price q = Price_INVALID \<or> ask_price q = Price_INVALID \<Longrightarrow> of_quote q = bad"
begin

lemma cleared: "clear ops b = Some b' \<Longrightarrow> current (on_update u b' f) = bad"
  by (auto simp: tracks getBBO_def clear_def bind_eq_Some_conv BBO_init_def intro!: one_sided)

lemma follows_last: "xs \<noteq> [] \<Longrightarrow> current (fold (\<lambda>(u, b). on_update u b) xs f) = of_quote (getBBO (snd (last xs)))"
  by (induction xs rule: rev_induct) (auto simp: tracks case_prod_unfold)

lemma one_sided_book: "book_ok live ch b \<Longrightarrow> bk_bids b = [] \<or> bk_asks b = [] \<Longrightarrow> current (on_update u b f) = bad"
  using bbo_of_levels [of live ch b] by (auto simp: tracks getBBO_def intro!: one_sided)

end

interpretation mp: quote_feature mp_onMarketUpdate mp_price mkt_price Price_INVALID
  by unfold_locales (auto simp: mp_onMarketUpdate_def mkt_price_def)

interpretation sp: quote_feature sp_onMarketUpdate sp_spread spread Price_INVALID
  by unfold_locales (auto simp: sp_onMarketUpdate_def spread_def)

interpretation ob: quote_feature ob_onMarketUpdate ob_imbalance imbalance Ratio_INVALID
  by unfold_locales (auto simp: ob_onMarketUpdate_def imbalance_def Let_def)

lemma tf_components [simp]:
  "tf_mkt_price (tf_onMarketUpdate u b f) = mp_onMarketUpdate u b (tf_mkt_price f)"
  "tf_spread (tf_onMarketUpdate u b f) = sp_onMarketUpdate u b (tf_spread f)"
  "tf_imbalance (tf_onMarketUpdate u b f) = ob_onMarketUpdate u b (tf_imbalance f)"
  "tf_agg_trade (tf_onMarketUpdate u b f) = at_onMarketUpdate u b (tf_agg_trade f)"
  by (simp_all add: tf_onMarketUpdate_def Let_def)

subsection \<open>Trade prints\<close>

text \<open>The quantities printed on one side of the book by a sequence of updates.\<close>

definition printed :: "Side \<Rightarrow> MarketUpdate list \<Rightarrow> int" where
  "printed s us = sum_list (map (\<lambda>u. if mu_type u = EXECUTE \<and> mu_side u = s then uint (mu_qty u) else 0) us)"

lemma printed_simps [simp]: "printed s [] = 0"
    "printed s (us @ [u]) = printed s us + (if mu_type u = EXECUTE \<and> mu_side u = s then uint (mu_qty u) else 0)"
  by (simp_all add: printed_def)

lemma printed_nonneg: "0 \<le> printed s us"
  by (induction us rule: rev_induct) auto

abbreviation at_run :: "(MarketUpdate \<times> 'p MarketOrderBook) list \<Rightarrow> AggTradeRatioFeature" where
  "at_run xs \<equiv> fold (\<lambda>(u, b). at_onMarketUpdate u b) xs AggTradeRatioFeature_init"

lemma at_run_counts:
  assumes "printed BUY (map fst xs) + printed SELL (map fst xs) < 9223372036854775808"
  shows "sint (at_buy_qty (at_run xs)) = printed SELL (map fst xs) \<and> sint (at_sell_qty (at_run xs)) = printed BUY (map fst xs)"
  using assms
proof (induction xs rule: rev_induct)
  case Nil
  then show ?case by (simp add: AggTradeRatioFeature_init_def)
next
  case (snoc x xs)
  obtain u b where x: "x = (u, b)" by (cases x)
  have pos: "0 \<le> printed BUY (map fst xs)" "0 \<le> printed SELL (map fst xs)" "0 \<le> uint (mu_qty u)" by (simp_all add: printed_nonneg)
  have "printed BUY (map fst xs) + printed SELL (map fst xs) < 9223372036854775808"
    using snoc.prems x by (simp split: if_splits; use pos(3) in linarith)
  with snoc.IH have IH: "sint (at_buy_qty (at_run xs)) = printed SELL (map fst xs)" "sint (at_sell_qty (at_run xs)) = printed BUY (map fst xs)"
    by simp_all
  define f where "f = at_run xs"
  have run: "at_run (xs @ [x]) = at_onMarketUpdate u b f" by (simp add: x f_def)
  have f: "sint (at_buy_qty f) = printed SELL (map fst xs)" "sint (at_sell_qty f) = printed BUY (map fst xs)"
    using IH by (simp_all only: f_def)
  have fit: "sint (i64 (printed s (map fst xs) + uint (mu_qty u))) = printed s (map fst xs) + uint (mu_qty u)"
    if s: "mu_type u = EXECUTE" "mu_side u = s" for s
  proof (rule sint_i64)
    show "printed s (map fst xs) + uint (mu_qty u) < 9223372036854775808"
      using snoc.prems pos(1,2) x s by (cases s) simp_all
  qed (use pos(3) printed_nonneg [of s "map fst xs"] in linarith)
  show ?case unfolding run map_append list.map printed_simps
    using fit f by (cases "mu_side u") (simp_all add: at_onMarketUpdate_def x)
qed

subsection \<open>Properties\<close>

text \<open>
  The market price lies between the best bid and the best ask: on a two-sided quote that is not crossed
  and whose quantities sum to less than \<open>2 ^ 32\<close> the 64-bit arithmetic is exact and the size-weighted price is
  at least the bid and at most the ask.
\<close>

theorem mkt_price_between:
  assumes "bid_price q \<noteq> Price_INVALID" and "ask_price q \<noteq> Price_INVALID" and "bid_qty q \<noteq> 0" and "ask_qty q \<noteq> 0"
    and cross: "sint (bid_price q) \<le> sint (ask_price q)" and sum: "uint (bid_qty q) + uint (ask_qty q) < 4294967296"
  shows "sint (bid_price q) \<le> sint (mkt_price q) \<and> sint (mkt_price q) \<le> sint (ask_price q)"
proof -
  define n where "n = sint (ask_price q) * uint (bid_qty q) + sint (bid_price q) * uint (ask_qty q)"
  define d where "d = uint (bid_qty q) + uint (ask_qty q)"
  have d: "0 < d" using uint32_pos [OF assms(3)] uint32_bounds(1) [of "ask_qty q"] unfolding d_def by linarith
  have n: "sint (bid_price q) * d \<le> n" "n \<le> sint (ask_price q) * d"
    unfolding n_def d_def using cross by (intro weighted_between [where lo = "sint (bid_price q)" and hi = "sint (ask_price q)"]; simp)+
  have big: "- 2147483648 * d \<le> sint (bid_price q) * d" "sint (ask_price q) * d \<le> 2147483647 * d"
    by (rule mult_right_mono; use d sint32_bounds(1) [of "bid_price q"] sint32_bounds(2) [of "ask_price q"] in simp)+
  have "sint (i64 n) = n" by (rule sint_i64) (use n big sum d_def in linarith)+
  then have v: "mkt_price q = i32 (n sdiv d)" using assms(1-4) by (simp add: mkt_price_def n_def d_def)
  have b: "sint (bid_price q) \<le> n sdiv d \<and> n sdiv d \<le> sint (ask_price q)" by (rule sdiv_enclosed [OF d n])
  then have "sint (i32 (n sdiv d)) = n sdiv d"
    using sint32_bounds(1) [of "bid_price q"] sint32_bounds(2) [of "ask_price q"] by (intro sint_i32) linarith+
  with v b show ?thesis by simp
qed

theorem mkt_price_between_witness:
  "sint (mkt_price \<lparr>bid_price = 100, bid_qty = 30, ask_price = 104, ask_qty = 10\<rparr>) \<in> {100..104}"
  using mkt_price_between [of "\<lparr>bid_price = 100, bid_qty = 30, ask_price = 104, ask_qty = 10\<rparr>"]
  by (simp add: Price_INVALID_def)

text \<open>
  The imbalance of a two-sided quote is a ratio: between \<open>-1000000\<close> and \<open>1000000\<close>, hence never the
  invalid value, positive only when the bid is larger and negative only when the ask is larger, and extreme
  when one of the two quantities is 0.
\<close>

theorem imbalance_is_ratio:
  assumes "bid_price q \<noteq> Price_INVALID" and "ask_price q \<noteq> Price_INVALID" and "bid_qty q \<noteq> 0 \<or> ask_qty q \<noteq> 0"
  shows "\<bar>sint (imbalance q)\<bar> \<le> Ratio_SCALE \<and> imbalance q \<noteq> Ratio_INVALID \<and>
    (0 < sint (imbalance q) \<longrightarrow> uint (ask_qty q) < uint (bid_qty q)) \<and>
    (sint (imbalance q) < 0 \<longrightarrow> uint (bid_qty q) < uint (ask_qty q)) \<and>
    (ask_qty q = 0 \<longrightarrow> sint (imbalance q) = Ratio_SCALE) \<and> (bid_qty q = 0 \<longrightarrow> sint (imbalance q) = - Ratio_SCALE)"
proof -
  define n where "n = (uint (bid_qty q) - uint (ask_qty q)) * Ratio_SCALE"
  define d where "d = uint (bid_qty q) + uint (ask_qty q)"
  have d: "0 < d" using assms(3) uint32_pos [of "bid_qty q"] uint32_pos [of "ask_qty q"]
      uint32_bounds(1) [of "ask_qty q"] uint32_bounds(1) [of "bid_qty q"] unfolding d_def by linarith
  have n: "- Ratio_SCALE * d \<le> n" "n \<le> Ratio_SCALE * d"
    using uint32_bounds(1) [of "ask_qty q"] uint32_bounds(1) [of "bid_qty q"] by (simp_all add: n_def d_def Ratio_SCALE_def)
  have b: "- Ratio_SCALE \<le> n sdiv d \<and> n sdiv d \<le> Ratio_SCALE" by (rule sdiv_enclosed [OF d n])
  have "imbalance q = i32 (n sdiv d)" using assms d by (simp add: imbalance_def n_def d_def Let_def)
  moreover have "sint (i32 (n sdiv d)) = n sdiv d" using b by (intro sint_i32) (simp_all add: Ratio_SCALE_def)
  ultimately have v: "sint (imbalance q) = n sdiv d" by simp
  have "imbalance q \<noteq> Ratio_INVALID" using b v by (auto simp: Ratio_SCALE_def)
  moreover have "uint (ask_qty q) < uint (bid_qty q)" if "0 < n sdiv d"
    using that sdiv_enclosed [OF d _ _, of "- Ratio_SCALE" n 0] n by (cases "n \<le> 0") (simp_all add: n_def Ratio_SCALE_def)
  moreover have "uint (bid_qty q) < uint (ask_qty q)" if "n sdiv d < 0"
    using that sdiv_enclosed [OF d _ _, of 0 n Ratio_SCALE] n by (cases "0 \<le> n") (simp_all add: n_def Ratio_SCALE_def)
  moreover have "n sdiv d = Ratio_SCALE" if "ask_qty q = 0"
    using that sdiv_enclosed [OF d, of Ratio_SCALE n Ratio_SCALE] by (simp add: n_def d_def)
  moreover have "n sdiv d = - Ratio_SCALE" if "bid_qty q = 0"
    using that sdiv_enclosed [OF d, of "- Ratio_SCALE" n "- Ratio_SCALE"] by (simp add: n_def d_def)
  ultimately show ?thesis using b by (simp add: v abs_le_iff)
qed

theorem imbalance_is_ratio_witness:
  "\<bar>sint (imbalance \<lparr>bid_price = 100, bid_qty = 0, ask_price = 104, ask_qty = 10\<rparr>)\<bar> \<le> Ratio_SCALE \<and>
   sint (imbalance \<lparr>bid_price = 100, bid_qty = 0, ask_price = 104, ask_qty = 10\<rparr>) = - Ratio_SCALE"
  using imbalance_is_ratio [of "\<lparr>bid_price = 100, bid_qty = 0, ask_price = 104, ask_qty = 10\<rparr>"]
  by (simp add: Price_INVALID_def)

text \<open>
  The aggressive trade ratio is the buyers' share of the printed quantity in millionths: after any
  sequence of updates that prints some quantity, and at most 9223372036854 in all, the value is the exact
  truncated quotient and lies between 0 and 1000000.
\<close>

theorem agg_trade_ratio_share:
  assumes pos: "0 < printed BUY (map fst xs) + printed SELL (map fst xs)"
    and fits: "printed BUY (map fst xs) + printed SELL (map fst xs) \<le> 9223372036854"
  shows "sint (at_value (at_run xs)) =
      printed SELL (map fst xs) * Ratio_SCALE div (printed BUY (map fst xs) + printed SELL (map fst xs)) \<and>
    0 \<le> sint (at_value (at_run xs)) \<and> sint (at_value (at_run xs)) \<le> Ratio_SCALE"
proof -
  define n where "n = printed SELL (map fst xs)"
  define m where "m = printed BUY (map fst xs)"
  have nm: "0 \<le> n" "0 \<le> m" "0 < m + n" "m + n \<le> 9223372036854" using pos fits by (simp_all add: n_def m_def printed_nonneg)
  have c: "sint (at_buy_qty (at_run xs)) = n" "sint (at_sell_qty (at_run xs)) = m"
    using at_run_counts [of xs] fits by (simp_all add: n_def m_def)
  have t: "sint (i64 (n + m)) = n + m" "sint (i64 (n * Ratio_SCALE)) = n * Ratio_SCALE"
    using nm by (auto simp: Ratio_SCALE_def intro!: sint_i64)
  have "i64 (n + m) \<noteq> 0" using t(1) nm(3) by auto
  then have v: "at_value (at_run xs) = i32 ((n * Ratio_SCALE) sdiv (n + m))"
    by (simp add: at_value_def Let_def c t)
  have b: "0 \<le> (n * Ratio_SCALE) sdiv (n + m) \<and> (n * Ratio_SCALE) sdiv (n + m) \<le> Ratio_SCALE"
    using nm by (intro sdiv_enclosed) (simp_all add: Ratio_SCALE_def)
  then have "sint (at_value (at_run xs)) = (n * Ratio_SCALE) sdiv (n + m)"
    unfolding v by (intro sint_i32) (simp_all add: Ratio_SCALE_def)
  with b nm show ?thesis by (simp add: n_def m_def sdiv_nonneg add.commute Ratio_SCALE_def)
qed

theorem agg_trade_ratio_share_witness:
  "sint (at_value (at_run [(upd EXECUTE SELL 1 100 30 0, MarketOrderBook_init 7 ()), (upd EXECUTE BUY 1 100 10 0, MarketOrderBook_init 7 ())]))
     = 750000"
  using agg_trade_ratio_share
    [of "[(upd EXECUTE SELL 1 100 30 0, MarketOrderBook_init 7 ()), (upd EXECUTE BUY 1 100 10 0, MarketOrderBook_init 7 ())]"]
  by (simp add: printed_def upd_def Ratio_SCALE_def)

end
