(* ===== verification/Order_Id_Allocator.thy ===== *)
theory Order_Id_Allocator
  imports Types
begin

text \<open>
  The shared order-id sequence of \<^verbatim>\<open>src/trading/order_id_allocator.h\<close>.  An id carries its owning
  strategy slot in the top 16 bits and a masked 48-bit counter below it.  The lemmas show that the
  owner of an issued id is the slot it was issued for, that a run of at most \<open>2 ^ 48\<close> calls issues
  pairwise distinct ids, and how the ids of one slot grow.
\<close>

definition SLOT_BITS :: nat where
  "SLOT_BITS = 16"

definition COUNTER_BITS :: nat where
  "COUNTER_BITS = 64 - SLOT_BITS"

definition COUNTER_MASK :: OrderId where
  "COUNTER_MASK = push_bit COUNTER_BITS 1 - 1"

record OrderIdAllocator =
  slot_count :: nat
  counter :: OrderId

definition OrderIdAllocator_init :: "nat \<Rightarrow> OrderIdAllocator" where
  "OrderIdAllocator_init n = \<lparr>slot_count = n, counter = 1\<rparr>"

definition alloc_next :: "nat \<Rightarrow> OrderIdAllocator \<Rightarrow> OrderId \<times> OrderIdAllocator" where
  "alloc_next slot a =
     (push_bit COUNTER_BITS (word_of_nat slot) OR (counter a AND COUNTER_MASK),
      a\<lparr>counter := counter a + 1\<rparr>)"

definition ownerOf :: "OrderIdAllocator \<Rightarrow> OrderId \<Rightarrow> nat" where
  "ownerOf a oid =
     (let slot = unat (drop_bit COUNTER_BITS oid) in if slot < slot_count a then slot else slot_count a)"

definition peek :: "OrderIdAllocator \<Rightarrow> OrderId" where
  "peek a = counter a AND COUNTER_MASK"

text \<open>A sequence of calls of \<^const>\<open>alloc_next\<close>, one per element of the list of requesting slots.\<close>

fun alloc_run :: "nat list \<Rightarrow> OrderIdAllocator \<Rightarrow> OrderId list" where
  "alloc_run [] a = []"
| "alloc_run (s # ss) a = (let (i, a') = alloc_next s a in i # alloc_run ss a')"

subsection \<open>The two fields of an id\<close>

lemma COUNTER_BITS_eq [simp]: "COUNTER_BITS = 48"
  by (simp add: COUNTER_BITS_def SLOT_BITS_def)

lemma COUNTER_MASK_eq: "COUNTER_MASK = mask 48"
  by (simp add: COUNTER_MASK_def mask_eq_decr_exp push_bit_of_1)

lemma counter_field: "w AND COUNTER_MASK = take_bit 48 w"
  by (simp add: COUNTER_MASK_eq take_bit_eq_mask)

lemma alloc_next_id: "fst (alloc_next slot a) = push_bit 48 (word_of_nat slot) OR take_bit 48 (counter a)"
  by (simp add: alloc_next_def counter_field)

lemma alloc_next_counter [simp]: "counter (snd (alloc_next slot a)) = counter a + 1"
  by (simp add: alloc_next_def)

lemma alloc_next_slot_count [simp]: "slot_count (snd (alloc_next slot a)) = slot_count a"
  by (simp add: alloc_next_def)

lemma take_bit_alloc_next: "take_bit 48 (fst (alloc_next slot a)) = take_bit 48 (counter a)"
  by (rule bit_word_eqI) (auto simp: alloc_next_id bit_simps)

lemma drop_bit_alloc_next:
  assumes "slot < 65536"
  shows "drop_bit 48 (fst (alloc_next slot a)) = word_of_nat slot"
proof (rule bit_word_eqI)
  fix n
  assume n: "n < LENGTH(64)"
  have "take_bit 16 slot = slot" using assms by (simp add: take_bit_nat_eq_self)
  then have "bit slot n \<longleftrightarrow> n < 16 \<and> bit slot n" by (metis bit_take_bit_iff)
  with n show "bit (drop_bit 48 (fst (alloc_next slot a))) n = bit (word_of_nat slot :: 64 word) n"
    by (auto simp: alloc_next_id bit_simps)
qed

lemma unat_counter_field: "unat (take_bit 48 w) = unat w mod 2 ^ 48" for w :: "64 word"
  by (simp only: unsigned_take_bit_eq take_bit_eq_mod [of 48 "unat w"])

subsection \<open>Routing\<close>

lemma owner_of_issued:
  assumes "slot < slot_count a" and "slot < 65536"
  shows "ownerOf b (fst (alloc_next slot a)) = (if slot < slot_count b then slot else slot_count b)"
proof -
  have "unat (word_of_nat slot :: 64 word) = slot"
    using assms(2) by (simp add: unat_of_nat)
  then show ?thesis
    using assms(2) by (simp add: ownerOf_def drop_bit_alloc_next Let_def)
qed

lemma ownerOf_le: "ownerOf a i \<le> slot_count a"
  by (simp add: ownerOf_def Let_def)

subsection \<open>Uniqueness\<close>

lemma alloc_run_counter:
  "n < length ss \<Longrightarrow>
    take_bit 48 (alloc_run ss a ! n) = take_bit 48 (counter a + word_of_nat n)"
proof (induction ss arbitrary: a n)
  case (Cons s ss)
  show ?case
  proof (cases n)
    case 0
    then show ?thesis using take_bit_alloc_next [of s a] by (simp add: case_prod_unfold Let_def)
  next
    case (Suc m)
    with Cons show ?thesis by (simp add: case_prod_unfold Let_def add.assoc)
  qed
qed simp

lemma length_alloc_run [simp]: "length (alloc_run ss a) = length ss"
  by (induction ss arbitrary: a) (auto simp: case_prod_unfold Let_def)

lemma counter_field_inj:
  assumes "take_bit 48 (c + word_of_nat m) = (take_bit 48 (c + word_of_nat n) :: 64 word)"
    and "m < 2 ^ 48" and "n < 2 ^ 48"
  shows "m = n"
proof -
  have "(unat c + k) mod 2 ^ 48 = unat (take_bit 48 (c + word_of_nat k))" if "k < 2 ^ 48" for k
  proof -
    have "unat (c + word_of_nat k) = (unat c + k) mod 2 ^ 64"
      using that by (simp add: unat_word_ariths unat_of_nat mod_simps)
    then show ?thesis by (simp add: unat_counter_field mod_mod_cancel)
  qed
  with assms have "(unat c + m) mod 2 ^ 48 = (unat c + n) mod 2 ^ 48" by metis
  with assms(2,3) show ?thesis
  proof (induction m n rule: linorder_wlog)
    case (le m n)
    then have "2 ^ 48 dvd (unat c + n) - (unat c + m)"
      by (metis add_le_cancel_left mod_eq_dvd_iff_nat)
    then have "2 ^ 48 dvd n - m" by simp
    moreover have "n - m < 2 ^ 48" using le by simp
    ultimately have "n - m = 0" by (metis nat_dvd_not_less neq0_conv)
    with le show ?case by simp
  next
    case (sym m n)
    then show ?case by metis
  qed
qed

subsection \<open>Properties\<close>

text \<open>
  A response is routed to the slot that asked for the id: for every slot that exists in the
  engine and fits the 16 slot bits, \<^verbatim>\<open>ownerOf(next(slot))\<close> is that slot, whatever the counter
  (also after it has passed \<open>2 ^ 48\<close>, since the mask keeps it out of the slot bits).
\<close>

theorem owner_of_next:
  assumes "slot < slot_count a" and "slot < 2 ^ SLOT_BITS"
  shows "ownerOf (snd (alloc_next slot a)) (fst (alloc_next slot a)) = slot"
  using owner_of_issued [of slot a "snd (alloc_next slot a)"] assms by (simp add: SLOT_BITS_def)

theorem owner_of_next_witness:
  "ownerOf (snd (alloc_next 3 \<lparr>slot_count = 4, counter = 0x1000000000005\<rparr>))
     (fst (alloc_next 3 \<lparr>slot_count = 4, counter = 0x1000000000005\<rparr>)) = 3"
  using owner_of_next [of 3 "\<lparr>slot_count = 4, counter = 0x1000000000005\<rparr>"]
  by (simp add: SLOT_BITS_def)

text \<open>
  C35.  Ids are unique: whatever the slots of a sequence of at most \<open>2 ^ 48\<close> calls and whatever the
  counter at its start, no id is issued twice.
\<close>

theorem alloc_run_distinct:
  assumes "length ss \<le> 2 ^ COUNTER_BITS"
  shows "distinct (alloc_run ss a)"
proof -
  have "m = n" if "m < length ss" "n < length ss" "alloc_run ss a ! m = alloc_run ss a ! n" for m n
    using that assms alloc_run_counter [of m ss a] alloc_run_counter [of n ss a]
    by (intro counter_field_inj [of "counter a" m n]) auto
  then show ?thesis by (auto simp: distinct_conv_nth)
qed

theorem alloc_run_distinct_witness: "distinct (alloc_run [0, 1, 0] (OrderIdAllocator_init 2))"
  using alloc_run_distinct [of "[0, 1, 0]" "OrderIdAllocator_init 2"] by simp

end
