(* ===== verification/Pnl_Tracker.thy ===== *)
theory Pnl_Tracker
  imports Types
begin

text \<open>
  Positions and profit and loss, \<^verbatim>\<open>src/trading/pnl_tracker.h\<close>.  The tracker's state is the live prefix
  of \<^verbatim>\<open>entries_\<close>; the template argument \<^verbatim>\<open>MaxTickers\<close> is a field that no operation writes.  Results
  in \<^verbatim>\<open>__int128\<close> are exact integers (they stay far below \<open>2 ^ 127\<close>); every \<^verbatim>\<open>int64_t\<close> and
  \<^verbatim>\<open>Price\<close> store truncates.
\<close>

record Entry =
  en_ticker_id :: TickerId
  en_position :: Position

record PnLTracker =
  pt_MaxTickers :: nat
  pt_entries :: "Entry list"

definition PnLTracker_init :: "nat \<Rightarrow> PnLTracker" where
  "PnLTracker_init n = \<lparr>pt_MaxTickers = n, pt_entries = []\<rparr>"

definition pnl_index :: "PnLTracker \<Rightarrow> TickerId \<Rightarrow> nat option" where
  "pnl_index t tid = find_index (\<lambda>e. en_ticker_id e = tid) (pt_entries t)"

definition pnl_get :: "PnLTracker \<Rightarrow> TickerId \<Rightarrow> Position option" where
  "pnl_get t tid = map_option (\<lambda>i. en_position (pt_entries t ! i)) (pnl_index t tid)"

text \<open>The store through the pointer that \<^verbatim>\<open>get\<close> returns.\<close>

definition pnl_put :: "PnLTracker \<Rightarrow> TickerId \<Rightarrow> Position \<Rightarrow> PnLTracker" where
  "pnl_put t tid p =
     (case pnl_index t tid of
        None \<Rightarrow> t
      | Some i \<Rightarrow> t\<lparr>pt_entries := (pt_entries t)[i := (pt_entries t ! i)\<lparr>en_position := p\<rparr>]\<rparr>)"

definition pnl_registerTicker :: "TickerId \<Rightarrow> PnLTracker \<Rightarrow> bool \<times> PnLTracker" where
  "pnl_registerTicker tid t =
     (if pnl_get t tid \<noteq> None then (True, t)
      else if length (pt_entries t) = pt_MaxTickers t then (False, t)
      else (True, t\<lparr>pt_entries := pt_entries t @ [\<lparr>en_ticker_id = tid, en_position = Position_init\<rparr>]\<rparr>))"

definition absQty :: "64 word \<Rightarrow> 64 word" where
  "absQty q = (if sint q < 0 then - q else q)"

definition fitsInt64 :: "int \<Rightarrow> bool" where
  "fitsInt64 v \<longleftrightarrow> - 9223372036854775808 \<le> v \<and> v \<le> 9223372036854775807"

definition updateUnrealized :: "Position \<Rightarrow> Position option" where
  "updateUnrealized p =
     (if net_qty p = 0 \<or> mark_price p = Price_INVALID then Some (p\<lparr>unrealized_pnl := 0\<rparr>)
      else let unrealized = sint (net_qty p) * (sint (mark_price p) - sint (avg_entry_price p))
           in if \<not> fitsInt64 unrealized then None
              else Some (p\<lparr>unrealized_pnl := i64 unrealized\<rparr>))"

text \<open>
  The body of \<^verbatim>\<open>onExecution\<close> between the lookup and \<^verbatim>\<open>updateUnrealized\<close>: the three branches that
  open, extend, and reduce, close or flip the position.  \<^const>\<open>None\<close> is the early \<^verbatim>\<open>return false\<close> when
  realized PnL leaves \<^verbatim>\<open>int64_t\<close>.
\<close>

definition execute_position :: "Position \<Rightarrow> Side \<Rightarrow> Price \<Rightarrow> Quantity \<Rightarrow> Position option" where
  "execute_position p side price qty =
     (let sq = signed_qty side qty in
      if net_qty p = 0 then Some (p\<lparr>net_qty := i64 sq, avg_entry_price := price\<rparr>)
      else if (0 < sint (net_qty p)) = (0 < sq) then
        let old_qty = absQty (net_qty p);
            new_qty = old_qty + i64 (uint qty);
            weighted_price = sint (avg_entry_price p) * sint old_qty + sint price * uint qty
        in Some (p\<lparr>avg_entry_price := i32 (weighted_price sdiv sint new_qty),
                  net_qty := net_qty p + i64 sq\<rparr>)
      else
        let open_qty = absQty (net_qty p);
            closing_qty = (if sint open_qty < uint qty then sint open_qty else uint qty);
            pnl_per_unit = (if 0 < sint (net_qty p) then sint price - sint (avg_entry_price p)
                            else sint (avg_entry_price p) - sint price);
            realized = sint (realized_pnl p) + pnl_per_unit * closing_qty
        in if \<not> fitsInt64 realized then None
           else
             let p = p\<lparr>realized_pnl := i64 realized\<rparr> in
             if sint open_qty < uint qty then
               Some (p\<lparr>net_qty := (if side = BUY then i64 (uint qty) - open_qty
                                   else open_qty - i64 (uint qty)),
                      avg_entry_price := price\<rparr>)
             else
               let n = net_qty p + i64 sq in
               Some (p\<lparr>net_qty := n,
                      avg_entry_price := (if n = 0 then Price_INVALID else avg_entry_price p)\<rparr>))"

definition pnl_onExecution ::
    "TickerId \<Rightarrow> Side \<Rightarrow> Price \<Rightarrow> Quantity \<Rightarrow> PnLTracker \<Rightarrow> bool \<times> PnLTracker" where
  "pnl_onExecution tid side price qty t =
     (case pnl_get t tid of
        None \<Rightarrow> (False, t)
      | Some current \<Rightarrow>
          if price = Price_INVALID \<or> qty = 0 then (False, t)
          else
            case Option.bind (execute_position current side price qty) updateUnrealized of
              None \<Rightarrow> (False, t)
            | Some next \<Rightarrow> (True, pnl_put t tid next))"

definition pnl_onMark :: "TickerId \<Rightarrow> Price \<Rightarrow> PnLTracker \<Rightarrow> bool \<times> PnLTracker" where
  "pnl_onMark tid mark t =
     (case pnl_get t tid of
        None \<Rightarrow> (False, t)
      | Some position \<Rightarrow>
          if mark = Price_INVALID then (False, t)
          else case updateUnrealized (position\<lparr>mark_price := mark\<rparr>) of
                 None \<Rightarrow> (False, t)
               | Some next \<Rightarrow> (True, pnl_put t tid next))"

definition totalPnL :: "PnLTracker \<Rightarrow> int option" where
  "totalPnL t =
     (let total = sum_list (map (\<lambda>e. sint (realized_pnl (en_position e)) +
                                     sint (unrealized_pnl (en_position e))) (pt_entries t))
      in if fitsInt64 total then Some total else None)"

subsection \<open>The position as exact integers\<close>

text \<open>
  The accounting rule the code implements, over unbounded integers: a position is a net quantity,
  an average entry price and a realized profit.  \<open>sq\<close> is the signed executed quantity.
\<close>

type_synonym ledger = "int \<times> int \<times> int"

definition ledger_execute :: "ledger \<Rightarrow> int \<Rightarrow> int \<Rightarrow> ledger" where
  "ledger_execute l sq price = (case l of (n, a, r) \<Rightarrow>
     if n = 0 then (sq, price, r)
     else if (0 < n) = (0 < sq) then (n + sq, (a * \<bar>n\<bar> + price * \<bar>sq\<bar>) sdiv (\<bar>n\<bar> + \<bar>sq\<bar>), r)
     else
       let r' = r + sgn n * (price - a) * min \<bar>n\<bar> \<bar>sq\<bar> in
       if \<bar>n\<bar> < \<bar>sq\<bar> then (n + sq, price, r')
       else (n + sq, if n + sq = 0 then sint Price_INVALID else a, r'))"

definition ledger_of :: "Position \<Rightarrow> ledger" where
  "ledger_of p = (sint (net_qty p), sint (avg_entry_price p), sint (realized_pnl p))"

text \<open>The headroom under which no \<^verbatim>\<open>int64_t\<close> addition of the code overflows.\<close>

definition net_room :: "Position \<Rightarrow> Quantity \<Rightarrow> bool" where
  "net_room p q \<longleftrightarrow> \<bar>sint (net_qty p)\<bar> + uint q < 9223372036854775808"

definition pos_inv :: "Position \<Rightarrow> bool" where
  "pos_inv p \<longleftrightarrow>
     (net_qty p = 0 \<longleftrightarrow> avg_entry_price p = Price_INVALID) \<and>
     sint (unrealized_pnl p) =
       (if net_qty p = 0 \<or> mark_price p = Price_INVALID then 0
        else sint (net_qty p) * (sint (mark_price p) - sint (avg_entry_price p)))"

definition tracker_inv :: "PnLTracker \<Rightarrow> bool" where
  "tracker_inv t \<longleftrightarrow>
     distinct (map en_ticker_id (pt_entries t)) \<and> length (pt_entries t) \<le> pt_MaxTickers t \<and>
     (\<forall>e \<in> set (pt_entries t). pos_inv (en_position e))"

lemma sint_absQty: "- 9223372036854775808 < sint q \<Longrightarrow> sint (absQty q) = \<bar>sint q\<bar>"
  by (simp add: absQty_def sint_minus64)

lemma weighted_average_enclosed:
  fixes a p n q :: int
  assumes "0 \<le> n" "0 < n + q" "0 \<le> q"
  shows "min a p \<le> (a * n + p * q) sdiv (n + q) \<and> (a * n + p * q) sdiv (n + q) \<le> max a p"
proof (rule sdiv_enclosed)
  show "0 < n + q" by fact
  have "min a p * n \<le> a * n" "min a p * q \<le> p * q" "a * n \<le> max a p * n" "p * q \<le> max a p * q"
    using assms by (auto intro: mult_right_mono)
  then show "min a p * (n + q) \<le> a * n + p * q" "a * n + p * q \<le> max a p * (n + q)"
    by (simp_all add: distrib_left)
qed

lemma fitsInt64_sint: "fitsInt64 x \<Longrightarrow> sint (i64 x) = x"
  by (rule sint_i64) (auto simp: fitsInt64_def)

lemma sint_signed_qty [simp]: "sint (i64 (signed_qty s q)) = signed_qty s q"
  by (cases s) simp_all

text \<open>Under \<^const>\<open>net_room\<close> the \<^verbatim>\<open>int64_t\<close> arithmetic of \<^verbatim>\<open>onExecution\<close> is exact.\<close>

lemma execute_arith:
  assumes "net_room p qty" and "qty \<noteq> 0"
  shows "sint (absQty (net_qty p)) = \<bar>sint (net_qty p)\<bar>"
    and "sint (net_qty p + i64 (signed_qty side qty)) = sint (net_qty p) + signed_qty side qty"
    and "sint (absQty (net_qty p) + i64 (uint qty)) = \<bar>sint (net_qty p)\<bar> + uint qty"
    and "sint (i64 (uint qty) - absQty (net_qty p)) = uint qty - \<bar>sint (net_qty p)\<bar>"
    and "sint (absQty (net_qty p) - i64 (uint qty)) = \<bar>sint (net_qty p)\<bar> - uint qty"
proof -
  have q: "0 < uint qty" "uint qty < 4294967296" and room: "\<bar>sint (net_qty p)\<bar> + uint qty < 9223372036854775808"
    using assms uint32_bounds [of qty] uint32_pos [of qty] by (auto simp: net_room_def)
  have sq: "- uint qty \<le> signed_qty side qty" "signed_qty side qty \<le> uint qty"
    using q by (cases side; simp)+
  show a: "sint (absQty (net_qty p)) = \<bar>sint (net_qty p)\<bar>"
    using room q by (simp add: sint_absQty)
  show "sint (net_qty p + i64 (signed_qty side qty)) = sint (net_qty p) + signed_qty side qty"
    using room q sq by (subst sint_add64) auto
  show "sint (absQty (net_qty p) + i64 (uint qty)) = \<bar>sint (net_qty p)\<bar> + uint qty"
    using room q by (subst sint_add64) (auto simp: a)
  show "sint (i64 (uint qty) - absQty (net_qty p)) = uint qty - \<bar>sint (net_qty p)\<bar>"
    using room q by (subst sint_diff64) (auto simp: a)
  show "sint (absQty (net_qty p) - i64 (uint qty)) = \<bar>sint (net_qty p)\<bar> - uint qty"
    using room q by (subst sint_diff64) (auto simp: a)
qed

lemma sint_average:
  assumes "(qty :: Quantity) \<noteq> 0"
  shows "sint (i32 ((sint (a :: Price) * \<bar>n\<bar> + sint (b :: Price) * uint qty) sdiv (\<bar>n\<bar> + uint qty))) =
    (sint a * \<bar>n\<bar> + sint b * uint qty) sdiv (\<bar>n\<bar> + uint qty)"
proof -
  have "0 < \<bar>n\<bar> + uint qty" using uint32_pos [OF assms] by linarith
  from weighted_average_enclosed [OF _ this, of "sint a" "sint b"] show ?thesis
    using sint32_bounds [of a] sint32_bounds [of b] by (intro sint_i32) auto
qed

lemma execute_position_ledger:
  assumes room: "net_room p qty" and qty: "qty \<noteq> 0"
    and ex: "execute_position p side price qty = Some p'"
  shows "ledger_of p' = ledger_execute (ledger_of p) (signed_qty side qty) (sint price)"
proof -
  let ?n = "sint (net_qty p)" and ?sq = "signed_qty side qty"
  note arith = execute_arith [OF room qty]
  have q: "0 < uint qty" using uint32_pos [OF qty] .
  consider "?n = 0" | "?n \<noteq> 0" "(0 < ?n) = (0 < ?sq)" | "?n \<noteq> 0" "(0 < ?n) \<noteq> (0 < ?sq)" by blast
  then show ?thesis
  proof cases
    case 1
    with ex show ?thesis
      by (auto simp: execute_position_def ledger_of_def ledger_execute_def)
  next
    case 2
    with ex sint_average [OF qty, of "avg_entry_price p" ?n price] show ?thesis
      unfolding execute_position_def Let_def arith
      by (auto simp: ledger_of_def ledger_execute_def arith)
  next
    case 3
    have flat: "net_qty p + i64 ?sq = 0 \<longleftrightarrow> ?n + ?sq = 0"
      using arith(2) [of side] by (metis sint_0_iff)
    have min_strict: "min x y = (if x < y then x else y)" for x y :: int by simp
    show ?thesis
    proof (cases side)
      case BUY
      have "?n < 0" using 3 q unfolding BUY signed_qty_simps by linarith
      with BUY ex q flat arith(2) [of BUY] show ?thesis
        unfolding execute_position_def Let_def arith(1)
        by (auto simp: ledger_of_def ledger_execute_def Let_def arith fitsInt64_sint min_strict algebra_simps
            split: if_splits)
    next
      case SELL
      have "0 < ?n" using 3 q unfolding SELL signed_qty_simps by linarith
      with SELL ex q flat arith(2) [of SELL] show ?thesis
        unfolding execute_position_def Let_def arith(1)
        by (auto simp: ledger_of_def ledger_execute_def Let_def arith fitsInt64_sint min_strict algebra_simps
            split: if_splits)
    qed
  qed
qed

subsection \<open>Accounting laws of the exact rule\<close>

text \<open>
  What the position cost, \<open>n * a\<close>, changes by exactly the cash the execution moved plus the profit it
  realized.  Extending a position rounds the average price towards zero, which loses less than one
  price unit per share held; every other execution is exact.
\<close>

definition cash_drift :: "ledger \<Rightarrow> int \<Rightarrow> int \<Rightarrow> int" where
  "cash_drift l sq price =
     (case (l, ledger_execute l sq price) of
        ((n, a, r), (n', a', r')) \<Rightarrow> (n' * a' - n * a) - sq * price - (r' - r))"

lemma cash_drift_exact:
  assumes "n = 0 \<or> (0 < n) \<noteq> (0 < sq)" and "sq \<noteq> 0"
  shows "cash_drift (n, a, r) sq price = 0"
proof -
  from assms consider "n = 0" | "0 < n" "sq < 0" | "n < 0" "0 < sq" by linarith
  then show ?thesis
  proof cases
    case 2
    then show ?thesis
      by (simp add: cash_drift_def ledger_execute_def Let_def min_def algebra_simps)
  next
    case 3
    then show ?thesis
      by (cases "n = - sq") (simp_all add: cash_drift_def ledger_execute_def Let_def min_def algebra_simps)
  qed (simp add: cash_drift_def ledger_execute_def)
qed

lemma cash_drift_rounding:
  assumes "n \<noteq> 0" and "(0 < n) = (0 < sq)" and "sq \<noteq> 0"
  shows "\<bar>cash_drift (n, a, r) sq price\<bar> < \<bar>n + sq\<bar>"
proof -
  define m where "m = \<bar>n\<bar> + \<bar>sq\<bar>"
  define x where "x = a * \<bar>n\<bar> + price * \<bar>sq\<bar>"
  have m: "m = \<bar>n + sq\<bar>" "0 < m" using assms by (auto simp: m_def)
  have drift: "cash_drift (n, a, r) sq price = (n + sq) * (x sdiv m) - n * a - sq * price"
    using assms by (simp add: cash_drift_def ledger_execute_def x_def m_def)
  from assms consider "0 < n" "0 < sq" | "n < 0" "sq < 0" by linarith
  then have "\<bar>cash_drift (n, a, r) sq price\<bar> = \<bar>x - (x sdiv m) * m\<bar>"
  proof cases
    case 1
    then have "cash_drift (n, a, r) sq price = - (x - (x sdiv m) * m)"
      unfolding drift by (simp add: x_def m_def algebra_simps)
    then show ?thesis by (simp only: abs_minus_cancel)
  next
    case 2
    then have "cash_drift (n, a, r) sq price = x - (x sdiv m) * m"
      unfolding drift by (simp add: x_def m_def algebra_simps)
    then show ?thesis by simp
  qed
  also have "\<dots> < \<bar>n + sq\<bar>" using sdiv_rounding [OF m(2), of x] m(1) by simp
  finally show ?thesis .
qed

lemma ledger_execute_net: "fst (ledger_execute (n, a, r) sq price) = n + sq"
  by (simp add: ledger_execute_def Let_def)

subsection \<open>Lookups after updates\<close>

lemma pnl_put_shape [simp]:
  "pt_MaxTickers (pnl_put t tid p) = pt_MaxTickers t"
  "length (pt_entries (pnl_put t tid p)) = length (pt_entries t)"
  by (simp_all add: pnl_put_def split: option.split)

lemma pnl_put_keys [simp]: "map en_ticker_id (pt_entries (pnl_put t tid p)) = map en_ticker_id (pt_entries t)"
proof (cases "pnl_index t tid")
  case (Some i)
  then have "i < length (pt_entries t)"
    by (auto simp: pnl_index_def dest: find_index_length)
  with Some show ?thesis by (simp add: pnl_put_def map_update_same)
qed (simp add: pnl_put_def)

lemma pnl_index_put [simp]: "pnl_index (pnl_put t tid p) tid' = pnl_index t tid'"
  unfolding pnl_index_def by (rule find_index_same_keys) simp

lemma pnl_index_entry: "pnl_index t tid = Some i \<Longrightarrow> i < length (pt_entries t) \<and> en_ticker_id (pt_entries t ! i) = tid"
  unfolding pnl_index_def using find_index_SomeD by fast

lemma pnl_get_put:
  "pnl_get (pnl_put t tid p) tid' =
     (if tid' = tid then map_option (\<lambda>_. p) (pnl_get t tid) else pnl_get t tid')"
proof (cases "pnl_index t tid")
  case None
  then have "pnl_put t tid p = t" by (simp add: pnl_put_def)
  with None show ?thesis by (simp add: pnl_get_def)
next
  case i: (Some i)
  then have put: "pt_entries (pnl_put t tid p) = (pt_entries t)[i := (pt_entries t ! i)\<lparr>en_position := p\<rparr>]"
    by (simp add: pnl_put_def)
  show ?thesis
  proof (cases "pnl_index t tid'")
    case j: (Some j)
    show ?thesis
      using i j pnl_index_entry [OF i] pnl_index_entry [OF j]
      by (cases "i = j") (auto simp: pnl_get_def put)
  qed (use i in \<open>auto simp: pnl_get_def\<close>)
qed

lemma pnl_put_entries:
  assumes "e \<in> set (pt_entries (pnl_put t tid p))"
  shows "e \<in> set (pt_entries t) \<or> en_position e = p"
proof (cases "pnl_index t tid")
  case (Some i)
  with assms have "e \<in> set ((pt_entries t)[i := (pt_entries t ! i)\<lparr>en_position := p\<rparr>])"
    by (simp add: pnl_put_def)
  then have "e \<in> insert ((pt_entries t ! i)\<lparr>en_position := p\<rparr>) (set (pt_entries t))"
    by (rule subsetD [OF set_update_subset_insert])
  then show ?thesis by auto
qed (use assms in \<open>simp add: pnl_put_def\<close>)

lemma pnl_get_mem: "pnl_get t tid = Some p \<Longrightarrow> \<exists>e \<in> set (pt_entries t). en_position e = p"
  using find_index_mem by (fastforce simp: pnl_get_def pnl_index_def)

subsection \<open>Branches of the operations\<close>

lemma updateUnrealized_Some:
  assumes "updateUnrealized p = Some p'"
  shows "ledger_of p' = ledger_of p" and "mark_price p' = mark_price p"
    and "sint (unrealized_pnl p') =
       (if net_qty p' = 0 \<or> mark_price p' = Price_INVALID then 0
        else sint (net_qty p') * (sint (mark_price p') - sint (avg_entry_price p')))"
  using assms
  by (auto simp: updateUnrealized_def ledger_of_def Let_def fitsInt64_sint split: if_splits)

lemma onExecution_True:
  assumes "pnl_onExecution tid side price qty t = (True, t')"
  obtains p p1 p2 where "pnl_get t tid = Some p" and "price \<noteq> Price_INVALID" and "qty \<noteq> 0"
    and "execute_position p side price qty = Some p1" and "updateUnrealized p1 = Some p2"
    and "t' = pnl_put t tid p2"
  using assms
  by (auto simp: pnl_onExecution_def split: option.splits if_splits Option.bind_splits)

lemma onExecution_False:
  "pnl_onExecution tid side price qty t = (False, t') \<Longrightarrow> t' = t"
  by (auto simp: pnl_onExecution_def split: option.splits if_splits)

lemma onMark_True:
  assumes "pnl_onMark tid mark t = (True, t')"
  obtains p p2 where "pnl_get t tid = Some p" and "mark \<noteq> Price_INVALID"
    and "updateUnrealized (p\<lparr>mark_price := mark\<rparr>) = Some p2" and "t' = pnl_put t tid p2"
  using assms by (auto simp: pnl_onMark_def split: option.splits if_splits)

lemma onMark_False: "pnl_onMark tid mark t = (False, t') \<Longrightarrow> t' = t"
  by (auto simp: pnl_onMark_def split: option.splits if_splits)

lemma onExecution_ledger:
  assumes ex: "pnl_onExecution tid side price qty t = (True, t')"
    and p: "pnl_get t tid = Some p" and room: "net_room p qty"
  shows "\<exists>p'. pnl_get t' tid = Some p' \<and> mark_price p' = mark_price p \<and>
    ledger_of p' = ledger_execute (ledger_of p) (signed_qty side qty) (sint price)"
proof -
  from ex p obtain p1 p2 where e: "execute_position p side price qty = Some p1" "qty \<noteq> 0"
    and u: "updateUnrealized p1 = Some p2" and t': "t' = pnl_put t tid p2"
    by (auto elim: onExecution_True)
  have "mark_price p1 = mark_price p"
    using e(1) by (auto simp: execute_position_def Let_def split: if_splits)
  moreover have "pnl_get t' tid = Some p2" by (simp add: t' pnl_get_put p)
  ultimately show ?thesis
    using execute_position_ledger [OF room e(2,1)] updateUnrealized_Some [OF u] by auto
qed

lemma onExecution_other:
  "tid' \<noteq> tid \<Longrightarrow> pnl_get (snd (pnl_onExecution tid side price qty t)) tid' = pnl_get t tid'"
  by (auto simp: pnl_onExecution_def pnl_get_put split: option.splits)

lemma onMark_other: "tid' \<noteq> tid \<Longrightarrow> pnl_get (snd (pnl_onMark tid m t)) tid' = pnl_get t tid'"
  by (auto simp: pnl_onMark_def pnl_get_put split: option.splits)

lemma onMark_ledger:
  assumes "pnl_get t tid = Some p"
  shows "\<exists>p'. pnl_get (snd (pnl_onMark tid m t)) tid = Some p' \<and> ledger_of p' = ledger_of p"
  using assms updateUnrealized_Some(1) [of "p\<lparr>mark_price := m\<rparr>"]
  by (auto simp: pnl_onMark_def pnl_get_put ledger_of_def split: option.splits)

subsection \<open>The invariant\<close>

lemma ledger_flat_iff:
  assumes "(n = 0) = (a = - 2147483648)" and "- 2147483648 \<le> a" and "- 2147483648 < price"
    and "sq \<noteq> 0" and "ledger_execute (n, a, r) sq price = (n', a', r')"
  shows "(n' = 0) = (a' = - 2147483648)"
proof (cases "n \<noteq> 0 \<and> (0 < n) = (0 < sq)")
  case True
  with assms have "- 2147483648 < a" by auto
  moreover have "min a price \<le> a'"
    using True assms weighted_average_enclosed [of "\<bar>n\<bar>" "\<bar>sq\<bar>" a price]
    by (auto simp: ledger_execute_def)
  moreover have "n' \<noteq> 0" using True assms(5) by (auto simp: ledger_execute_def)
  ultimately show ?thesis using assms(3) by auto
next
  case False
  with assms show ?thesis
    by (auto simp: ledger_execute_def Let_def split: if_splits)
qed

lemma pos_inv_flat: "pos_inv p \<Longrightarrow> (net_qty p = 0) = (avg_entry_price p = Price_INVALID)"
  by (simp add: pos_inv_def)

lemma execute_pos_inv:
  assumes inv: "pos_inv p" and room: "net_room p qty" and qty: "qty \<noteq> 0"
    and price: "price \<noteq> Price_INVALID"
    and e: "execute_position p side price qty = Some p1" and u: "updateUnrealized p1 = Some p2"
  shows "pos_inv p2"
proof -
  have l: "ledger_of p2 = ledger_execute (ledger_of p) (signed_qty side qty) (sint price)"
    using execute_position_ledger [OF room qty e] updateUnrealized_Some(1) [OF u] by simp
  have sq: "signed_qty side qty \<noteq> 0" using uint32_pos [OF qty] by (cases side) simp_all
  have inv_iff: "(w = Price_INVALID) = (sint w = - 2147483648)" for w :: Price
    by (simp add: sint_eq_iff [of w])
  have "(sint (net_qty p2) = 0) = (sint (avg_entry_price p2) = - 2147483648)"
  proof (rule ledger_flat_iff [OF _ _ _ sq l [unfolded ledger_of_def, symmetric]])
    show "(sint (net_qty p) = 0) = (sint (avg_entry_price p) = - 2147483648)"
      using pos_inv_flat [OF inv] by (simp add: inv_iff)
    show "- 2147483648 < sint price" using price by (simp add: Price_valid_iff)
  qed (rule sint32_bounds(1))
  with updateUnrealized_Some(3) [OF u] show ?thesis
    by (simp add: pos_inv_def inv_iff [of "avg_entry_price p2"])
qed

lemma tracker_inv_get: "tracker_inv t \<Longrightarrow> pnl_get t tid = Some p \<Longrightarrow> pos_inv p"
  by (auto simp: tracker_inv_def dest!: pnl_get_mem)

lemma tracker_inv_put: "tracker_inv t \<Longrightarrow> pos_inv p \<Longrightarrow> tracker_inv (pnl_put t tid p)"
  by (auto simp: tracker_inv_def dest: pnl_put_entries)

lemma tracker_inv_init: "tracker_inv (PnLTracker_init n)"
  by (simp add: tracker_inv_def PnLTracker_init_def)

lemma tracker_inv_register:
  assumes "tracker_inv t"
  shows "tracker_inv (snd (pnl_registerTicker tid t))"
proof -
  have "pos_inv Position_init" by (simp add: pos_inv_def Position_init_def)
  moreover have "pnl_get t tid = None \<Longrightarrow> tid \<notin> en_ticker_id ` set (pt_entries t)"
    by (auto simp: pnl_get_def pnl_index_def find_index_None)
  ultimately show ?thesis
    using assms by (auto simp: tracker_inv_def pnl_registerTicker_def)
qed

lemma tracker_inv_execution:
  assumes inv: "tracker_inv t" and room: "\<And>p. pnl_get t tid = Some p \<Longrightarrow> net_room p qty"
  shows "tracker_inv (snd (pnl_onExecution tid side price qty t))"
proof (cases "pnl_onExecution tid side price qty t")
  case (Pair b t')
  show ?thesis
  proof (cases b)
    case True
    with Pair have "pnl_onExecution tid side price qty t = (True, t')" by simp
    then obtain p p1 p2 where p: "pnl_get t tid = Some p" "price \<noteq> Price_INVALID" "qty \<noteq> 0"
      and e: "execute_position p side price qty = Some p1" "updateUnrealized p1 = Some p2"
      and t': "t' = pnl_put t tid p2"
      by (rule onExecution_True)
    have "pos_inv p2"
      by (rule execute_pos_inv [OF tracker_inv_get [OF inv p(1)] room [OF p(1)] p(3,2) e])
    then show ?thesis using Pair t' inv by (simp add: tracker_inv_put)
  next
    case False
    with Pair have "t' = t" using onExecution_False by (metis (full_types))
    with Pair inv show ?thesis by simp
  qed
qed

lemma tracker_inv_mark:
  assumes inv: "tracker_inv t"
  shows "tracker_inv (snd (pnl_onMark tid m t))"
proof (cases "pnl_onMark tid m t")
  case (Pair b t')
  show ?thesis
  proof (cases b)
    case True
    with Pair obtain p p2 where p: "pnl_get t tid = Some p" "t' = pnl_put t tid p2"
      and u: "updateUnrealized (p\<lparr>mark_price := m\<rparr>) = Some p2"
      by (auto elim: onMark_True)
    have "net_qty p2 = net_qty p \<and> avg_entry_price p2 = avg_entry_price p"
      using updateUnrealized_Some(1) [OF u] by (auto simp: ledger_of_def intro: signed_word_eqI)
    then have "pos_inv p2"
      using updateUnrealized_Some(3) [OF u] tracker_inv_get [OF inv p(1)] by (simp add: pos_inv_def)
    then show ?thesis using Pair p inv by (simp add: tracker_inv_put)
  next
    case False
    with Pair have "t' = t" using onMark_False by (metis (full_types))
    with Pair inv show ?thesis by simp
  qed
qed

subsection \<open>Properties\<close>

text \<open>
  C11.  \<^verbatim>\<open>onExecution\<close> implements the exact accounting rule: when it returns true (and the net quantity
  leaves room for the executed one in \<^verbatim>\<open>int64_t\<close>), the stored net quantity, average entry price and
  realized PnL are those of \<^const>\<open>ledger_execute\<close>, the mark is kept, and no other ticker changes.
\<close>

theorem onExecution_refines_ledger:
  assumes "pnl_onExecution tid side price qty t = (True, t')"
    and "pnl_get t tid = Some p" and "net_room p qty"
  shows "(\<exists>p'. pnl_get t' tid = Some p' \<and> mark_price p' = mark_price p \<and>
      ledger_of p' = ledger_execute (ledger_of p) (signed_qty side qty) (sint price)) \<and>
    (\<forall>tid'. tid' \<noteq> tid \<longrightarrow> pnl_get t' tid' = pnl_get t tid')"
  using onExecution_ledger [OF assms] onExecution_other [of _ tid side price qty t] assms(1)
  by auto

text \<open>
  C20.  Cash conservation: on every execution the change of the position's cost (net quantity times
  average entry price) equals the cash paid plus the profit realized, up to the rounding of the
  average price, which stays below one price unit per share of the new position; an execution that
  opens, reduces, closes or flips a position is exact.
\<close>

theorem onExecution_conserves_cash:
  assumes ex: "pnl_onExecution tid side price qty t = (True, t')"
    and p: "pnl_get t tid = Some p" and room: "net_room p qty" and p': "pnl_get t' tid = Some p'"
  defines "drift \<equiv> (sint (net_qty p') * sint (avg_entry_price p') - sint (net_qty p) * sint (avg_entry_price p))
      - signed_qty side qty * sint price - (sint (realized_pnl p') - sint (realized_pnl p))"
  shows "\<bar>drift\<bar> < max 1 \<bar>sint (net_qty p')\<bar> \<and>
    (sint (net_qty p) = 0 \<or> (0 < sint (net_qty p)) \<noteq> (0 < signed_qty side qty) \<longrightarrow> drift = 0)"
proof -
  let ?n = "sint (net_qty p)" and ?sq = "signed_qty side qty"
  have l: "ledger_execute (ledger_of p) ?sq (sint price) = ledger_of p'"
    using onExecution_ledger [OF ex p room] p' by simp
  then have drift: "drift = cash_drift (ledger_of p) ?sq (sint price)"
    by (simp add: drift_def cash_drift_def ledger_of_def)
  have net: "sint (net_qty p') = ?n + ?sq"
    using l ledger_execute_net [of ?n "sint (avg_entry_price p)" "sint (realized_pnl p)" ?sq "sint price"]
    by (simp add: ledger_of_def)
  have sq: "?sq \<noteq> 0"
    using ex by (rule onExecution_True) (use uint32_pos in \<open>cases side; force\<close>)
  show ?thesis
  proof (cases "?n = 0 \<or> (0 < ?n) \<noteq> (0 < ?sq)")
    case True
    then show ?thesis using cash_drift_exact [OF _ sq] by (simp add: drift ledger_of_def)
  next
    case False
    then show ?thesis
      using cash_drift_rounding [OF _ _ sq, of ?n "sint (avg_entry_price p)" "sint (realized_pnl p)" "sint price"]
      unfolding drift net ledger_of_def by (simp add: less_max_iff_disj del: sint_0_iff)
  qed
qed

text \<open>
  The tracker's invariant (one entry per ticker, at most \<^verbatim>\<open>MaxTickers\<close> of them, a position is flat
  exactly when its entry price is the sentinel, and the stored unrealized PnL is the mark-to-market
  value) holds initially and after registering, executing and marking.
\<close>

theorem tracker_inv_preserved:
  assumes "tracker_inv t" and "\<And>p. pnl_get t tid = Some p \<Longrightarrow> net_room p qty"
  shows "tracker_inv (PnLTracker_init n) \<and>
    tracker_inv (snd (pnl_registerTicker tid t)) \<and>
    tracker_inv (snd (pnl_onExecution tid side price qty t)) \<and>
    tracker_inv (snd (pnl_onMark tid price t))"
  using assms
  by (simp add: tracker_inv_init tracker_inv_register tracker_inv_execution tracker_inv_mark)

text \<open>
  A failing operation changes nothing: whenever registering, executing or marking returns false
  (unknown ticker, sentinel price, zero quantity, table full, or a result outside \<^verbatim>\<open>int64_t\<close>) the
  tracker is the one before the call.
\<close>

theorem pnl_failure_atomic:
  "(fst (pnl_registerTicker tid t) \<or> snd (pnl_registerTicker tid t) = t) \<and>
   (fst (pnl_onExecution tid side price qty t) \<or> snd (pnl_onExecution tid side price qty t) = t) \<and>
   (fst (pnl_onMark tid price t) \<or> snd (pnl_onMark tid price t) = t)"
  by (auto simp: pnl_registerTicker_def pnl_onExecution_def pnl_onMark_def split: option.splits)

subsection \<open>Witnesses\<close>

text \<open>A tracker that is long 100 shares of ticker 7, bought at 100.0000.\<close>

definition long_100 :: PnLTracker where
  "long_100 = \<lparr>pt_MaxTickers = 2, pt_entries = [\<lparr>en_ticker_id = 7, en_position =
     \<lparr>net_qty = 100, realized_pnl = 0, unrealized_pnl = 0, avg_entry_price = 1000000,
      mark_price = Price_INVALID\<rparr>\<rparr>]\<rparr>"

definition flipped_50 :: PnLTracker where
  "flipped_50 = \<lparr>pt_MaxTickers = 2, pt_entries = [\<lparr>en_ticker_id = 7, en_position =
     \<lparr>net_qty = i64 (- 50), realized_pnl = 1000000, unrealized_pnl = 0, avg_entry_price = 1010000,
      mark_price = Price_INVALID\<rparr>\<rparr>]\<rparr>"

lemma long_100_sell: "pnl_onExecution 7 SELL 1010000 150 long_100 = (True, flipped_50)"
  by code_simp

lemma long_100_get: "pnl_get long_100 7 = Some (en_position (hd (pt_entries long_100)))"
  by code_simp

lemma long_100_room: "net_room (en_position (hd (pt_entries long_100))) 150"
  by code_simp

theorem onExecution_refines_ledger_witness:
  "\<exists>p'. pnl_get flipped_50 7 = Some p' \<and>
     ledger_of p' = ledger_execute (ledger_of (en_position (hd (pt_entries long_100)))) (- 150) 1010000"
proof -
  have "signed_qty SELL 150 = - 150" "sint (1010000 :: Price) = 1010000" by code_simp+
  then show ?thesis
    using onExecution_refines_ledger [OF long_100_sell long_100_get long_100_room] by auto
qed

theorem onExecution_conserves_cash_witness:
  "pnl_get flipped_50 7 = Some (en_position (hd (pt_entries flipped_50))) \<and>
   ((- 50) * 1010000 - 100 * 1000000) - (- 150) * 1010000 - (1000000 - 0) = (0 :: int)"
proof -
  have get: "pnl_get flipped_50 7 = Some (en_position (hd (pt_entries flipped_50)))" by code_simp
  have "signed_qty SELL 150 = - 150" "sint (1010000 :: Price) = 1010000"
    "sint (net_qty (en_position (hd (pt_entries flipped_50)))) = - 50"
    "sint (avg_entry_price (en_position (hd (pt_entries flipped_50)))) = 1010000"
    "sint (realized_pnl (en_position (hd (pt_entries flipped_50)))) = 1000000"
    "sint (net_qty (en_position (hd (pt_entries long_100)))) = 100"
    "sint (avg_entry_price (en_position (hd (pt_entries long_100)))) = 1000000"
    "sint (realized_pnl (en_position (hd (pt_entries long_100)))) = 0"
    by code_simp+
  then show ?thesis
    using get onExecution_conserves_cash [OF long_100_sell long_100_get long_100_room get]
    by simp
qed

theorem tracker_inv_preserved_witness:
  "tracker_inv long_100 \<and> tracker_inv (snd (pnl_onExecution 7 SELL 1010000 150 long_100))"
proof -
  have inv: "tracker_inv long_100" by code_simp
  have "net_room p 150" if "pnl_get long_100 7 = Some p" for p
    using that long_100_get long_100_room by simp
  with inv show ?thesis
    using tracker_inv_preserved [OF inv, of 7 150 0 SELL 1010000] by simp
qed

end
