(* ===== verification/Risk_Manager.thy ===== *)
theory Risk_Manager
  imports Pnl_Tracker
begin

text \<open>
  The per-strategy risk manager, \<^verbatim>\<open>src/trading/risk_manager.h\<close>: per-ticker limits, the table of
  pending orders with their reserved quantities, the pre-trade check, and the handling of exchange
  responses, which releases reservations and forwards executions to the PnL tracker.  Arrays are
  their live prefixes; the template arguments are fields that no operation writes.
\<close>

datatype RiskResult = RISK_ACCEPTED | TRADING_DISABLED | INVALID_REQUEST | UNKNOWN_TICKER
  | DUPLICATE_ORDER | PENDING_CAPACITY_EXCEEDED | ORDER_QTY_EXCEEDED | ORDER_NOTIONAL_EXCEEDED
  | POSITION_LIMIT_EXCEEDED

record RiskLimits =
  max_abs_position :: "64 word"
  max_order_qty :: Quantity
  max_order_notional :: "64 word"

record TickerLimits =
  tl_ticker_id :: TickerId
  tl_limits :: RiskLimits

record PendingOrder =
  po_client_order_id :: OrderId
  po_ticker_id :: TickerId
  po_side :: Side
  po_reserved_qty :: Quantity

record RiskManager =
  rm_MaxTickers :: nat
  rm_MaxPendingOrders :: nat
  rm_tickers :: "TickerLimits list"
  rm_pending :: "PendingOrder list"
  rm_trading_enabled :: bool

definition RiskManager_init :: "nat \<Rightarrow> nat \<Rightarrow> RiskManager" where
  "RiskManager_init mt mp = \<lparr>rm_MaxTickers = mt, rm_MaxPendingOrders = mp, rm_tickers = [],
     rm_pending = [], rm_trading_enabled = True\<rparr>"

subsection \<open>Lookups\<close>

definition findTicker :: "RiskManager \<Rightarrow> TickerId \<Rightarrow> TickerLimits option" where
  "findTicker r tid =
     map_option (\<lambda>i. rm_tickers r ! i) (find_index (\<lambda>t. tl_ticker_id t = tid) (rm_tickers r))"

definition findPendingIndex :: "RiskManager \<Rightarrow> OrderId \<Rightarrow> nat" where
  "findPendingIndex r oid =
     (case find_index (\<lambda>p. po_client_order_id p = oid) (rm_pending r) of
        Some i \<Rightarrow> i | None \<Rightarrow> rm_MaxPendingOrders r)"

definition findPending :: "RiskManager \<Rightarrow> OrderId \<Rightarrow> PendingOrder option" where
  "findPending r oid =
     (let index = findPendingIndex r oid in
      if index = rm_MaxPendingOrders r then None else Some (rm_pending r ! index))"

definition erasePending :: "nat \<Rightarrow> RiskManager \<Rightarrow> RiskManager" where
  "erasePending i r = r\<lparr>rm_pending := swap_erase i (rm_pending r)\<rparr>"

definition pendingExposure :: "RiskManager \<Rightarrow> TickerId \<Rightarrow> 64 word" where
  "pendingExposure r tid =
     foldl (\<lambda>exposure p. if po_ticker_id p \<noteq> tid then exposure
                         else exposure + i64 (signed_qty (po_side p) (po_reserved_qty p)))
       0 (rm_pending r)"

definition pendingCount :: "RiskManager \<Rightarrow> nat" where
  "pendingCount r = length (rm_pending r)"

definition tradingEnabled :: "RiskManager \<Rightarrow> bool" where
  "tradingEnabled r = rm_trading_enabled r"

subsection \<open>Operations\<close>

definition risk_registerTicker :: "TickerId \<Rightarrow> RiskLimits \<Rightarrow> RiskManager \<Rightarrow> bool \<times> RiskManager" where
  "risk_registerTicker tid limits r =
     (if sint (max_abs_position limits) < 0 \<or> sint (max_order_notional limits) < 0 then (False, r)
      else if findTicker r tid \<noteq> None then (False, r)
      else if length (rm_tickers r) = rm_MaxTickers r then (False, r)
      else (True, r\<lparr>rm_tickers := rm_tickers r @ [\<lparr>tl_ticker_id = tid, tl_limits = limits\<rparr>]\<rparr>))"

definition disableTrading :: "RiskManager \<Rightarrow> RiskManager" where
  "disableTrading r = r\<lparr>rm_trading_enabled := False\<rparr>"

definition enableTrading :: "RiskManager \<Rightarrow> RiskManager" where
  "enableTrading r = r\<lparr>rm_trading_enabled := True\<rparr>"

definition canSubmit :: "RiskManager \<Rightarrow> OrderRequest \<Rightarrow> Position \<Rightarrow> RiskResult" where
  "canSubmit r request position =
     (if \<not> rm_trading_enabled r then TRADING_DISABLED
      else if rq_type request \<noteq> RQ_NEW \<or> rq_client_order_id request = 0 \<or>
              rq_ticker_id request = TickerId_INVALID \<or> rq_price request = Price_INVALID \<or>
              sint (rq_price request) < 0 \<or> rq_qty request = 0 then INVALID_REQUEST
      else case findTicker r (rq_ticker_id request) of
        None \<Rightarrow> UNKNOWN_TICKER
      | Some ticker \<Rightarrow>
          if findPending r (rq_client_order_id request) \<noteq> None then DUPLICATE_ORDER
          else if length (rm_pending r) = rm_MaxPendingOrders r then PENDING_CAPACITY_EXCEEDED
          else if max_order_qty (tl_limits ticker) < rq_qty request then ORDER_QTY_EXCEEDED
          else
            let notional = sint (rq_price request) * uint (rq_qty request) in
            if sint (max_order_notional (tl_limits ticker)) < notional then ORDER_NOTIONAL_EXCEEDED
            else
              let projected = sint (net_qty position) + sint (pendingExposure r (rq_ticker_id request))
                              + signed_qty (rq_side request) (rq_qty request);
                  max_position = sint (max_abs_position (tl_limits ticker))
              in if projected < - max_position \<or> max_position < projected then POSITION_LIMIT_EXCEEDED
                 else RISK_ACCEPTED)"

definition onSubmitted :: "OrderRequest \<Rightarrow> RiskManager \<Rightarrow> bool \<times> RiskManager" where
  "onSubmitted request r =
     (if findPending r (rq_client_order_id request) \<noteq> None \<or> length (rm_pending r) = rm_MaxPendingOrders r
      then (False, r)
      else (True, r\<lparr>rm_pending := rm_pending r @
              [\<lparr>po_client_order_id = rq_client_order_id request, po_ticker_id = rq_ticker_id request,
                po_side = rq_side request, po_reserved_qty = rq_qty request\<rparr>]\<rparr>))"

definition onReplaced :: "OrderId \<Rightarrow> OrderId \<Rightarrow> RiskManager \<Rightarrow> bool \<times> RiskManager" where
  "onReplaced old_id new_id r =
     (if new_id = 0 \<or> findPending r new_id \<noteq> None then (False, r)
      else let index = findPendingIndex r old_id in
        if index = rm_MaxPendingOrders r then (False, r)
        else (True, r\<lparr>rm_pending :=
               (rm_pending r)[index := (rm_pending r ! index)\<lparr>po_client_order_id := new_id\<rparr>]\<rparr>))"

text \<open>\<^verbatim>\<open>pending.reserved_qty -= q; if (pending.reserved_qty == 0) erasePending(index)\<close>\<close>

definition release :: "nat \<Rightarrow> Quantity \<Rightarrow> RiskManager \<Rightarrow> RiskManager" where
  "release index q r =
     (let p = (rm_pending r ! index)\<lparr>po_reserved_qty := po_reserved_qty (rm_pending r ! index) - q\<rparr>;
          r = r\<lparr>rm_pending := (rm_pending r)[index := p]\<rparr>
      in if po_reserved_qty p = 0 then erasePending index r else r)"

definition risk_onOrderResponse ::
    "OrderResponse \<Rightarrow> RiskManager \<Rightarrow> PnLTracker \<Rightarrow> bool \<times> RiskManager \<times> PnLTracker" where
  "risk_onOrderResponse response r pnl =
     (let index = findPendingIndex r (rs_client_order_id response) in
      if index = rm_MaxPendingOrders r then (False, r, pnl)
      else
        let pending = rm_pending r ! index in
        case rs_status response of
          ACCEPTED \<Rightarrow> (True, r, pnl)
        | CANCEL_REJECTED \<Rightarrow> (True, r, pnl)
        | EXECUTED \<Rightarrow>
            if rs_executed_qty response = 0 \<or> po_reserved_qty pending < rs_executed_qty response
            then (False, r, pnl)
            else
              (case pnl_onExecution (po_ticker_id pending) (po_side pending)
                      (rs_execution_price response) (rs_executed_qty response) pnl of
                 (False, pnl) \<Rightarrow> (False, r, pnl)
               | (True, pnl) \<Rightarrow> (True, release index (rs_executed_qty response) r, pnl))
        | CANCELED \<Rightarrow>
            if rs_canceled_qty response = 0 \<or> po_reserved_qty pending < rs_canceled_qty response
            then (False, r, pnl)
            else (True, release index (rs_canceled_qty response) r, pnl)
        | REJECTED \<Rightarrow> (True, erasePending index r, pnl))"

subsection \<open>Abstraction: reservations and exposure\<close>

definition reservations :: "RiskManager \<Rightarrow> OrderId \<rightharpoonup> PendingOrder" where
  "reservations r = keyed po_client_order_id (rm_pending r)"

definition exposure :: "RiskManager \<Rightarrow> TickerId \<Rightarrow> int" where
  "exposure r tid = sum_list (map (\<lambda>p. if po_ticker_id p = tid
     then signed_qty (po_side p) (po_reserved_qty p) else 0) (rm_pending r))"

definition side_exposure :: "Side \<Rightarrow> RiskManager \<Rightarrow> TickerId \<Rightarrow> int" where
  "side_exposure s r tid = sum_list (map (\<lambda>p. if po_ticker_id p = tid \<and> po_side p = s
     then uint (po_reserved_qty p) else 0) (rm_pending r))"

definition risk_inv :: "RiskManager \<Rightarrow> bool" where
  "risk_inv r \<longleftrightarrow>
     distinct (map po_client_order_id (rm_pending r)) \<and>
     length (rm_pending r) \<le> rm_MaxPendingOrders r \<and> int (rm_MaxPendingOrders r) < 2147483648 \<and>
     (\<forall>p \<in> set (rm_pending r). po_reserved_qty p \<noteq> 0) \<and>
     distinct (map tl_ticker_id (rm_tickers r)) \<and> length (rm_tickers r) \<le> rm_MaxTickers r \<and>
     (\<forall>t \<in> set (rm_tickers r). 0 \<le> sint (max_abs_position (tl_limits t)) \<and>
                               0 \<le> sint (max_order_notional (tl_limits t)))"

lemma risk_inv_distinct: "risk_inv r \<Longrightarrow> distinct (map po_client_order_id (rm_pending r))"
  by (simp add: risk_inv_def)

lemma risk_inv_init: "int mp < 2147483648 \<Longrightarrow> risk_inv (RiskManager_init mt mp)"
  by (simp add: risk_inv_def RiskManager_init_def)

subsection \<open>Lookups under the invariant\<close>

lemma findPendingIndex_found:
  assumes "findPendingIndex r oid \<noteq> rm_MaxPendingOrders r"
  shows "findPendingIndex r oid < length (rm_pending r)"
    and "po_client_order_id (rm_pending r ! findPendingIndex r oid) = oid"
    and "reservations r oid = Some (rm_pending r ! findPendingIndex r oid)"
proof -
  obtain i where i: "find_index (\<lambda>p. po_client_order_id p = oid) (rm_pending r) = Some i"
    using assms by (cases "find_index (\<lambda>p. po_client_order_id p = oid) (rm_pending r)")
      (simp_all add: findPendingIndex_def)
  then have "findPendingIndex r oid = i" by (simp add: findPendingIndex_def)
  then show "findPendingIndex r oid < length (rm_pending r)"
    and "po_client_order_id (rm_pending r ! findPendingIndex r oid) = oid"
    and "reservations r oid = Some (rm_pending r ! findPendingIndex r oid)"
    using find_index_length [OF i] find_index_holds [OF i] i by (simp_all add: reservations_def keyed_find)
qed

lemma findPendingIndex_absent:
  assumes "risk_inv r"
  shows "findPendingIndex r oid = rm_MaxPendingOrders r \<longleftrightarrow> reservations r oid = None"
proof (cases "find_index (\<lambda>p. po_client_order_id p = oid) (rm_pending r)")
  case (Some i)
  then have "i < rm_MaxPendingOrders r"
    using assms find_index_length [OF Some] by (simp add: risk_inv_def)
  with Some show ?thesis by (simp add: findPendingIndex_def reservations_def keyed_find)
qed (simp add: findPendingIndex_def reservations_def keyed_find)

lemma findPending_reservations:
  assumes "risk_inv r"
  shows "findPending r oid = reservations r oid"
proof (cases "findPendingIndex r oid = rm_MaxPendingOrders r")
  case True
  then show ?thesis using findPendingIndex_absent [OF assms] by (simp add: findPending_def)
next
  case False
  then show ?thesis using findPendingIndex_found(3) [OF False] by (simp add: findPending_def Let_def)
qed

lemma reservations_None: "reservations r oid = None \<longleftrightarrow> oid \<notin> po_client_order_id ` set (rm_pending r)"
  by (simp add: reservations_def keyed_None_iff)

lemma reservations_mem: "risk_inv r \<Longrightarrow> reservations r oid = Some p \<longleftrightarrow> p \<in> set (rm_pending r) \<and> po_client_order_id p = oid"
  by (simp add: reservations_def keyed_Some_iff risk_inv_distinct)

subsection \<open>The 64-bit exposure sum is exact\<close>

lemma exposure_foldl:
  assumes "\<bar>sint (e :: 64 word)\<bar> + 4294967296 * int (length ps) < 9223372036854775808"
  shows "sint (foldl (\<lambda>e p. if po_ticker_id p \<noteq> tid then e
            else e + i64 (signed_qty (po_side p) (po_reserved_qty p))) e ps) =
    sint e + sum_list (map (\<lambda>p. if po_ticker_id p = tid
            then signed_qty (po_side p) (po_reserved_qty p) else 0) ps)"
  using assms
proof (induction ps arbitrary: e)
  case (Cons p ps)
  let ?q = "signed_qty (po_side p) (po_reserved_qty p)"
  have q: "- 4294967296 < ?q" "?q < 4294967296"
    using signed_qty_bound [of "po_side p" "po_reserved_qty p"] by linarith+
  then have step: "sint (e + i64 ?q) = sint e + ?q"
    using Cons.prems by (subst sint_add64) (auto simp del: abs_signed_qty)
  show ?case
  proof (cases "po_ticker_id p = tid")
    case True
    have "\<bar>sint (e + i64 ?q)\<bar> + 4294967296 * int (length ps) < 9223372036854775808"
      unfolding step using Cons.prems q by simp
    from Cons.IH [OF this] True step show ?thesis by simp
  next
    case False
    have "\<bar>sint e\<bar> + 4294967296 * int (length ps) < 9223372036854775808" using Cons.prems by simp
    from Cons.IH [OF this] False show ?thesis by simp
  qed
qed simp

lemma pendingExposure_exact:
  assumes "risk_inv r"
  shows "sint (pendingExposure r tid) = exposure r tid"
proof -
  have "int (length (rm_pending r)) < 2147483648"
    using assms by (auto simp: risk_inv_def)
  then show ?thesis
    unfolding pendingExposure_def exposure_def by (subst exposure_foldl) auto
qed

lemma exposure_sides: "exposure r tid = side_exposure BUY r tid - side_exposure SELL r tid"
proof -
  have eq: "(\<lambda>p. if po_ticker_id p = tid then signed_qty (po_side p) (po_reserved_qty p) else 0) =
      (\<lambda>p. (if po_ticker_id p = tid \<and> po_side p = BUY then uint (po_reserved_qty p) else 0) -
           (if po_ticker_id p = tid \<and> po_side p = SELL then uint (po_reserved_qty p) else 0))"
    by (rule ext) (auto simp: signed_qty_def split: Side.split)
  show ?thesis unfolding exposure_def side_exposure_def eq by (simp only: sum_list_subtractf)
qed

lemma side_exposure_nonneg: "0 \<le> side_exposure s r tid"
  unfolding side_exposure_def by (rule sum_list_nonneg) auto

subsection \<open>Releasing and erasing reservations\<close>

definition reduced :: "PendingOrder \<Rightarrow> Quantity \<Rightarrow> PendingOrder" where
  "reduced p q = p\<lparr>po_reserved_qty := po_reserved_qty p - q\<rparr>"

lemma reduced_simps [simp]:
  "po_client_order_id (reduced p q) = po_client_order_id p" "po_ticker_id (reduced p q) = po_ticker_id p"
  "po_side (reduced p q) = po_side p" "po_reserved_qty (reduced p q) = po_reserved_qty p - q"
  by (simp_all add: reduced_def)

lemma release_pending:
  assumes "i < length (rm_pending r)"
  shows "rm_pending (release i q r) =
    (if po_reserved_qty (rm_pending r ! i) = q
     then swap_erase i ((rm_pending r)[i := reduced (rm_pending r ! i) q])
     else (rm_pending r)[i := reduced (rm_pending r ! i) q])"
  by (simp add: release_def Let_def erasePending_def reduced_def)

lemma release_frame [simp]:
  "rm_tickers (release i q r) = rm_tickers r" "rm_MaxTickers (release i q r) = rm_MaxTickers r"
  "rm_MaxPendingOrders (release i q r) = rm_MaxPendingOrders r"
  "rm_trading_enabled (release i q r) = rm_trading_enabled r"
  by (simp_all add: release_def Let_def erasePending_def)

lemma release_sum:
  fixes w :: "PendingOrder \<Rightarrow> int"
  assumes i: "i < length (rm_pending r)" and w0: "\<And>p. po_reserved_qty p = 0 \<Longrightarrow> w p = 0"
  shows "sum_list (map w (rm_pending (release i q r))) =
    sum_list (map w (rm_pending r)) - w (rm_pending r ! i) + w (reduced (rm_pending r ! i) q)"
  using i w0 [of "reduced (rm_pending r ! i) q"]
  by (auto simp: release_pending sum_list_update_int sum_list_swap_erase)

lemma uint_minus_le: "q \<le> a \<Longrightarrow> uint (a - q) = uint a - uint q" for a q :: Quantity
  by (simp add: uint_minus_simple_alt)

lemma side_exposure_release:
  assumes "i < length (rm_pending r)" and "q \<le> po_reserved_qty (rm_pending r ! i)"
  shows "side_exposure s (release i q r) tid = side_exposure s r tid -
    (if po_ticker_id (rm_pending r ! i) = tid \<and> po_side (rm_pending r ! i) = s then uint q else 0)"
  unfolding side_exposure_def using assms by (subst release_sum) (auto simp: uint_minus_le)

lemma side_exposure_erase:
  assumes "i < length (rm_pending r)"
  shows "side_exposure s (erasePending i r) tid = side_exposure s r tid -
    (if po_ticker_id (rm_pending r ! i) = tid \<and> po_side (rm_pending r ! i) = s
     then uint (po_reserved_qty (rm_pending r ! i)) else 0)"
  using assms by (simp add: side_exposure_def erasePending_def sum_list_swap_erase)

lemma reservations_erase:
  assumes "risk_inv r" and "i < length (rm_pending r)"
  shows "reservations (erasePending i r) = (reservations r)(po_client_order_id (rm_pending r ! i) := None)"
  using assms by (simp add: reservations_def erasePending_def keyed_swap_erase risk_inv_distinct)

lemma reservations_release:
  assumes inv: "risk_inv r" and i: "i < length (rm_pending r)"
  shows "reservations (release i q r) = (reservations r)(po_client_order_id (rm_pending r ! i) :=
    if po_reserved_qty (rm_pending r ! i) = q then None else Some (reduced (rm_pending r ! i) q))"
proof -
  let ?ps = "(rm_pending r)[i := reduced (rm_pending r ! i) q]"
  have d: "distinct (map po_client_order_id ?ps)"
    using inv i by (simp add: risk_inv_distinct map_update_same)
  have "keyed po_client_order_id ?ps = (reservations r)(po_client_order_id (rm_pending r ! i) \<mapsto>
      reduced (rm_pending r ! i) q)"
    using inv i by (simp add: keyed_update risk_inv_distinct reservations_def)
  then show ?thesis
    using keyed_swap_erase [OF d, of i] i by (simp add: reservations_def release_pending)
qed

lemma risk_inv_erase:
  assumes "risk_inv r" and "i < length (rm_pending r)"
  shows "risk_inv (erasePending i r)"
  using assms set_swap_erase_subset [OF assms(2)]
  by (auto simp: risk_inv_def erasePending_def distinct_swap_erase length_swap_erase)

lemma risk_inv_release:
  assumes inv: "risk_inv r" and i: "i < length (rm_pending r)"
  shows "risk_inv (release i q r)"
proof -
  let ?ps = "(rm_pending r)[i := reduced (rm_pending r ! i) q]"
  have d: "distinct (map po_client_order_id ?ps)"
    using inv i by (simp add: risk_inv_distinct map_update_same)
  have sub: "set ?ps \<subseteq> insert (reduced (rm_pending r ! i) q) (set (rm_pending r))"
    by (rule set_update_subset_insert)
  have erased: "set (swap_erase i ?ps) \<subseteq> set (rm_pending r)"
  proof -
    have "distinct ?ps" using d by (simp add: distinct_map)
    then have "set (swap_erase i ?ps) = set ?ps - {reduced (rm_pending r ! i) q}"
      using i by (simp add: set_swap_erase)
    with sub show ?thesis by blast
  qed
  show ?thesis
  proof (cases "po_reserved_qty (rm_pending r ! i) = q")
    case True
    with inv i d erased show ?thesis
      by (auto simp: risk_inv_def release_pending distinct_swap_erase length_swap_erase)
  next
    case False
    with inv i d sub show ?thesis
      by (auto simp: risk_inv_def release_pending)
  qed
qed

subsection \<open>Responses\<close>

lemma respond_False: "risk_onOrderResponse rs r t = (False, r', t') \<Longrightarrow> r' = r \<and> t' = t"
  by (auto simp: risk_onOrderResponse_def Let_def dest: onExecution_False
      split: if_splits OrderResponseStatus.splits prod.splits bool.splits)

lemma respond_True:
  assumes "risk_onOrderResponse rs r t = (True, r', t')"
  obtains i where "i < length (rm_pending r)"
    and "po_client_order_id (rm_pending r ! i) = rs_client_order_id rs"
    and "reservations r (rs_client_order_id rs) = Some (rm_pending r ! i)"
    and "rs_status rs \<in> {ACCEPTED, CANCEL_REJECTED} \<Longrightarrow> r' = r \<and> t' = t"
    and "rs_status rs = EXECUTED \<Longrightarrow> rs_executed_qty rs \<noteq> 0 \<and>
      rs_executed_qty rs \<le> po_reserved_qty (rm_pending r ! i) \<and>
      pnl_onExecution (po_ticker_id (rm_pending r ! i)) (po_side (rm_pending r ! i))
        (rs_execution_price rs) (rs_executed_qty rs) t = (True, t') \<and>
      r' = release i (rs_executed_qty rs) r"
    and "rs_status rs = CANCELED \<Longrightarrow> rs_canceled_qty rs \<noteq> 0 \<and>
      rs_canceled_qty rs \<le> po_reserved_qty (rm_pending r ! i) \<and>
      r' = release i (rs_canceled_qty rs) r \<and> t' = t"
    and "rs_status rs = REJECTED \<Longrightarrow> r' = erasePending i r \<and> t' = t"
proof -
  let ?i = "findPendingIndex r (rs_client_order_id rs)"
  have found: "?i \<noteq> rm_MaxPendingOrders r"
    using assms by (auto simp: risk_onOrderResponse_def)
  show thesis
    by (rule that [of ?i]; (rule findPendingIndex_found [OF found])?)
      (use assms found in \<open>auto simp: risk_onOrderResponse_def Let_def not_less
        split: if_splits prod.splits bool.splits\<close>)
qed

lemma risk_inv_respond:
  assumes inv: "risk_inv r" and rs: "risk_onOrderResponse rs r t = (ok, r', t')"
  shows "risk_inv r'"
proof (cases ok)
  case True
  with rs have "risk_onOrderResponse rs r t = (True, r', t')" by simp
  then show ?thesis
    by (rule respond_True) (cases "rs_status rs"; use inv in \<open>simp add: risk_inv_release risk_inv_erase\<close>)
next
  case False
  with rs inv show ?thesis using respond_False [of rs r t r' t'] by simp
qed

text \<open>What a handled response does to the reservations, as a function on the abstract map.\<close>

definition reservations_after :: "OrderResponse \<Rightarrow> PendingOrder \<Rightarrow> PendingOrder option" where
  "reservations_after rs p = (case rs_status rs of
       ACCEPTED \<Rightarrow> Some p
     | CANCEL_REJECTED \<Rightarrow> Some p
     | EXECUTED \<Rightarrow> if po_reserved_qty p = rs_executed_qty rs then None
                   else Some (reduced p (rs_executed_qty rs))
     | CANCELED \<Rightarrow> if po_reserved_qty p = rs_canceled_qty rs then None
                   else Some (reduced p (rs_canceled_qty rs))
     | REJECTED \<Rightarrow> None)"

lemma respond_reservations:
  assumes inv: "risk_inv r" and rs: "risk_onOrderResponse rs r t = (True, r', t')"
  shows "\<exists>p. reservations r (rs_client_order_id rs) = Some p \<and>
    reservations r' = (reservations r)(rs_client_order_id rs := reservations_after rs p)"
proof -
  from rs obtain i where i: "i < length (rm_pending r)"
      "po_client_order_id (rm_pending r ! i) = rs_client_order_id rs"
      "reservations r (rs_client_order_id rs) = Some (rm_pending r ! i)"
    and eff: "rs_status rs \<in> {ACCEPTED, CANCEL_REJECTED} \<Longrightarrow> r' = r"
      "rs_status rs = EXECUTED \<Longrightarrow> r' = release i (rs_executed_qty rs) r"
      "rs_status rs = CANCELED \<Longrightarrow> r' = release i (rs_canceled_qty rs) r"
      "rs_status rs = REJECTED \<Longrightarrow> r' = erasePending i r"
    by (rule respond_True) blast
  have "reservations r' = (reservations r)(rs_client_order_id rs := reservations_after rs (rm_pending r ! i))"
    using i eff by (cases "rs_status rs")
      (auto simp: reservations_after_def reservations_release [OF inv i(1)] reservations_erase [OF inv i(1)]
        fun_upd_idem)
  with i show ?thesis by blast
qed

subsection \<open>Submissions\<close>

definition pending_of :: "OrderRequest \<Rightarrow> PendingOrder" where
  "pending_of rq = \<lparr>po_client_order_id = rq_client_order_id rq, po_ticker_id = rq_ticker_id rq,
     po_side = rq_side rq, po_reserved_qty = rq_qty rq\<rparr>"

lemma canSubmit_accepted:
  assumes "canSubmit r rq p = RISK_ACCEPTED"
  obtains tl where "findTicker r (rq_ticker_id rq) = Some tl" and "rm_trading_enabled r"
    and "rq_type rq = RQ_NEW" and "rq_client_order_id rq \<noteq> 0" and "0 \<le> sint (rq_price rq)"
    and "rq_qty rq \<noteq> 0" and "findPending r (rq_client_order_id rq) = None"
    and "length (rm_pending r) \<noteq> rm_MaxPendingOrders r"
    and "rq_qty rq \<le> max_order_qty (tl_limits tl)"
    and "sint (rq_price rq) * uint (rq_qty rq) \<le> sint (max_order_notional (tl_limits tl))"
    and "\<bar>sint (net_qty p) + sint (pendingExposure r (rq_ticker_id rq)) + signed_qty (rq_side rq) (rq_qty rq)\<bar>
      \<le> sint (max_abs_position (tl_limits tl))"
  using assms
  by (auto simp: canSubmit_def Let_def not_less abs_le_iff split: if_splits option.splits)

lemma canSubmit_onSubmitted:
  assumes "canSubmit r rq p = RISK_ACCEPTED"
  shows "onSubmitted rq r = (True, r\<lparr>rm_pending := rm_pending r @ [pending_of rq]\<rparr>)"
  using assms by (rule canSubmit_accepted) (simp add: onSubmitted_def pending_of_def)

lemma risk_inv_submit:
  assumes inv: "risk_inv r" and acc: "canSubmit r rq p = RISK_ACCEPTED"
  shows "risk_inv (r\<lparr>rm_pending := rm_pending r @ [pending_of rq]\<rparr>)"
    and "reservations (r\<lparr>rm_pending := rm_pending r @ [pending_of rq]\<rparr>) =
      (reservations r)(rq_client_order_id rq \<mapsto> pending_of rq)"
    and "reservations r (rq_client_order_id rq) = None"
proof -
  from acc have new: "findPending r (rq_client_order_id rq) = None" "rq_qty rq \<noteq> 0"
      "length (rm_pending r) \<noteq> rm_MaxPendingOrders r"
    by (auto elim: canSubmit_accepted)
  then have fresh: "po_client_order_id (pending_of rq) \<notin> po_client_order_id ` set (rm_pending r)"
    using inv by (simp add: findPending_reservations reservations_None pending_of_def)
  show "risk_inv (r\<lparr>rm_pending := rm_pending r @ [pending_of rq]\<rparr>)"
    using inv new fresh by (auto simp: risk_inv_def pending_of_def)
  show "reservations (r\<lparr>rm_pending := rm_pending r @ [pending_of rq]\<rparr>) =
      (reservations r)(rq_client_order_id rq \<mapsto> pending_of rq)"
    using inv fresh by (simp add: reservations_def keyed_append risk_inv_distinct) (simp add: pending_of_def)
  show "reservations r (rq_client_order_id rq) = None"
    using inv new by (simp add: findPending_reservations)
qed

lemma side_exposure_submit:
  "side_exposure s (r\<lparr>rm_pending := rm_pending r @ [pending_of rq]\<rparr>) tid = side_exposure s r tid +
    (if rq_ticker_id rq = tid \<and> rq_side rq = s then uint (rq_qty rq) else 0)"
  by (simp add: side_exposure_def pending_of_def)

subsection \<open>Replacements\<close>

lemma onReplaced_False: "onReplaced old new r = (False, r') \<Longrightarrow> r' = r"
  by (auto simp: onReplaced_def Let_def split: if_splits)

lemma onReplaced_True:
  assumes inv: "risk_inv r" and rep: "onReplaced old new r = (True, r')"
  shows "\<exists>p. reservations r old = Some p \<and> reservations r new = None \<and> new \<noteq> 0 \<and>
      reservations r' = (reservations r)(old := None, new \<mapsto> p\<lparr>po_client_order_id := new\<rparr>)"
    and "risk_inv r'" and "side_exposure s r' tid = side_exposure s r tid"
    and "rm_tickers r' = rm_tickers r" and "rm_trading_enabled r' = rm_trading_enabled r"
proof -
  let ?i = "findPendingIndex r old"
  let ?q = "(rm_pending r ! ?i)\<lparr>po_client_order_id := new\<rparr>"
  have new: "new \<noteq> 0" "reservations r new = None" and i: "?i \<noteq> rm_MaxPendingOrders r"
    and r': "r' = r\<lparr>rm_pending := (rm_pending r)[?i := ?q]\<rparr>"
    using rep inv by (auto simp: onReplaced_def Let_def findPending_reservations split: if_splits)
  note found = findPendingIndex_found [OF i]
  have fresh: "po_client_order_id ?q \<notin> po_client_order_id ` set (rm_pending r)"
    using new(2) by (simp add: reservations_None)
  have d: "distinct (map po_client_order_id (rm_pending r))" using inv by (rule risk_inv_distinct)
  show "\<exists>p. reservations r old = Some p \<and> reservations r new = None \<and> new \<noteq> 0 \<and>
      reservations r' = (reservations r)(old := None, new \<mapsto> p\<lparr>po_client_order_id := new\<rparr>)"
    using keyed_update [OF d found(1), of ?q] fresh found new
    by (intro exI [of _ "rm_pending r ! ?i"]) (simp add: r' reservations_def)
  have "distinct (map po_client_order_id ((rm_pending r)[?i := ?q]))"
    using distinct_update_key [OF d found(1), of ?q] fresh by simp
  moreover have "set ((rm_pending r)[?i := ?q]) \<subseteq> insert ?q (set (rm_pending r))"
    by (rule set_update_subset_insert)
  moreover have "po_reserved_qty (rm_pending r ! ?i) \<noteq> 0"
    using inv found(1) by (simp add: risk_inv_def)
  ultimately show "risk_inv r'" using inv by (auto simp: risk_inv_def r')
  show "side_exposure s r' tid = side_exposure s r tid"
    using found(1) by (simp add: side_exposure_def r' sum_list_update_int)
qed (use rep in \<open>auto simp: onReplaced_def Let_def split: if_splits\<close>)

lemma risk_inv_replaced: "risk_inv r \<Longrightarrow> risk_inv (snd (onReplaced old new r))"
  using onReplaced_True(2) [of r old new] onReplaced_False [of old new r]
  by (cases "onReplaced old new r") (metis (full_types) snd_conv)

lemma risk_inv_register: "risk_inv r \<Longrightarrow> risk_inv (snd (risk_registerTicker tid l r))"
  by (auto simp: risk_inv_def risk_registerTicker_def findTicker_def find_index_None)

subsection \<open>The position limit\<close>

text \<open>
  The limit that matters counts each side alone: whatever subset of the pending orders executes, the
  position stays within \<open>m\<close> when the position plus all pending buys and the position minus all pending
  sells do.
\<close>

definition within_limit :: "RiskManager \<Rightarrow> PnLTracker \<Rightarrow> TickerId \<Rightarrow> int \<Rightarrow> bool" where
  "within_limit r t tid m \<longleftrightarrow>
     (case pnl_get t tid of None \<Rightarrow> False
      | Some p \<Rightarrow> sint (net_qty p) + side_exposure BUY r tid \<le> m \<and>
                  - m \<le> sint (net_qty p) - side_exposure SELL r tid)"

lemma within_limit_position:
  assumes "within_limit r t tid m" and "pnl_get t tid = Some p"
  shows "\<bar>sint (net_qty p)\<bar> \<le> m"
proof -
  have "0 \<le> side_exposure BUY r tid" "0 \<le> side_exposure SELL r tid"
    by (rule side_exposure_nonneg)+
  with assms show ?thesis by (auto simp: within_limit_def)
qed

lemma within_limit_room:
  assumes "within_limit r t tid m" and "pnl_get t tid = Some p" and "m < 2 ^ 62"
  shows "net_room p q"
  using within_limit_position [OF assms(1,2)] assms(3) uint32_bounds(2) [of q]
  by (simp add: net_room_def)

lemma onExecution_net:
  assumes "pnl_onExecution tid side price qty t = (True, t')"
    and "pnl_get t tid = Some p" and "net_room p qty"
  shows "\<exists>p'. pnl_get t' tid = Some p' \<and> sint (net_qty p') = sint (net_qty p) + signed_qty side qty"
proof -
  obtain p' where p': "pnl_get t' tid = Some p'"
    and l: "ledger_of p' = ledger_execute (ledger_of p) (signed_qty side qty) (sint price)"
    using onExecution_ledger [OF assms] by blast
  have "fst (ledger_execute (ledger_of p) (signed_qty side qty) (sint price)) = sint (net_qty p) + signed_qty side qty"
    unfolding ledger_of_def by (rule ledger_execute_net)
  then have "fst (ledger_of p') = sint (net_qty p) + signed_qty side qty" by (simp only: l)
  with p' show ?thesis by (simp add: ledger_of_def)
qed

text \<open>An execution moves quantity from the reservation into the position.\<close>

lemma respond_executed:
  assumes inv: "risk_inv r" and rs: "risk_onOrderResponse rs r t = (True, r', t')"
    and st: "rs_status rs = EXECUTED"
    and p: "pnl_get t tid = Some p" and room: "net_room p (rs_executed_qty rs)"
  obtains p' d where "pnl_get t' tid = Some p'" and "0 \<le> d"
    and "(sint (net_qty p') = sint (net_qty p) + d \<and> side_exposure BUY r' tid = side_exposure BUY r tid - d \<and>
          side_exposure SELL r' tid = side_exposure SELL r tid) \<or>
         (sint (net_qty p') = sint (net_qty p) - d \<and> side_exposure SELL r' tid = side_exposure SELL r tid - d \<and>
          side_exposure BUY r' tid = side_exposure BUY r tid)"
proof -
  from rs st obtain i where i: "i < length (rm_pending r)"
      "rs_executed_qty rs \<le> po_reserved_qty (rm_pending r ! i)"
    and ex: "pnl_onExecution (po_ticker_id (rm_pending r ! i)) (po_side (rm_pending r ! i))
        (rs_execution_price rs) (rs_executed_qty rs) t = (True, t')"
    and r': "r' = release i (rs_executed_qty rs) r"
    by (auto elim: respond_True)
  note side = side_exposure_release [OF i, folded r']
  show thesis
  proof (cases "po_ticker_id (rm_pending r ! i) = tid")
    case True
    then obtain p' where p': "pnl_get t' tid = Some p'"
      "sint (net_qty p') = sint (net_qty p) + signed_qty (po_side (rm_pending r ! i)) (rs_executed_qty rs)"
      using onExecution_net [OF ex _ room] p by auto
    have "0 \<le> uint (rs_executed_qty rs)" by simp
    with p'(1) show thesis
    proof (rule that)
      show "(sint (net_qty p') = sint (net_qty p) + uint (rs_executed_qty rs) \<and>
          side_exposure BUY r' tid = side_exposure BUY r tid - uint (rs_executed_qty rs) \<and>
          side_exposure SELL r' tid = side_exposure SELL r tid) \<or>
         (sint (net_qty p') = sint (net_qty p) - uint (rs_executed_qty rs) \<and>
          side_exposure SELL r' tid = side_exposure SELL r tid - uint (rs_executed_qty rs) \<and>
          side_exposure BUY r' tid = side_exposure BUY r tid)"
        using True p'(2) side [of BUY tid] side [of SELL tid] by (cases "po_side (rm_pending r ! i)") simp_all
    qed
  next
    case False
    then have "pnl_get t' tid = Some p"
      using onExecution_other [of tid "po_ticker_id (rm_pending r ! i)" "po_side (rm_pending r ! i)"
          "rs_execution_price rs" "rs_executed_qty rs" t] ex p by simp
    from that [OF this order_refl] show thesis
      using False side [of BUY tid] side [of SELL tid] by simp
  qed
qed

lemma respond_within_limit:
  assumes inv: "risk_inv r" and lim: "within_limit r t tid m" and m: "m < 2 ^ 62"
    and rs: "risk_onOrderResponse rs r t = (ok, r', t')"
  shows "within_limit r' t' tid m"
proof (cases ok)
  case False
  with rs lim show ?thesis using respond_False [of rs r t r' t'] by simp
next
  case True
  with rs have rs: "risk_onOrderResponse rs r t = (True, r', t')" by simp
  obtain p where p: "pnl_get t tid = Some p" using lim by (auto simp: within_limit_def split: option.splits)
  show ?thesis
  proof (cases "rs_status rs = EXECUTED")
    case True
    from respond_executed [OF inv rs True p within_limit_room [OF lim p m]]
    show ?thesis by cases (use lim p in \<open>auto simp: within_limit_def\<close>)
  next
    case False
    from rs obtain i where i: "i < length (rm_pending r)"
      and t': "t' = t" and r': "r' = r \<or> r' = erasePending i r \<or>
        (r' = release i (rs_canceled_qty rs) r \<and> rs_canceled_qty rs \<le> po_reserved_qty (rm_pending r ! i))"
      by (rule respond_True) (use False in \<open>cases "rs_status rs"; auto\<close>)
    then have "side_exposure s r' tid \<le> side_exposure s r tid" for s
      by (auto simp: side_exposure_erase side_exposure_release)
    from this [of BUY] this [of SELL] show ?thesis
      using lim p by (auto simp: within_limit_def t')
  qed
qed

text \<open>
  A submission keeps the limit when the other side of the ticker has nothing pending; the code nets
  the two sides (\<^verbatim>\<open>pendingExposure\<close>), so with both sides pending the check is too weak, as the last properties show.
\<close>

definition opposite :: "Side \<Rightarrow> Side" where
  "opposite s = (case s of BUY \<Rightarrow> SELL | SELL \<Rightarrow> BUY)"

lemma submit_within_limit:
  assumes inv: "risk_inv r" and lim: "within_limit r t tid m" and p: "pnl_get t tid = Some p"
    and acc: "canSubmit r rq p = RISK_ACCEPTED" and tid: "rq_ticker_id rq = tid"
    and tk: "findTicker r tid = Some tk" "sint (max_abs_position (tl_limits tk)) = m"
    and one: "side_exposure (opposite (rq_side rq)) r tid = 0"
  shows "within_limit (r\<lparr>rm_pending := rm_pending r @ [pending_of rq]\<rparr>) t tid m"
proof -
  from acc have "\<bar>sint (net_qty p) + exposure r tid + signed_qty (rq_side rq) (rq_qty rq)\<bar> \<le> m"
    by (rule canSubmit_accepted) (use tk tid pendingExposure_exact [OF inv] in simp)
  with lim p tid one show ?thesis
    by (cases "rq_side rq")
      (auto simp: within_limit_def side_exposure_submit exposure_sides opposite_def abs_le_iff)
qed

subsection \<open>Runs of the pre-trade check and the exchange\<close>

text \<open>
  The order path as a sequence of events: a request is checked against the current position and, when
  accepted, reserved (as \<^verbatim>\<open>OrderManager::sendNewOrder\<close> does); a response is handled.
\<close>

datatype risk_event = Submit OrderRequest | Respond OrderResponse

definition risk_step :: "risk_event \<Rightarrow> RiskManager \<times> PnLTracker \<Rightarrow> RiskManager \<times> PnLTracker" where
  "risk_step ev s = (case s of (r, t) \<Rightarrow> case ev of
       Submit rq \<Rightarrow>
         (case pnl_get t (rq_ticker_id rq) of
            None \<Rightarrow> (r, t)
          | Some p \<Rightarrow> if canSubmit r rq p = RISK_ACCEPTED then (snd (onSubmitted rq r), t) else (r, t))
     | Respond rs \<Rightarrow> snd (risk_onOrderResponse rs r t))"

fun risk_run :: "risk_event list \<Rightarrow> RiskManager \<times> PnLTracker \<Rightarrow> RiskManager \<times> PnLTracker" where
  "risk_run [] s = s"
| "risk_run (e # es) s = risk_run es (risk_step e s)"

text \<open>Every submission of the run finds nothing pending on the other side of its ticker.\<close>

fun one_sided :: "risk_event list \<Rightarrow> RiskManager \<times> PnLTracker \<Rightarrow> bool" where
  "one_sided [] s = True"
| "one_sided (e # es) s =
     ((case e of Submit rq \<Rightarrow> side_exposure (opposite (rq_side rq)) (fst s) (rq_ticker_id rq) = 0
       | Respond rs \<Rightarrow> True) \<and> one_sided es (risk_step e s))"

lemma findTicker_pending [simp]: "findTicker (r\<lparr>rm_pending := ps\<rparr>) tid = findTicker r tid"
  by (simp add: findTicker_def)

lemma findTicker_respond:
  assumes "risk_onOrderResponse rs r t = (ok, r', t')"
  shows "findTicker r' tid = findTicker r tid"
proof (cases ok)
  case True
  with assms have "risk_onOrderResponse rs r t = (True, r', t')" by simp
  then have "rm_tickers r' = rm_tickers r"
    by (rule respond_True) (cases "rs_status rs"; simp add: erasePending_def)
  then show ?thesis by (simp add: findTicker_def)
qed (use assms respond_False in fastforce)

definition limit_inv :: "TickerId \<Rightarrow> int \<Rightarrow> RiskManager \<times> PnLTracker \<Rightarrow> bool" where
  "limit_inv tid m s \<longleftrightarrow> risk_inv (fst s) \<and> within_limit (fst s) (snd s) tid m \<and>
     (\<exists>tk. findTicker (fst s) tid = Some tk \<and> sint (max_abs_position (tl_limits tk)) = m)"

lemma limit_inv_step:
  assumes inv: "limit_inv tid m (r, t)" and m: "m < 2 ^ 62"
    and one: "\<And>rq. e = Submit rq \<Longrightarrow> side_exposure (opposite (rq_side rq)) r (rq_ticker_id rq) = 0"
  shows "limit_inv tid m (risk_step e (r, t))"
proof (cases e)
  case (Respond rs)
  obtain ok r' t' where rs: "risk_onOrderResponse rs r t = (ok, r', t')" by (metis prod_cases3)
  with Respond inv show ?thesis
    using risk_inv_respond [OF _ rs] respond_within_limit [OF _ _ m rs] findTicker_respond [OF rs]
    by (simp add: limit_inv_def risk_step_def)
next
  case (Submit rq)
  show ?thesis
  proof (cases "\<exists>p. pnl_get t (rq_ticker_id rq) = Some p \<and> canSubmit r rq p = RISK_ACCEPTED")
    case True
    then obtain p where p: "pnl_get t (rq_ticker_id rq) = Some p" and acc: "canSubmit r rq p = RISK_ACCEPTED"
      by blast
    let ?r = "r\<lparr>rm_pending := rm_pending r @ [pending_of rq]\<rparr>"
    have step: "risk_step e (r, t) = (?r, t)"
      using p acc canSubmit_onSubmitted [OF acc] by (simp add: risk_step_def Submit)
    have "within_limit ?r t tid m"
    proof (cases "rq_ticker_id rq = tid")
      case True
      with inv p acc one [OF Submit] show ?thesis
        by (auto simp: limit_inv_def intro: submit_within_limit)
    next
      case False
      with inv show ?thesis
        by (auto simp: limit_inv_def within_limit_def side_exposure_submit split: option.splits)
    qed
    with inv step risk_inv_submit(1) [OF _ acc] show ?thesis by (simp add: limit_inv_def)
  next
    case False
    with inv show ?thesis by (auto simp: risk_step_def Submit split: option.splits)
  qed
qed

lemma limit_inv_run:
  assumes "limit_inv tid m s" and "m < 2 ^ 62" and "one_sided es s"
  shows "limit_inv tid m (risk_run es s)"
  using assms
proof (induction es arbitrary: s)
  case (Cons e es)
  obtain r t where s: "s = (r, t)" by (cases s)
  have "limit_inv tid m (risk_step e (r, t))"
    using Cons.prems s by (intro limit_inv_step) auto
  then show ?case using Cons s by simp
qed simp

subsection \<open>Properties\<close>

text \<open>
  C9.  The position limit holds along every run of submissions and exchange responses in which no
  submission finds orders pending on the other side of its ticker: starting within the limit, the
  position never exceeds \<^verbatim>\<open>max_abs_position\<close> in absolute value, in whatever order executions,
  cancellations, rejections and (re-checked) submissions arrive.
\<close>

theorem risk_run_respects_limit:
  assumes "limit_inv tid m s" and "m < 2 ^ 62" and "one_sided es s"
  shows "\<exists>p. pnl_get (snd (risk_run es s)) tid = Some p \<and> \<bar>sint (net_qty p)\<bar> \<le> m"
proof -
  have inv: "limit_inv tid m (risk_run es s)" using assms by (rule limit_inv_run)
  then obtain p where "pnl_get (snd (risk_run es s)) tid = Some p"
    by (auto simp: limit_inv_def within_limit_def split: option.splits)
  with inv show ?thesis by (auto simp: limit_inv_def intro: within_limit_position)
qed

text \<open>
  C30.  An execution only moves quantity from the reservation to the position: for every ticker, the
  projected position (net quantity plus signed pending exposure) that the pre-trade check bounds is
  the same before and after a handled execution.
\<close>

theorem execution_conserves_projection:
  assumes "risk_inv r" and "risk_onOrderResponse rs r t = (True, r', t')"
    and "rs_status rs = EXECUTED" and "pnl_get t tid = Some p" and "net_room p (rs_executed_qty rs)"
  shows "\<exists>p'. pnl_get t' tid = Some p' \<and>
    sint (net_qty p') + exposure r' tid = sint (net_qty p) + exposure r tid"
  using assms by (rule respond_executed) (auto simp: exposure_sides)

text \<open>
  C21.  The pending table with its swap-with-last erase implements a map from client order ids to
  reservations: a handled response changes exactly the reservation it names, by
  \<^const>\<open>reservations_after\<close>; an accepted request was not reserved before and adds exactly its own
  reservation; a successful replace moves one reservation to the new id unchanged.
\<close>

theorem pending_table_refines_map:
  assumes inv: "risk_inv r"
  shows "(risk_onOrderResponse rs r t = (True, r1, t1) \<longrightarrow>
      (\<exists>p. reservations r (rs_client_order_id rs) = Some p \<and>
        reservations r1 = (reservations r)(rs_client_order_id rs := reservations_after rs p))) \<and>
    (canSubmit r rq pos = RISK_ACCEPTED \<longrightarrow> reservations r (rq_client_order_id rq) = None \<and>
      (\<exists>r2. onSubmitted rq r = (True, r2) \<and>
        reservations r2 = (reservations r)(rq_client_order_id rq \<mapsto> pending_of rq))) \<and>
    (onReplaced old new r = (True, r3) \<longrightarrow>
      (\<exists>p. reservations r old = Some p \<and>
        reservations r3 = (reservations r)(old := None, new \<mapsto> p\<lparr>po_client_order_id := new\<rparr>)))"
  using respond_reservations [OF inv] risk_inv_submit(2,3) [OF inv] canSubmit_onSubmitted
    onReplaced_True(1) [OF inv, of old new r3]
  by blast

text \<open>The shipped limits, and a slot whose position is at the limit.\<close>

definition default_limits :: RiskLimits where
  "default_limits = \<lparr>max_abs_position = 100, max_order_qty = 10, max_order_notional = 100000000\<rparr>"

definition at_limit :: "RiskManager \<times> PnLTracker" where
  "at_limit = (\<lparr>rm_MaxTickers = 16, rm_MaxPendingOrders = 64,
       rm_tickers = [\<lparr>tl_ticker_id = 7, tl_limits = default_limits\<rparr>], rm_pending = [],
       rm_trading_enabled = True\<rparr>, long_100)"

definition ioc :: "OrderId \<Rightarrow> Side \<Rightarrow> Price \<Rightarrow> Quantity \<Rightarrow> OrderRequest" where
  "ioc oid side price qty = \<lparr>rq_type = RQ_NEW, rq_client_order_id = oid, rq_new_client_order_id = 0,
     rq_ticker_id = 7, rq_side = side, rq_price = price, rq_qty = qty, rq_ioc = True\<rparr>"

definition fill :: "OrderId \<Rightarrow> Price \<Rightarrow> Quantity \<Rightarrow> OrderResponse" where
  "fill oid price qty = OrderResponse_init\<lparr>rs_client_order_id := oid, rs_executed_qty := qty,
     rs_execution_price := price, rs_status := EXECUTED\<rparr>"

text \<open>
  The check nets the two sides of a ticker, so the limit can be exceeded: with the shipped
  configuration (position limit 100, order quantity 10) and a position of exactly 100, a sell of 10
  and then a buy of 10 are both accepted, and when the buy executes first the position is 110.
\<close>

theorem netting_exceeds_limit:
  "\<bar>sint (net_qty (en_position (hd (pt_entries (snd at_limit)))))\<bar> = 100 \<and>
   canSubmit (fst at_limit) (ioc 1 SELL 1000000 10) (en_position (hd (pt_entries (snd at_limit)))) = RISK_ACCEPTED \<and>
   map_option (\<lambda>p. sint (net_qty p)) (pnl_get (snd (risk_run
     [Submit (ioc 1 SELL 1000000 10), Submit (ioc 2 BUY 1000000 10), Respond (fill 2 1000000 10)] at_limit)) 7)
     = Some 110"
  by code_simp

text \<open>
  The risk manager's invariant (distinct pending ids, table within its capacity, no empty
  reservation, distinct tickers with non-negative limits) holds initially and is kept by registering
  a ticker, submitting an accepted request, replacing, and every response; a failed response changes
  neither the risk manager nor the PnL tracker.
\<close>

theorem risk_inv_preserved:
  assumes inv: "risk_inv r"
  shows "risk_inv (snd (risk_registerTicker tid lims r)) \<and>
    (canSubmit r rq p = RISK_ACCEPTED \<longrightarrow> risk_inv (snd (onSubmitted rq r))) \<and>
    risk_inv (snd (onReplaced old new r)) \<and>
    risk_inv (fst (snd (risk_onOrderResponse rs r t))) \<and>
    risk_inv (disableTrading r) \<and> risk_inv (enableTrading r) \<and>
    (fst (risk_onOrderResponse rs r t) \<or> snd (risk_onOrderResponse rs r t) = (r, t))"
proof -
  obtain ok r' t' where rs: "risk_onOrderResponse rs r t = (ok, r', t')" by (metis prod_cases3)
  then have "ok \<or> (r', t') = (r, t)" using respond_False by auto
  then show ?thesis
    using inv risk_inv_register risk_inv_replaced risk_inv_submit(1) [OF inv] canSubmit_onSubmitted
      risk_inv_respond [OF inv rs] rs
    by (auto simp: disableTrading_def enableTrading_def risk_inv_def [of "rm_trading_enabled_update _ _"] risk_inv_def [of r])
qed

text \<open>
  C31.  What acceptance means: under the invariant the check accepts a request exactly when trading is
  enabled, the request is a well-formed new order for a registered ticker under an unused id, the
  table has room, and quantity, notional and the exact projected position (no 64-bit wrap in the
  exposure sum) are within the ticker's limits.
\<close>

theorem canSubmit_accepts_iff:
  assumes inv: "risk_inv r"
  shows "canSubmit r rq p = RISK_ACCEPTED \<longleftrightarrow>
    rm_trading_enabled r \<and> rq_type rq = RQ_NEW \<and> rq_client_order_id rq \<noteq> 0 \<and>
    rq_ticker_id rq \<noteq> TickerId_INVALID \<and> 0 \<le> sint (rq_price rq) \<and> rq_qty rq \<noteq> 0 \<and>
    reservations r (rq_client_order_id rq) = None \<and> length (rm_pending r) < rm_MaxPendingOrders r \<and>
    (\<exists>tk. findTicker r (rq_ticker_id rq) = Some tk \<and>
      uint (rq_qty rq) \<le> uint (max_order_qty (tl_limits tk)) \<and>
      sint (rq_price rq) * uint (rq_qty rq) \<le> sint (max_order_notional (tl_limits tk)) \<and>
      \<bar>sint (net_qty p) + exposure r (rq_ticker_id rq) + signed_qty (rq_side rq) (rq_qty rq)\<bar>
        \<le> sint (max_abs_position (tl_limits tk)))"
proof -
  have "rq_price rq \<noteq> Price_INVALID" if "0 \<le> sint (rq_price rq)"
    using that by auto
  moreover have "length (rm_pending r) = rm_MaxPendingOrders r \<longleftrightarrow> \<not> length (rm_pending r) < rm_MaxPendingOrders r"
    using inv by (auto simp: risk_inv_def)
  ultimately show ?thesis
    using inv
    by (auto simp: canSubmit_def Let_def not_less word_less_def word_le_def abs_le_iff
        findPending_reservations pendingExposure_exact split: option.split if_splits)
qed

subsection \<open>Witnesses\<close>

definition sell_pending :: RiskManager where
  "sell_pending = (fst at_limit)\<lparr>rm_pending := [pending_of (ioc 1 SELL 1000000 10)]\<rparr>"

lemma at_limit_inv: "limit_inv 7 100 at_limit"
  unfolding limit_inv_def
proof (intro conjI)
  show "risk_inv (fst at_limit)" by code_simp
  show "within_limit (fst at_limit) (snd at_limit) 7 100" by code_simp
  show "\<exists>tk. findTicker (fst at_limit) 7 = Some tk \<and> sint (max_abs_position (tl_limits tk)) = 100"
    by (rule exI [of _ "\<lparr>tl_ticker_id = 7, tl_limits = default_limits\<rparr>"]) code_simp
qed

theorem risk_run_respects_limit_witness:
  "one_sided [Submit (ioc 1 SELL 1000000 10), Respond (fill 1 1000000 10), Submit (ioc 2 BUY 1000000 10)] at_limit \<and>
   (\<exists>p. pnl_get (snd (risk_run [Submit (ioc 1 SELL 1000000 10), Respond (fill 1 1000000 10),
     Submit (ioc 2 BUY 1000000 10)] at_limit)) 7 = Some p \<and> \<bar>sint (net_qty p)\<bar> \<le> 100)"
proof -
  have *: "one_sided [Submit (ioc 1 SELL 1000000 10), Respond (fill 1 1000000 10), Submit (ioc 2 BUY 1000000 10)] at_limit"
    by code_simp
  have "(100 :: int) < 2 ^ 62" by simp
  from * risk_run_respects_limit [OF at_limit_inv this *] show ?thesis by (rule conjI)
qed

lemma sell_pending_inv: "risk_inv sell_pending"
  by code_simp

lemma sell_pending_fill:
  "risk_onOrderResponse (fill 1 1010000 4) sell_pending long_100 =
     (True, fst (snd (risk_onOrderResponse (fill 1 1010000 4) sell_pending long_100)),
      snd (snd (risk_onOrderResponse (fill 1 1010000 4) sell_pending long_100)))"
  by code_simp

theorem execution_conserves_projection_witness:
  "\<exists>p'. pnl_get (snd (snd (risk_onOrderResponse (fill 1 1010000 4) sell_pending long_100))) 7 = Some p' \<and>
     sint (net_qty p') + exposure (fst (snd (risk_onOrderResponse (fill 1 1010000 4) sell_pending long_100))) 7
       = 100 + (- 10)"
proof -
  have *: "rs_status (fill 1 1010000 4) = EXECUTED" "pnl_get long_100 7 = Some (en_position (hd (pt_entries long_100)))"
    "net_room (en_position (hd (pt_entries long_100))) (rs_executed_qty (fill 1 1010000 4))"
    by code_simp+
  have "sint (net_qty (en_position (hd (pt_entries long_100)))) = 100" "exposure sell_pending 7 = - 10"
    by code_simp+
  then show ?thesis
    using execution_conserves_projection [OF sell_pending_inv sell_pending_fill *] by simp
qed

theorem pending_table_refines_map_witness:
  "\<exists>p. reservations sell_pending 1 = Some p \<and>
     reservations (fst (snd (risk_onOrderResponse (fill 1 1010000 4) sell_pending long_100))) =
       (reservations sell_pending)(1 := reservations_after (fill 1 1010000 4) p)"
proof -
  have "rs_client_order_id (fill 1 1010000 4) = 1" by code_simp
  then show ?thesis
    using pending_table_refines_map [OF sell_pending_inv, THEN conjunct1, rule_format, OF sell_pending_fill]
    by (simp only:)
qed

theorem risk_inv_preserved_witness:
  "risk_inv sell_pending \<and> risk_inv (fst (snd (risk_onOrderResponse (fill 1 1010000 4) sell_pending long_100)))"
  using sell_pending_inv
    risk_inv_preserved [OF sell_pending_inv, THEN conjunct2, THEN conjunct2, THEN conjunct2, THEN conjunct1]
  by (rule conjI)

theorem canSubmit_accepts_iff_witness:
  "risk_inv sell_pending \<and>
   canSubmit sell_pending (ioc 2 BUY 1000000 10) (en_position (hd (pt_entries long_100))) = RISK_ACCEPTED \<and>
   \<bar>sint (net_qty (en_position (hd (pt_entries long_100)))) + exposure sell_pending 7 + signed_qty BUY 10\<bar> \<le> 100"
proof -
  have acc: "canSubmit sell_pending (ioc 2 BUY 1000000 10) (en_position (hd (pt_entries long_100))) = RISK_ACCEPTED"
    by code_simp
  have lim: "findTicker sell_pending 7 = Some \<lparr>tl_ticker_id = 7, tl_limits = default_limits\<rparr>"
    "sint (max_abs_position default_limits) = 100" by code_simp+
  have "rq_ticker_id (ioc 2 BUY 1000000 10) = 7" "rq_side (ioc 2 BUY 1000000 10) = BUY"
    "rq_qty (ioc 2 BUY 1000000 10) = 10" by code_simp+
  then show ?thesis
    using acc lim sell_pending_inv
      canSubmit_accepts_iff [OF sell_pending_inv, of "ioc 2 BUY 1000000 10" "en_position (hd (pt_entries long_100))"]
    by auto
qed

end
