(* ===== verification/Spsc_Queue.thy ===== *)
theory Spsc_Queue
  imports Prelude
begin

text \<open>
  The producer's side of \<^verbatim>\<open>quantlink::SPSCQueue\<close>, which belongs to the QuantLink submodule and is not
  under \<^verbatim>\<open>src/\<close>.  The queue is a parameter: \<open>q_accepts k\<close> is what the \<open>k\<close>-th call of \<^verbatim>\<open>push\<close> returns,
  an arbitrary function, since the consumer thread empties the ring concurrently.  The model records
  the calls and the elements of the accepted ones in order, which is all the code relies on: a call
  that returns false enqueues nothing, one that returns true enqueues its argument.

  The consumer's side needs no state: a drain loop \<^verbatim>\<open>while (q->pop(x))\<close> is a recursion over the list
  of elements that its \<^verbatim>\<open>pop\<close> calls return.
\<close>

record 'a SPSCQueue =
  q_accepts :: "nat \<Rightarrow> bool"
  q_attempts :: nat
  q_pushed :: "'a list"

definition push :: "'a \<Rightarrow> 'a SPSCQueue \<Rightarrow> bool \<times> 'a SPSCQueue" where
  "push x q =
     (if q_accepts q (q_attempts q)
      then (True, q\<lparr>q_attempts := Suc (q_attempts q), q_pushed := q_pushed q @ [x]\<rparr>)
      else (False, q\<lparr>q_attempts := Suc (q_attempts q)\<rparr>))"

text \<open>A queue that never fills, for closed examples.\<close>

definition roomy_queue :: "'a SPSCQueue" where
  "roomy_queue = \<lparr>q_accepts = (\<lambda>_. True), q_attempts = 0, q_pushed = []\<rparr>"

lemma push_True: "push x q = (True, q') \<Longrightarrow> q_pushed q' = q_pushed q @ [x] \<and> q_accepts q' = q_accepts q"
  by (auto simp: push_def split: if_splits)

lemma push_False: "push x q = (False, q') \<Longrightarrow> q_pushed q' = q_pushed q \<and> q_accepts q' = q_accepts q"
  by (auto simp: push_def split: if_splits)

end
