(* ===== verification/Order_Manager.thy ===== *)
theory Order_Manager
  imports Order_Id_Allocator Risk_Manager Spsc_Queue
begin

text \<open>
  The order life cycle of \<^verbatim>\<open>src/trading/order_manager.h\<close>.  \<^verbatim>\<open>OrderManager\<close> is a class template over
  its risk manager and PnL tracker; the model takes the operations it calls on them as a record of
  functions.  The pointers it holds are flags (non-null or not); what they point to is the context
  that every operation reads and returns: the risk manager, the PnL tracker, the outgoing queue, the
  shared id allocator, and the log of callback invocations.
\<close>

datatype OMOrderState = INVALID | NOT_ACTIVE | ACTIVE | PARTIALLY_FILLED | COMPLETED | CANCELLED | DEAD

record OMOrder =
  oo_request :: OrderRequest
  oo_state :: OMOrderState
  oo_is_cancel_requested :: bool
  oo_is_cancel_rejected :: bool
  oo_filled_qty :: Quantity
  oo_avg_fill_price :: Price

record ('r, 'p) RiskOps =
  ro_canSubmit :: "'r \<Rightarrow> OrderRequest \<Rightarrow> Position \<Rightarrow> RiskResult"
  ro_onSubmitted :: "OrderRequest \<Rightarrow> 'r \<Rightarrow> bool \<times> 'r"
  ro_onReplaced :: "OrderId \<Rightarrow> OrderId \<Rightarrow> 'r \<Rightarrow> bool \<times> 'r"
  ro_onOrderResponse :: "OrderResponse \<Rightarrow> 'r \<Rightarrow> 'p \<Rightarrow> bool \<times> 'r \<times> 'p"

text \<open>The instantiation of the template that the engine uses.\<close>

definition RiskManager_ops :: "(RiskManager, PnLTracker) RiskOps" where
  "RiskManager_ops = \<lparr>ro_canSubmit = canSubmit, ro_onSubmitted = onSubmitted,
     ro_onReplaced = onReplaced, ro_onOrderResponse = risk_onOrderResponse\<rparr>"

record OrderManager =
  om_MaxOrders :: nat
  om_orders :: "OMOrder list"
  om_new_orders :: nat
  om_replaces :: nat
  om_cancels :: nat
  om_fills :: nat
  om_filled_qty :: "64 word"
  om_rejected :: nat
  om_slot :: nat
  om_has_risk :: bool
  om_has_pnl :: bool
  om_has_outgoing :: bool
  om_has_allocator :: bool
  om_has_callback :: bool

record ('r, 'p) OmCtx =
  cx_om :: OrderManager
  cx_risk :: 'r
  cx_pnl :: 'p
  cx_outgoing :: "OrderRequest SPSCQueue"
  cx_allocator :: OrderIdAllocator
  cx_notified :: "OMOrder list"

definition OrderManager_init :: "nat \<Rightarrow> OrderManager" where
  "OrderManager_init n = \<lparr>om_MaxOrders = n, om_orders = [], om_new_orders = 0, om_replaces = 0,
     om_cancels = 0, om_fills = 0, om_filled_qty = 0, om_rejected = 0, om_slot = 0, om_has_risk = False,
     om_has_pnl = False, om_has_outgoing = False, om_has_allocator = False, om_has_callback = False\<rparr>"

definition initialize :: "bool \<Rightarrow> bool \<Rightarrow> bool \<Rightarrow> bool \<Rightarrow> nat \<Rightarrow> bool \<Rightarrow> OrderManager \<Rightarrow> OrderManager" where
  "initialize risk pnl outgoing allocator slot callback om =
     om\<lparr>om_has_risk := risk, om_has_pnl := pnl, om_has_outgoing := outgoing,
        om_has_allocator := allocator, om_slot := slot, om_has_callback := callback\<rparr>"

subsection \<open>Helpers\<close>

definition om_find :: "OrderManager \<Rightarrow> OrderId \<Rightarrow> nat option" where
  "om_find om oid = find_index (\<lambda>o'. rq_client_order_id (oo_request o') = oid) (om_orders om)"

definition om_get :: "OrderManager \<Rightarrow> OrderId \<Rightarrow> OMOrder option" where
  "om_get om oid = map_option (\<lambda>i. om_orders om ! i) (om_find om oid)"

definition finished :: "OMOrderState \<Rightarrow> bool" where
  "finished s \<longleftrightarrow> s = COMPLETED \<or> s = CANCELLED \<or> s = DEAD"

definition allocSlot :: "OrderManager \<Rightarrow> nat" where
  "allocSlot om = (case find_index (\<lambda>o'. finished (oo_state o')) (om_orders om) of
     Some i \<Rightarrow> i | None \<Rightarrow> length (om_orders om))"

definition put_order :: "nat \<Rightarrow> OMOrder \<Rightarrow> ('r, 'p) OmCtx \<Rightarrow> ('r, 'p) OmCtx" where
  "put_order i o' c = c\<lparr>cx_om := (cx_om c)\<lparr>om_orders := (om_orders (cx_om c))[i := o']\<rparr>\<rparr>"

definition notify :: "OMOrder \<Rightarrow> ('r, 'p) OmCtx \<Rightarrow> ('r, 'p) OmCtx" where
  "notify o' c = (if om_has_callback (cx_om c) then c\<lparr>cx_notified := cx_notified c @ [o']\<rparr> else c)"

definition activeCount :: "OrderManager \<Rightarrow> nat" where
  "activeCount om = length (filter (\<lambda>o'. oo_state o' = ACTIVE \<or> oo_state o' = PARTIALLY_FILLED \<or>
     oo_state o' = NOT_ACTIVE) (om_orders om))"

definition orderCount :: "OrderManager \<Rightarrow> nat" where
  "orderCount om = length (om_orders om)"

definition newOrderCount :: "OrderManager \<Rightarrow> nat" where
  "newOrderCount om = om_new_orders om"

definition replaceCount :: "OrderManager \<Rightarrow> nat" where
  "replaceCount om = om_replaces om"

definition cancelCount :: "OrderManager \<Rightarrow> nat" where
  "cancelCount om = om_cancels om"

definition fillCount :: "OrderManager \<Rightarrow> nat" where
  "fillCount om = om_fills om"

definition filledQty :: "OrderManager \<Rightarrow> 64 word" where
  "filledQty om = om_filled_qty om"

definition rejectCount :: "OrderManager \<Rightarrow> nat" where
  "rejectCount om = om_rejected om"

subsection \<open>Requests\<close>

definition sendNewOrder ::
    "('r, 'p) RiskOps \<Rightarrow> OrderRequest \<Rightarrow> Position \<Rightarrow> ('r, 'p) OmCtx \<Rightarrow> bool \<times> ('r, 'p) OmCtx" where
  "sendNewOrder ops request position c =
     (let om = cx_om c in
      if \<not> om_has_outgoing om \<or> \<not> om_has_risk om \<or> \<not> om_has_allocator om then (False, c)
      else let slot = allocSlot om in
      if slot = om_MaxOrders om then (False, c)
      else
        let (oid, al) = alloc_next (om_slot om) (cx_allocator c);
            rq = request\<lparr>rq_client_order_id := oid, rq_new_client_order_id := 0\<rparr>;
            c = c\<lparr>cx_allocator := al\<rparr>
        in if ro_canSubmit ops (cx_risk c) rq position \<noteq> RISK_ACCEPTED
           then (False, c\<lparr>cx_om := om\<lparr>om_rejected := om_rejected om + 1\<rparr>\<rparr>)
           else case push rq (cx_outgoing c) of
             (False, q) \<Rightarrow> (False, c\<lparr>cx_outgoing := q\<rparr>)
           | (True, q) \<Rightarrow>
               (case ro_onSubmitted ops rq (cx_risk c) of
                  (False, r) \<Rightarrow> (False, c\<lparr>cx_outgoing := q, cx_risk := r\<rparr>)
                | (True, r) \<Rightarrow>
                    let o' = \<lparr>oo_request = rq, oo_state = NOT_ACTIVE, oo_is_cancel_requested = False,
                              oo_is_cancel_rejected = False, oo_filled_qty = 0,
                              oo_avg_fill_price = Price_INVALID\<rparr>;
                        os = (if slot = length (om_orders om) then om_orders om @ [o']
                              else (om_orders om)[slot := o'])
                    in (True, notify o' (c\<lparr>cx_outgoing := q, cx_risk := r,
                          cx_om := om\<lparr>om_new_orders := om_new_orders om + 1, om_orders := os\<rparr>\<rparr>))))"

definition sendCancel :: "OrderId \<Rightarrow> Quantity \<Rightarrow> ('r, 'p) OmCtx \<Rightarrow> bool \<times> ('r, 'p) OmCtx" where
  "sendCancel oid qty c =
     (let om = cx_om c in
      case om_find om oid of
        None \<Rightarrow> (False, c)
      | Some i \<Rightarrow>
          let o' = om_orders om ! i in
          if finished (oo_state o') \<or> oo_is_cancel_requested o' then (False, c)
          else
            let cancel = \<lparr>rq_type = RQ_CANCEL, rq_client_order_id = oid, rq_new_client_order_id = 0,
                          rq_ticker_id = rq_ticker_id (oo_request o'), rq_side = rq_side (oo_request o'),
                          rq_price = rq_price (oo_request o'), rq_qty = qty, rq_ioc = rq_ioc (oo_request o')\<rparr>
            in if \<not> om_has_outgoing om then (False, c)
               else case push cancel (cx_outgoing c) of
                 (False, q) \<Rightarrow> (False, c\<lparr>cx_outgoing := q\<rparr>)
               | (True, q) \<Rightarrow>
                   (True, put_order i (o'\<lparr>oo_is_cancel_requested := True\<rparr>)
                     (c\<lparr>cx_outgoing := q, cx_om := om\<lparr>om_cancels := om_cancels om + 1\<rparr>\<rparr>)))"

definition sendReplace ::
    "('r, 'p) RiskOps \<Rightarrow> OrderId \<Rightarrow> Price \<Rightarrow> Quantity \<Rightarrow> ('r, 'p) OmCtx \<Rightarrow> bool \<times> ('r, 'p) OmCtx" where
  "sendReplace ops oid price qty c =
     (let om = cx_om c in
      case om_find om oid of
        None \<Rightarrow> (False, c)
      | Some i \<Rightarrow>
          let o' = om_orders om ! i in
          if finished (oo_state o') \<or> oo_is_cancel_requested o' \<or> \<not> om_has_outgoing om \<or> \<not> om_has_allocator om
          then (False, c)
          else
            let (new_id, al) = alloc_next (om_slot om) (cx_allocator c);
                c = c\<lparr>cx_allocator := al\<rparr>;
                replace = \<lparr>rq_type = RQ_REPLACE, rq_client_order_id = oid, rq_new_client_order_id = new_id,
                           rq_ticker_id = rq_ticker_id (oo_request o'), rq_side = rq_side (oo_request o'),
                           rq_price = price, rq_qty = qty, rq_ioc = rq_ioc (oo_request o')\<rparr>
            in case push replace (cx_outgoing c) of
                 (False, q) \<Rightarrow> (False, c\<lparr>cx_outgoing := q\<rparr>)
               | (True, q) \<Rightarrow>
                   let c = c\<lparr>cx_outgoing := q\<rparr> in
                   if \<not> om_has_risk om then (False, c)
                   else case ro_onReplaced ops oid new_id (cx_risk c) of
                     (False, r) \<Rightarrow> (False, c\<lparr>cx_risk := r\<rparr>)
                   | (True, r) \<Rightarrow>
                       (True, put_order i
                         (o'\<lparr>oo_request := replace\<lparr>rq_client_order_id := new_id, rq_new_client_order_id := 0\<rparr>\<rparr>)
                         (c\<lparr>cx_risk := r, cx_om := om\<lparr>om_replaces := om_replaces om + 1\<rparr>\<rparr>)))"

subsection \<open>Responses\<close>

text \<open>The order after an execution that the risk manager has accepted.\<close>

definition fill_order :: "OMOrder \<Rightarrow> OrderResponse \<Rightarrow> OMOrder" where
  "fill_order o' rs =
     (let new_filled = uint (oo_filled_qty o') + uint (rs_executed_qty rs);
          filled = i32 new_filled;
          avg = (if filled = rs_executed_qty rs then rs_execution_price rs
                 else i32 ((sint (oo_avg_fill_price o') * uint (filled - rs_executed_qty rs) +
                            sint (rs_execution_price rs) * uint (rs_executed_qty rs)) sdiv uint filled))
      in o'\<lparr>oo_filled_qty := filled, oo_avg_fill_price := avg,
            oo_state := (if filled = rq_qty (oo_request o') then COMPLETED else PARTIALLY_FILLED)\<rparr>)"

definition om_onOrderResponse ::
    "('r, 'p) RiskOps \<Rightarrow> OrderResponse \<Rightarrow> ('r, 'p) OmCtx \<Rightarrow> bool \<times> ('r, 'p) OmCtx" where
  "om_onOrderResponse ops rs c =
     (let om = cx_om c in
      case om_find om (rs_client_order_id rs) of
        None \<Rightarrow> (False, c)
      | Some i \<Rightarrow>
          let o' = om_orders om ! i in
          case rs_status rs of
            ACCEPTED \<Rightarrow>
              if oo_state o' = NOT_ACTIVE then
                let o' = o'\<lparr>oo_state := ACTIVE\<rparr> in (True, notify o' (put_order i o' c))
              else if oo_state o' \<noteq> ACTIVE \<and> oo_state o' \<noteq> PARTIALLY_FILLED then (False, c)
              else (True, notify o' c)
          | EXECUTED \<Rightarrow>
              if rs_executed_qty rs = 0 \<or> finished (oo_state o') then (False, c)
              else if uint (rq_qty (oo_request o')) < uint (oo_filled_qty o') + uint (rs_executed_qty rs)
              then (False, c)
              else
                let dead = (\<lambda>c. let o' = o'\<lparr>oo_state := DEAD\<rparr> in (False, notify o' (put_order i o' c))) in
                if \<not> om_has_risk om \<or> \<not> om_has_pnl om then dead c
                else (case ro_onOrderResponse ops rs (cx_risk c) (cx_pnl c) of
                        (False, r, p) \<Rightarrow> dead (c\<lparr>cx_risk := r, cx_pnl := p\<rparr>)
                      | (True, r, p) \<Rightarrow>
                          let o' = fill_order o' rs;
                              om = om\<lparr>om_fills := om_fills om + 1,
                                      om_filled_qty := om_filled_qty om + i64 (uint (rs_executed_qty rs))\<rparr>
                          in (True, notify o' (put_order i o' (c\<lparr>cx_risk := r, cx_pnl := p, cx_om := om\<rparr>))))
          | CANCELED \<Rightarrow>
              if oo_state o' = COMPLETED \<or> oo_state o' = DEAD then (False, c)
              else
                let done' = (\<lambda>c.
                      let o' = o'\<lparr>oo_is_cancel_requested := False,
                                oo_state := (if oo_filled_qty o' = rq_qty (oo_request o') then COMPLETED
                                             else CANCELLED)\<rparr>
                      in (True, notify o' (put_order i o' c)))
                in if rs_canceled_qty rs = 0 then done' c
                   else if \<not> om_has_risk om then (False, c)
                   else (case ro_onOrderResponse ops rs (cx_risk c) (cx_pnl c) of
                           (False, r, p) \<Rightarrow> (False, c\<lparr>cx_risk := r, cx_pnl := p\<rparr>)
                         | (True, r, p) \<Rightarrow> done' (c\<lparr>cx_risk := r, cx_pnl := p\<rparr>))
          | CANCEL_REJECTED \<Rightarrow>
              if oo_state o' = COMPLETED \<or> oo_state o' = DEAD then (False, c)
              else let o' = o'\<lparr>oo_is_cancel_requested := False, oo_is_cancel_rejected := True\<rparr>
                   in (True, notify o' (put_order i o' c))
          | REJECTED \<Rightarrow>
              if \<not> om_has_risk om then (False, c)
              else (case ro_onOrderResponse ops rs (cx_risk c) (cx_pnl c) of
                      (False, r, p) \<Rightarrow> (False, c\<lparr>cx_risk := r, cx_pnl := p\<rparr>)
                    | (True, r, p) \<Rightarrow>
                        let o' = o'\<lparr>oo_state := DEAD\<rparr>
                        in (True, notify o' (put_order i o'
                             (c\<lparr>cx_risk := r, cx_pnl := p, cx_om := om\<lparr>om_rejected := om_rejected om + 1\<rparr>\<rparr>)))))"

subsection \<open>Ids handed out by the shared allocator\<close>

definition issued :: "OrderIdAllocator \<Rightarrow> OrderId \<Rightarrow> bool" where
  "issued a oid \<longleftrightarrow> unat (take_bit 48 oid) < unat (counter a)"

text \<open>The counter has not used up its 48 bits (nor wrapped to 0).\<close>

definition ids_left :: "OrderIdAllocator \<Rightarrow> bool" where
  "ids_left a \<longleftrightarrow> 0 < unat (counter a) \<and> unat (counter a) < 281474976710656"

definition counter_ok :: "OrderIdAllocator \<Rightarrow> bool" where
  "counter_ok a \<longleftrightarrow> 0 < unat (counter a) \<and> unat (counter a) \<le> 281474976710656"

lemma ids_left_field: "ids_left a \<Longrightarrow> unat (take_bit 48 (fst (alloc_next s a))) = unat (counter a)"
  by (simp add: take_bit_alloc_next unat_counter_field ids_left_def)

lemma ids_left_counter: "ids_left a \<Longrightarrow> unat (counter (snd (alloc_next s a))) = unat (counter a) + 1"
  by (simp add: ids_left_def unat_word_ariths)

lemma alloc_next_fresh: "ids_left a \<Longrightarrow> \<not> issued a (fst (alloc_next s a))"
  by (simp add: issued_def ids_left_field)

lemma alloc_next_nonzero: "ids_left a \<Longrightarrow> fst (alloc_next s a) \<noteq> 0"
  using ids_left_field [of a s] by (auto simp: ids_left_def)

lemma alloc_next_issued: "ids_left a \<Longrightarrow> issued (snd (alloc_next s a)) (fst (alloc_next s a))"
  unfolding issued_def by (simp only: ids_left_field ids_left_counter)

lemma issued_mono: "ids_left a \<Longrightarrow> issued a i \<Longrightarrow> issued (snd (alloc_next s a)) i"
  unfolding issued_def by (simp only: ids_left_counter)

lemma counter_ok_next: "ids_left a \<Longrightarrow> counter_ok (snd (alloc_next s a))"
  unfolding counter_ok_def by (simp only: ids_left_counter) (simp add: ids_left_def)

lemma ids_left_ok: "ids_left a \<Longrightarrow> counter_ok a"
  by (simp add: ids_left_def counter_ok_def)

subsection \<open>The reservations that the recorded orders call for\<close>

abbreviation oid_of :: "OMOrder \<Rightarrow> OrderId" where
  "oid_of o' \<equiv> rq_client_order_id (oo_request o')"

definition order_ok :: "OMOrder \<Rightarrow> bool" where
  "order_ok o' \<longleftrightarrow> (let q = rq_qty (oo_request o'); f = oo_filled_qty o' in
     q \<noteq> 0 \<and> (case oo_state o' of
         INVALID \<Rightarrow> False
       | NOT_ACTIVE \<Rightarrow> f = 0
       | ACTIVE \<Rightarrow> f = 0
       | PARTIALLY_FILLED \<Rightarrow> f \<noteq> 0 \<and> f < q
       | COMPLETED \<Rightarrow> f = q
       | CANCELLED \<Rightarrow> f < q
       | DEAD \<Rightarrow> f < q))"

definition reservation_of :: "OMOrder \<Rightarrow> PendingOrder" where
  "reservation_of o' = \<lparr>po_client_order_id = oid_of o', po_ticker_id = rq_ticker_id (oo_request o'),
     po_side = rq_side (oo_request o'), po_reserved_qty = rq_qty (oo_request o') - oo_filled_qty o'\<rparr>"

definition order_reservation :: "OMOrder \<Rightarrow> PendingOrder option" where
  "order_reservation o' = (if finished (oo_state o') then None else Some (reservation_of o'))"

definition booked :: "OMOrder list \<Rightarrow> OrderId \<rightharpoonup> PendingOrder" where
  "booked os oid = Option.bind (keyed oid_of os oid) order_reservation"

definition om_core :: "('r \<Rightarrow> bool) \<Rightarrow> ('r \<Rightarrow> OrderId \<rightharpoonup> PendingOrder) \<Rightarrow> 'r \<Rightarrow> OMOrder list \<Rightarrow> nat \<Rightarrow>
    OrderIdAllocator \<Rightarrow> bool" where
  "om_core rinv resv r os n a \<longleftrightarrow>
     rinv r \<and> resv r = booked os \<and> distinct (map oid_of os) \<and>
     (\<forall>o' \<in> set os. order_ok o' \<and> issued a (oid_of o')) \<and> length os \<le> n \<and> counter_ok a"

definition om_inv :: "('r \<Rightarrow> bool) \<Rightarrow> ('r \<Rightarrow> OrderId \<rightharpoonup> PendingOrder) \<Rightarrow> ('r, 'p) OmCtx \<Rightarrow> bool" where
  "om_inv rinv resv c \<longleftrightarrow>
     om_core rinv resv (cx_risk c) (om_orders (cx_om c)) (om_MaxOrders (cx_om c)) (cx_allocator c) \<and>
     om_has_risk (cx_om c) \<and> om_has_pnl (cx_om c) \<and> om_has_outgoing (cx_om c) \<and> om_has_allocator (cx_om c)"

lemma om_coreD:
  assumes "om_core rinv resv r os n a"
  shows "rinv r" "resv r = booked os" "distinct (map oid_of os)" "length os \<le> n" "counter_ok a"
    and "o' \<in> set os \<Longrightarrow> order_ok o'" and "o' \<in> set os \<Longrightarrow> issued a (oid_of o')"
  using assms by (auto simp: om_core_def)

lemma booked_nth:
  "distinct (map oid_of os) \<Longrightarrow> i < length os \<Longrightarrow> booked os (oid_of (os ! i)) = order_reservation (os ! i)"
  by (simp add: booked_def keyed_nth [of oid_of])

lemma booked_update:
  assumes "distinct (map oid_of os)" and "i < length os"
    and "oid_of o' = oid_of (os ! i) \<or> oid_of o' \<notin> oid_of ` set os"
  shows "booked (os[i := o']) = (booked os)(oid_of (os ! i) := None, oid_of o' := order_reservation o')"
  by (rule ext) (simp add: booked_def keyed_update [OF assms])

lemma booked_append:
  assumes "distinct (map oid_of os)" and "oid_of o' \<notin> oid_of ` set os"
  shows "booked (os @ [o']) = (booked os)(oid_of o' := order_reservation o')"
  by (rule ext) (simp add: booked_def keyed_append [OF assms])

lemma om_core_alloc:
  "om_core rinv resv r os n a \<Longrightarrow> ids_left a \<Longrightarrow> om_core rinv resv r os n (snd (alloc_next s a))"
  by (auto simp: om_core_def issued_mono counter_ok_next)

lemma om_core_fresh:
  "om_core rinv resv r os n a \<Longrightarrow> ids_left a \<Longrightarrow> fst (alloc_next s a) \<notin> oid_of ` set os"
  using alloc_next_fresh [of a s] by (auto simp: om_core_def)

text \<open>Rewriting one recorded order together with its reservation keeps the agreement.\<close>

lemma om_core_update:
  assumes core: "om_core rinv resv r os n a" and i: "i < length os"
    and o': "order_ok o'" "oid_of o' = oid_of (os ! i)"
    and r': "rinv r'" "resv r' = (resv r)(oid_of (os ! i) := order_reservation o')"
  shows "om_core rinv resv r' (os[i := o']) n a"
proof -
  note d = om_coreD(3) [OF core]
  have sub: "set (os[i := o']) \<subseteq> insert o' (set os)" by (rule set_update_subset_insert)
  have "booked (os[i := o']) = resv r'"
    using booked_update [OF d i, of o'] o' r'(2) om_coreD(2) [OF core] by simp
  moreover have "distinct (map oid_of (os[i := o']))" using d i o'(2) by (simp add: map_update_same)
  moreover have "issued a (oid_of o')" using om_coreD(7) [OF core] i o'(2) by simp
  ultimately show ?thesis
    using core sub o'(1) r'(1) by (auto simp: om_core_def)
qed

lemma om_core_rename:
  assumes core: "om_core rinv resv r os n a" and i: "i < length os"
    and o': "order_ok o'" "oid_of o' \<notin> oid_of ` set os" "issued a (oid_of o')"
    and r': "rinv r'" "resv r' = (resv r)(oid_of (os ! i) := None, oid_of o' := order_reservation o')"
  shows "om_core rinv resv r' (os[i := o']) n a"
proof -
  note d = om_coreD(3) [OF core]
  have sub: "set (os[i := o']) \<subseteq> insert o' (set os)" by (rule set_update_subset_insert)
  have "booked (os[i := o']) = resv r'"
    using booked_update [OF d i, of o'] o' r'(2) om_coreD(2) [OF core] by simp
  moreover have "distinct (map oid_of (os[i := o']))"
    using distinct_update_key [OF d i] o'(2) by simp
  ultimately show ?thesis
    using core sub o'(1,3) r'(1) by (auto simp: om_core_def)
qed

lemma om_core_append:
  assumes core: "om_core rinv resv r os n a" and len: "length os < n"
    and o': "order_ok o'" "oid_of o' \<notin> oid_of ` set os" "issued a (oid_of o')"
    and r': "rinv r'" "resv r' = (resv r)(oid_of o' := order_reservation o')"
  shows "om_core rinv resv r' (os @ [o']) n a"
  using core len o' r' booked_append [OF om_coreD(3) [OF core] o'(2)]
  by (auto simp: om_core_def)


subsection \<open>Steps of an order manager\<close>

text \<open>
  A response is consistent when a cancellation of a live order reports all of its open quantity, and
  an execution within the open quantity is not refused by the PnL tracker (no 64-bit overflow).
\<close>

definition consistent_response :: "('r, 'p) RiskOps \<Rightarrow> OrderResponse \<Rightarrow> ('r, 'p) OmCtx \<Rightarrow> bool" where
  "consistent_response ops rs c \<longleftrightarrow>
     (case om_get (cx_om c) (rs_client_order_id rs) of
        None \<Rightarrow> True
      | Some o' \<Rightarrow> finished (oo_state o') \<or>
          (case rs_status rs of
             CANCELED \<Rightarrow> rs_canceled_qty rs = rq_qty (oo_request o') - oo_filled_qty o'
           | EXECUTED \<Rightarrow> rs_executed_qty rs \<noteq> 0 \<and>
               uint (oo_filled_qty o') + uint (rs_executed_qty rs) \<le> uint (rq_qty (oo_request o')) \<longrightarrow>
               fst (ro_onOrderResponse ops rs (cx_risk c) (cx_pnl c))
           | _ \<Rightarrow> True))"

definition keeps_qty :: "OrderId \<Rightarrow> Quantity \<Rightarrow> ('r, 'p) OmCtx \<Rightarrow> bool" where
  "keeps_qty oid q c \<longleftrightarrow>
     (case om_get (cx_om c) oid of None \<Rightarrow> True | Some o' \<Rightarrow> rq_qty (oo_request o') = q)"

text \<open>
  One step of a slot's order manager or of its surroundings: the slot's own requests and responses,
  another slot drawing an id or using the queue, and the engine marking positions.
\<close>

inductive om_step :: "('r, 'p) RiskOps \<Rightarrow> ('r, 'p) OmCtx \<Rightarrow> ('r, 'p) OmCtx \<Rightarrow> bool" for ops where
  step_new: "ids_left (cx_allocator c) \<Longrightarrow> om_step ops c (snd (sendNewOrder ops rq pos c))"
| step_cancel: "om_step ops c (snd (sendCancel oid q c))"
| step_replace: "ids_left (cx_allocator c) \<Longrightarrow> keeps_qty oid q c \<Longrightarrow>
    om_step ops c (snd (sendReplace ops oid p q c))"
| step_response: "consistent_response ops rs c \<Longrightarrow> om_step ops c (snd (om_onOrderResponse ops rs c))"
| step_other_slot: "ids_left (cx_allocator c) \<Longrightarrow>
    om_step ops c (c\<lparr>cx_allocator := snd (alloc_next s (cx_allocator c)), cx_outgoing := q\<rparr>)"
| step_mark: "om_step ops c (c\<lparr>cx_pnl := t\<rparr>)"

inductive_cases om_stepE: "om_step ops c c'"

abbreviation om_steps :: "('r, 'p) RiskOps \<Rightarrow> ('r, 'p) OmCtx \<Rightarrow> ('r, 'p) OmCtx \<Rightarrow> bool" where
  "om_steps ops \<equiv> (om_step ops)\<^sup>*\<^sup>*"

lemma om_find_Some:
  assumes "om_find om oid = Some i"
  shows "i < length (om_orders om)" and "oid_of (om_orders om ! i) = oid"
    and "om_get om oid = Some (om_orders om ! i)" and "om_orders om ! i \<in> set (om_orders om)"
proof -
  note f = assms [unfolded om_find_def]
  show "i < length (om_orders om)" "om_orders om ! i \<in> set (om_orders om)"
    using find_index_length [OF f] by simp_all
  show "oid_of (om_orders om ! i) = oid" using find_index_holds [OF f] .
  show "om_get om oid = Some (om_orders om ! i)" using assms by (simp add: om_get_def)
qed

lemma om_get_keyed: "om_get om oid = keyed oid_of (om_orders om) oid"
  by (simp add: om_get_def om_find_def keyed_find)

text \<open>The order manager never looks at the log of notifications, and the agreement does not either.\<close>

lemma notify_frame [simp]:
  "cx_om (notify o' c) = cx_om c" "cx_risk (notify o' c) = cx_risk c" "cx_pnl (notify o' c) = cx_pnl c"
  "cx_outgoing (notify o' c) = cx_outgoing c" "cx_allocator (notify o' c) = cx_allocator c"
  by (simp_all add: notify_def)

lemma om_inv_notify [simp]: "om_inv rinv resv (notify o' c) \<longleftrightarrow> om_inv rinv resv c"
  by (simp add: om_inv_def)

lemma allocSlot_cases:
  obtains (reuse) i where "allocSlot om = i" and "i < length (om_orders om)" and "finished (oo_state (om_orders om ! i))"
  | (append) "allocSlot om = length (om_orders om)" and "\<forall>o' \<in> set (om_orders om). \<not> finished (oo_state o')"
proof (cases "find_index (\<lambda>o'. finished (oo_state o')) (om_orders om)")
  case None
  moreover from None have "\<forall>o' \<in> set (om_orders om). \<not> finished (oo_state o')" by (simp add: find_index_None)
  ultimately show thesis by (intro append) (simp_all add: allocSlot_def)
next
  case (Some i)
  then show thesis using reuse find_index_length [OF Some] find_index_holds [OF Some] by (simp add: allocSlot_def)
qed

subsection \<open>The contract between the order manager and its risk manager\<close>

locale risk_gate =
  fixes ops :: "('r, 'p) RiskOps" and rinv :: "'r \<Rightarrow> bool" and resv :: "'r \<Rightarrow> OrderId \<rightharpoonup> PendingOrder"
  assumes submit: "\<lbrakk>rinv r; ro_canSubmit ops r rq pos = RISK_ACCEPTED\<rbrakk> \<Longrightarrow>
      rq_qty rq \<noteq> 0 \<and> (\<exists>r'. ro_onSubmitted ops rq r = (True, r') \<and> rinv r' \<and>
        resv r' = (resv r)(rq_client_order_id rq \<mapsto> pending_of rq))"
    and respond: "\<lbrakk>rinv r; ro_onOrderResponse ops rs r t = (True, r', t')\<rbrakk> \<Longrightarrow> rinv r' \<and>
      (\<exists>p. resv r (rs_client_order_id rs) = Some p \<and>
        resv r' = (resv r)(rs_client_order_id rs := reservations_after rs p))"
    and respond_fail: "ro_onOrderResponse ops rs r t = (False, r', t') \<Longrightarrow> r' = r \<and> t' = t"
    and replace: "\<lbrakk>rinv r; ro_onReplaced ops old new r = (True, r')\<rbrakk> \<Longrightarrow> rinv r' \<and>
      (\<exists>p. resv r old = Some p \<and>
        resv r' = (resv r)(old := None, new \<mapsto> p\<lparr>po_client_order_id := new\<rparr>))"
    and replace_total: "\<lbrakk>rinv r; new \<noteq> 0; resv r new = None; resv r old \<noteq> None\<rbrakk> \<Longrightarrow>
      fst (ro_onReplaced ops old new r)"
    and replace_fail: "ro_onReplaced ops old new r = (False, r') \<Longrightarrow> r' = r"

text \<open>The risk manager of the program honours it.\<close>

lemma onReplaced_total:
  assumes "risk_inv r" and "new \<noteq> 0" and "reservations r new = None" and "reservations r old \<noteq> None"
  shows "fst (onReplaced old new r)"
  using assms findPendingIndex_absent [OF assms(1), of old]
  by (simp add: onReplaced_def Let_def findPending_reservations)

lemma canSubmit_qty: "canSubmit r rq p = RISK_ACCEPTED \<Longrightarrow> rq_qty rq \<noteq> 0"
  by (rule canSubmit_accepted)

interpretation rm: risk_gate RiskManager_ops risk_inv reservations
proof (unfold_locales, goal_cases)
  case (1 r rq pos)
  then have acc: "canSubmit r rq pos = RISK_ACCEPTED" by (simp add: RiskManager_ops_def)
  show ?case
    using canSubmit_qty [OF acc] canSubmit_onSubmitted [OF acc] risk_inv_submit [OF 1(1) acc]
    by (simp add: RiskManager_ops_def)
next
  case (2 r rs t r' t')
  then have "risk_onOrderResponse rs r t = (True, r', t')" by (simp add: RiskManager_ops_def)
  then show ?case using risk_inv_respond [OF 2(1)] respond_reservations [OF 2(1)] by simp
next
  case (3 rs r t r' t')
  then show ?case by (simp add: RiskManager_ops_def respond_False)
next
  case (4 r old new r')
  then have "onReplaced old new r = (True, r')" by (simp add: RiskManager_ops_def)
  then show ?case using onReplaced_True(1,2) [OF 4(1)] by blast
next
  case (5 r new old)
  then show ?case using onReplaced_total by (simp add: RiskManager_ops_def)
next
  case (6 old new r r')
  then show ?case by (simp add: RiskManager_ops_def onReplaced_False)
qed


subsection \<open>Every step keeps orders and reservations in agreement\<close>

definition new_order :: "OrderRequest \<Rightarrow> OMOrder" where
  "new_order rq = \<lparr>oo_request = rq, oo_state = NOT_ACTIVE, oo_is_cancel_requested = False,
     oo_is_cancel_rejected = False, oo_filled_qty = 0, oo_avg_fill_price = Price_INVALID\<rparr>"

lemma new_order_simps [simp]:
  "oo_request (new_order rq) = rq" "rq_qty rq \<noteq> 0 \<Longrightarrow> order_ok (new_order rq)"
  "order_reservation (new_order rq) = Some (pending_of rq)"
  by (simp_all add: new_order_def order_ok_def order_reservation_def reservation_of_def pending_of_def finished_def)

definition place :: "nat \<Rightarrow> OMOrder \<Rightarrow> OMOrder list \<Rightarrow> OMOrder list" where
  "place slot o' os = (if slot = length os then os @ [o'] else os[slot := o'])"

lemma order_ok_open:
  assumes "order_ok o'" and "\<not> finished (oo_state o')"
  shows "oo_filled_qty o' < rq_qty (oo_request o')" and "po_reserved_qty (reservation_of o') \<noteq> 0"
proof -
  show lt: "oo_filled_qty o' < rq_qty (oo_request o')"
    using assms by (auto simp: order_ok_def finished_def Let_def word_neq_0_conv split: OMOrderState.splits)
  then show "po_reserved_qty (reservation_of o') \<noteq> 0" by (auto simp: reservation_of_def)
qed

text \<open>What a successful \<^verbatim>\<open>sendNewOrder\<close> does.\<close>

lemma sendNewOrder_cases:
  assumes "sendNewOrder ops rq pos c = (ok, c')"
  obtains (refused) "\<not> ok" and "c' = c"
  | (risk) "\<not> ok" and "c' = c\<lparr>cx_allocator := snd (alloc_next (om_slot (cx_om c)) (cx_allocator c)),
        cx_om := (cx_om c)\<lparr>om_rejected := om_rejected (cx_om c) + 1\<rparr>\<rparr>"
  | (queue_full) q where "\<not> ok" and "push (rq\<lparr>rq_client_order_id := fst (alloc_next (om_slot (cx_om c)) (cx_allocator c)),
        rq_new_client_order_id := 0\<rparr>) (cx_outgoing c) = (False, q)"
      and "c' = c\<lparr>cx_allocator := snd (alloc_next (om_slot (cx_om c)) (cx_allocator c)), cx_outgoing := q\<rparr>"
  | (sent) rq' q b r where
      "rq' = rq\<lparr>rq_client_order_id := fst (alloc_next (om_slot (cx_om c)) (cx_allocator c)), rq_new_client_order_id := 0\<rparr>"
      and "allocSlot (cx_om c) \<noteq> om_MaxOrders (cx_om c)"
      and "ro_canSubmit ops (cx_risk c) rq' pos = RISK_ACCEPTED"
      and "push rq' (cx_outgoing c) = (True, q)" and "ro_onSubmitted ops rq' (cx_risk c) = (b, r)"
      and "ok = b"
      and "\<not> b \<Longrightarrow> c' = c\<lparr>cx_allocator := snd (alloc_next (om_slot (cx_om c)) (cx_allocator c)),
        cx_outgoing := q, cx_risk := r\<rparr>"
      and "b \<Longrightarrow> c' = notify (new_order rq') (c\<lparr>cx_allocator := snd (alloc_next (om_slot (cx_om c)) (cx_allocator c)),
        cx_outgoing := q, cx_risk := r,
        cx_om := (cx_om c)\<lparr>om_new_orders := om_new_orders (cx_om c) + 1,
          om_orders := place (allocSlot (cx_om c)) (new_order rq') (om_orders (cx_om c))\<rparr>\<rparr>)"
proof -
  obtain oid al where n: "alloc_next (om_slot (cx_om c)) (cx_allocator c) = (oid, al)" by (cases "alloc_next (om_slot (cx_om c)) (cx_allocator c)")
  let ?rq = "rq\<lparr>rq_client_order_id := oid, rq_new_client_order_id := 0\<rparr>"
  obtain b q where p: "push ?rq (cx_outgoing c) = (b, q)" by (cases "push ?rq (cx_outgoing c)")
  obtain b' r where s: "ro_onSubmitted ops ?rq (cx_risk c) = (b', r)" by (cases "ro_onSubmitted ops ?rq (cx_risk c)")
  consider "\<not> om_has_outgoing (cx_om c) \<or> \<not> om_has_risk (cx_om c) \<or> \<not> om_has_allocator (cx_om c) \<or>
      allocSlot (cx_om c) = om_MaxOrders (cx_om c)"
    | "om_has_outgoing (cx_om c) \<and> om_has_risk (cx_om c) \<and> om_has_allocator (cx_om c)"
      "allocSlot (cx_om c) \<noteq> om_MaxOrders (cx_om c)" by blast
  then show thesis
  proof cases
    case 1
    then have "\<not> ok" "c' = c" using assms by (auto simp: sendNewOrder_def Let_def split: if_splits)
    then show thesis by (rule refused)
  next
    case 2
    show thesis
    proof (cases "ro_canSubmit ops (cx_risk c) ?rq pos = RISK_ACCEPTED")
      case False
      then show thesis using assms 2 n by (intro risk) (auto simp: sendNewOrder_def Let_def)
    next
      case acc: True
      show thesis
      proof (cases b)
        case False
        then show thesis using assms 2 n acc p by (intro queue_full [of q]) (auto simp: sendNewOrder_def Let_def)
      next
        case True
        then show thesis using assms 2 n acc p s
          by (intro sent [of ?rq q b' r])
            (auto simp: sendNewOrder_def Let_def place_def new_order_def split: bool.splits)
      qed
    qed
  qed
qed


text \<open>\<open>same_om c d\<close>: \<open>d\<close> differs from \<open>c\<close> at most in counters, PnL, queue, log and risk manager.\<close>

definition same_om :: "('r, 'p) OmCtx \<Rightarrow> ('r, 'p) OmCtx \<Rightarrow> bool" where
  "same_om c d \<longleftrightarrow> om_orders (cx_om d) = om_orders (cx_om c) \<and> om_MaxOrders (cx_om d) = om_MaxOrders (cx_om c) \<and>
     om_has_risk (cx_om d) = om_has_risk (cx_om c) \<and> om_has_pnl (cx_om d) = om_has_pnl (cx_om c) \<and>
     om_has_outgoing (cx_om d) = om_has_outgoing (cx_om c) \<and>
     om_has_allocator (cx_om d) = om_has_allocator (cx_om c) \<and> cx_allocator d = cx_allocator c"

lemma om_inv_put:
  assumes inv: "om_inv rinv resv c" and same: "same_om c d" and i: "i < length (om_orders (cx_om c))"
    and o': "order_ok o'" "oid_of o' = oid_of (om_orders (cx_om c) ! i)"
    and r': "rinv (cx_risk d)"
      "resv (cx_risk d) = (resv (cx_risk c))(oid_of (om_orders (cx_om c) ! i) := order_reservation o')"
  shows "om_inv rinv resv (put_order i o' d)"
proof -
  have "om_core rinv resv (cx_risk c) (om_orders (cx_om c)) (om_MaxOrders (cx_om c)) (cx_allocator c)"
    using inv by (simp add: om_inv_def)
  from om_core_update [OF this, of i o' "cx_risk d"] i o' r' show ?thesis
    using inv same by (simp add: om_inv_def same_om_def put_order_def)
qed

lemma om_inv_order:
  assumes "om_inv rinv resv c" and "i < length (om_orders (cx_om c))"
  shows "order_ok (om_orders (cx_om c) ! i)" and "rinv (cx_risk c)"
    and "resv (cx_risk c) (oid_of (om_orders (cx_om c) ! i)) = order_reservation (om_orders (cx_om c) ! i)"
proof -
  have core: "om_core rinv resv (cx_risk c) (om_orders (cx_om c)) (om_MaxOrders (cx_om c)) (cx_allocator c)"
    using assms(1) by (simp add: om_inv_def)
  show "order_ok (om_orders (cx_om c) ! i)" "rinv (cx_risk c)"
    using om_coreD(1,6) [OF core] assms(2) by simp_all
  show "resv (cx_risk c) (oid_of (om_orders (cx_om c) ! i)) = order_reservation (om_orders (cx_om c) ! i)"
    using om_coreD(2) [OF core] booked_nth [OF om_coreD(3) [OF core] assms(2)] by simp
qed

lemma om_inv_put_same:
  assumes "om_inv rinv resv c" and "same_om c d" and "cx_risk d = cx_risk c" and "i < length (om_orders (cx_om c))"
    and "order_ok o'" "oid_of o' = oid_of (om_orders (cx_om c) ! i)"
    and "order_reservation o' = order_reservation (om_orders (cx_om c) ! i)"
  shows "om_inv rinv resv (put_order i o' d)"
  using assms om_inv_order [OF assms(1,4)] by (intro om_inv_put [OF assms(1,2,4)]) (auto simp: fun_upd_idem)

text \<open>An accepted fill of an open order.\<close>

lemma fill_order_simps:
  assumes "uint (oo_filled_qty o') + uint (rs_executed_qty rs) \<le> uint (rq_qty (oo_request o'))"
  shows "oo_request (fill_order o' rs) = oo_request o'"
    and "oo_filled_qty (fill_order o' rs) = oo_filled_qty o' + rs_executed_qty rs"
    and "uint (oo_filled_qty (fill_order o' rs)) = uint (oo_filled_qty o') + uint (rs_executed_qty rs)"
    and "oo_state (fill_order o' rs) =
      (if oo_filled_qty o' + rs_executed_qty rs = rq_qty (oo_request o') then COMPLETED else PARTIALLY_FILLED)"
proof -
  have eq: "i32 (uint (oo_filled_qty o') + uint (rs_executed_qty rs)) = oo_filled_qty o' + rs_executed_qty rs"
    by (simp add: i32_def)
  show "oo_request (fill_order o' rs) = oo_request o'" by (simp add: fill_order_def Let_def)
  show q: "oo_filled_qty (fill_order o' rs) = oo_filled_qty o' + rs_executed_qty rs"
    by (simp add: fill_order_def Let_def eq)
  show "oo_state (fill_order o' rs) =
      (if oo_filled_qty o' + rs_executed_qty rs = rq_qty (oo_request o') then COMPLETED else PARTIALLY_FILLED)"
    by (simp add: fill_order_def Let_def eq)
  show "uint (oo_filled_qty (fill_order o' rs)) = uint (oo_filled_qty o') + uint (rs_executed_qty rs)"
    unfolding fill_order_def Let_def using assms uint32_bounds [of "rq_qty (oo_request o')"] by (simp add: uint_i32)
qed

lemma fill_order_ok:
  assumes ok: "order_ok o'" and x: "rs_executed_qty rs \<noteq> 0"
    and fit: "uint (oo_filled_qty o') + uint (rs_executed_qty rs) \<le> uint (rq_qty (oo_request o'))"
  shows "order_ok (fill_order o' rs)"
proof -
  note s = fill_order_simps [OF fit]
  have "0 < uint (rs_executed_qty rs)" using x by (simp add: uint32_pos)
  then have "uint (oo_filled_qty (fill_order o' rs)) \<noteq> 0" using s(3) uint32_bounds(1) [of "oo_filled_qty o'"] by linarith
  then have nz: "oo_filled_qty (fill_order o' rs) \<noteq> 0" by auto
  have "oo_filled_qty (fill_order o' rs) \<le> rq_qty (oo_request o')" using s(3) fit by (simp add: word_le_def)
  then show ?thesis
    using ok nz by (auto simp: order_ok_def Let_def s(1,2,4) order.strict_iff_order)
qed

lemma fill_order_reservation:
  assumes open': "\<not> finished (oo_state o')" and st: "rs_status rs = EXECUTED"
    and fit: "uint (oo_filled_qty o') + uint (rs_executed_qty rs) \<le> uint (rq_qty (oo_request o'))"
  shows "order_reservation (fill_order o' rs) = reservations_after rs (reservation_of o')"
  using fill_order_simps [OF fit] st
  by (auto simp: order_reservation_def reservations_after_def reservation_of_def reduced_def finished_def
      algebra_simps)


lemma same_om_simps [simp]:
  "same_om c (c\<lparr>cx_risk := r, cx_pnl := p\<rparr>)" "same_om c c"
  "same_om c (c\<lparr>cx_risk := r, cx_pnl := p, cx_om := (cx_om c)\<lparr>om_rejected := n\<rparr>\<rparr>)"
  "same_om c (c\<lparr>cx_risk := r, cx_pnl := p, cx_om := (cx_om c)\<lparr>om_fills := n, om_filled_qty := w\<rparr>\<rparr>)"
  "same_om c (c\<lparr>cx_outgoing := q, cx_om := (cx_om c)\<lparr>om_cancels := n\<rparr>\<rparr>)"
  by (simp_all add: same_om_def)

lemma om_inv_pnl: "om_inv rinv resv (c\<lparr>cx_pnl := t\<rparr>) \<longleftrightarrow> om_inv rinv resv c"
  by (simp add: om_inv_def)

lemma om_inv_queue: "om_inv rinv resv (c\<lparr>cx_outgoing := q\<rparr>) \<longleftrightarrow> om_inv rinv resv c"
  by (simp add: om_inv_def)

lemma om_inv_alloc:
  "om_inv rinv resv c \<Longrightarrow> ids_left (cx_allocator c) \<Longrightarrow>
    om_inv rinv resv (c\<lparr>cx_allocator := snd (alloc_next s (cx_allocator c))\<rparr>)"
  by (simp add: om_inv_def om_core_alloc)

lemma om_inv_cancel:
  assumes inv: "om_inv rinv resv c"
  shows "om_inv rinv resv (snd (sendCancel oid q c))"
proof (cases "om_find (cx_om c) oid")
  case None
  with inv show ?thesis by (simp add: sendCancel_def)
next
  case (Some i)
  note f = om_find_Some [OF Some]
  let ?o = "om_orders (cx_om c) ! i"
  have ok: "order_ok (?o\<lparr>oo_is_cancel_requested := True\<rparr>)"
    "order_reservation (?o\<lparr>oo_is_cancel_requested := True\<rparr>) = order_reservation ?o"
    using om_inv_order(1) [OF inv f(1)]
    by (simp_all add: order_ok_def order_reservation_def reservation_of_def)
  have "om_inv rinv resv (put_order i (?o\<lparr>oo_is_cancel_requested := True\<rparr>)
      (c\<lparr>cx_outgoing := q', cx_om := (cx_om c)\<lparr>om_cancels := n\<rparr>\<rparr>))" for q' n
    by (rule om_inv_put_same [OF inv _ _ f(1) ok(1) _ ok(2)]) simp_all
  with inv Some show ?thesis
    by (auto simp: sendCancel_def Let_def om_inv_queue split: prod.split bool.split)
qed

definition replaced_request :: "OMOrder \<Rightarrow> OrderId \<Rightarrow> Price \<Rightarrow> Quantity \<Rightarrow> OrderRequest" where
  "replaced_request o' new p q = \<lparr>rq_type = RQ_REPLACE, rq_client_order_id = new, rq_new_client_order_id = 0,
      rq_ticker_id = rq_ticker_id (oo_request o'), rq_side = rq_side (oo_request o'),
      rq_price = p, rq_qty = q, rq_ioc = rq_ioc (oo_request o')\<rparr>"

context risk_gate
begin

lemma om_inv_place:
  assumes inv: "om_inv rinv resv c" and left: "ids_left (cx_allocator c)"
    and slot: "allocSlot (cx_om c) \<noteq> om_MaxOrders (cx_om c)"
    and oid: "rq_client_order_id rq = fst (alloc_next s (cx_allocator c))" and q: "rq_qty rq \<noteq> 0"
    and r': "rinv r'" "resv r' = (resv (cx_risk c))(rq_client_order_id rq \<mapsto> pending_of rq)"
  shows "om_core rinv resv r' (place (allocSlot (cx_om c)) (new_order rq) (om_orders (cx_om c)))
    (om_MaxOrders (cx_om c)) (snd (alloc_next s (cx_allocator c)))"
proof -
  let ?a = "snd (alloc_next s (cx_allocator c))"
  have "om_core rinv resv (cx_risk c) (om_orders (cx_om c)) (om_MaxOrders (cx_om c)) (cx_allocator c)"
    using inv by (simp add: om_inv_def)
  note core = om_core_alloc [OF this left, of s] and fresh = om_core_fresh [OF this left, of s]
  have iss: "issued ?a (oid_of (new_order rq))" using alloc_next_issued [OF left, of s] oid by simp
  show ?thesis
  proof (cases rule: allocSlot_cases [of "cx_om c"])
    case (reuse i)
    have "resv (cx_risk c) (oid_of (om_orders (cx_om c) ! i)) = None"
      using om_inv_order(3) [OF inv reuse(2)] reuse(3) by (simp add: order_reservation_def)
    then have "resv r' = (resv (cx_risk c))(oid_of (om_orders (cx_om c) ! i) := None,
        oid_of (new_order rq) := order_reservation (new_order rq))"
      using r'(2) by (simp add: fun_upd_idem)
    then show ?thesis
      using om_core_rename [OF core reuse(2), of "new_order rq" r'] fresh iss oid q r'(1) reuse
      by (simp add: place_def)
  next
    case append
    have "length (om_orders (cx_om c)) < om_MaxOrders (cx_om c)"
      using om_coreD(4) [OF core] slot append by simp
    then show ?thesis
      using om_core_append [OF core, of "new_order rq" r'] fresh iss oid q r' append by (simp add: place_def)
  qed
qed

lemma om_inv_new:
  assumes inv: "om_inv rinv resv c" and left: "ids_left (cx_allocator c)"
  shows "om_inv rinv resv (snd (sendNewOrder ops rq pos c))"
proof -
  obtain ok c' where snd: "sendNewOrder ops rq pos c = (ok, c')" by (cases "sendNewOrder ops rq pos c")
  note al = om_inv_alloc [OF inv left, of "om_slot (cx_om c)"]
  from snd have "om_inv rinv resv c'"
  proof (cases rule: sendNewOrder_cases)
    case refused
    with inv show ?thesis by simp
  next
    case risk
    with al show ?thesis by (simp add: om_inv_def)
  next
    case (queue_full q)
    with al show ?thesis by (simp add: om_inv_def)
  next
    case (sent rq' q b r)
    have "rinv (cx_risk c)" using inv by (simp add: om_inv_def om_core_def)
    from submit [OF this sent(3)] sent(5) have s: "rq_qty rq' \<noteq> 0" "b" "rinv r"
      "resv r = (resv (cx_risk c))(rq_client_order_id rq' \<mapsto> pending_of rq')" by auto
    from om_inv_place [OF inv left sent(2) _ s(1,3,4), of "om_slot (cx_om c)"] sent(1)
    show ?thesis using inv sent(8) [OF s(2)] by (simp add: om_inv_def)
  qed
  with snd show ?thesis by simp
qed

lemma om_core_replaced:
  assumes inv: "om_inv rinv resv c" and left: "ids_left (cx_allocator c)"
    and i: "i < length (om_orders (cx_om c))" and o': "o' = om_orders (cx_om c) ! i"
    and op: "\<not> finished (oo_state o')" and q: "rq_qty (oo_request o') = q"
    and new: "new = fst (alloc_next s (cx_allocator c))"
    and rep: "ro_onReplaced ops (oid_of o') new (cx_risk c) = (True, r)"
  shows "om_core rinv resv r ((om_orders (cx_om c))[i := o'\<lparr>oo_request := replaced_request o' new p q\<rparr>])
      (om_MaxOrders (cx_om c)) (snd (alloc_next s (cx_allocator c)))" (is "om_core _ _ _ (_[i := ?o']) _ ?a")
proof -
  have core: "om_core rinv resv (cx_risk c) (om_orders (cx_om c)) (om_MaxOrders (cx_om c)) (cx_allocator c)"
    using inv by (simp add: om_inv_def)
  note ord = om_inv_order [OF inv i, folded o']
  show ?thesis
  proof (rule om_core_rename [OF om_core_alloc [OF core left] i])
    show "order_ok ?o'" using ord(1) q by (simp add: order_ok_def replaced_request_def)
    show "oid_of ?o' \<notin> oid_of ` set (om_orders (cx_om c))"
      using om_core_fresh [OF core left, of s] new by (simp add: replaced_request_def)
    show "issued ?a (oid_of ?o')" using alloc_next_issued [OF left, of s] new by (simp add: replaced_request_def)
    note law = replace [OF ord(2) rep]
    then show "rinv r" by blast
    show "resv r = (resv (cx_risk c))(oid_of (om_orders (cx_om c) ! i) := None, oid_of ?o' := order_reservation ?o')"
      using law op ord(3) q unfolding o' [symmetric]
      by (auto simp: order_reservation_def reservation_of_def replaced_request_def)
  qed
qed

lemma om_inv_replace:
  assumes inv: "om_inv rinv resv c" and left: "ids_left (cx_allocator c)" and qty: "keeps_qty oid q c"
  shows "om_inv rinv resv (snd (sendReplace ops oid p q c))"
proof (cases "om_find (cx_om c) oid")
  case None
  with inv show ?thesis by (simp add: sendReplace_def)
next
  case (Some i)
  note f = om_find_Some [OF Some]
  let ?s = "om_slot (cx_om c)"
  have "rq_qty (oo_request (om_orders (cx_om c) ! i)) = q" using qty f(3) by (simp add: keeps_qty_def)
  note rep = om_core_replaced [OF inv left f(1) refl _ this refl, unfolded f(2), of ?s _ p]
  obtain new al' where n: "alloc_next ?s (cx_allocator c) = (new, al')" by (cases "alloc_next ?s (cx_allocator c)")
  show ?thesis
    using inv om_inv_alloc [OF inv left, of ?s] Some n rep
    by (auto simp: sendReplace_def Let_def om_inv_def put_order_def replaced_request_def dest!: replace_fail
        split: prod.split bool.split)
qed

end


context risk_gate
begin

lemma respond_order:
  assumes inv: "om_inv rinv resv c" and i: "i < length (om_orders (cx_om c))"
    and id: "oid_of (om_orders (cx_om c) ! i) = rs_client_order_id rs"
    and rs: "ro_onOrderResponse ops rs (cx_risk c) t = (True, r', t')"
  shows "\<not> finished (oo_state (om_orders (cx_om c) ! i))" and "rinv r'"
    and "resv r' = (resv (cx_risk c))(rs_client_order_id rs :=
      reservations_after rs (reservation_of (om_orders (cx_om c) ! i)))"
  using respond [OF om_inv_order(2) [OF inv i] rs] om_inv_order(3) [OF inv i] id
  by (auto simp: order_reservation_def split: if_splits)

lemma om_inv_respond_put:
  assumes inv: "om_inv rinv resv c" and i: "i < length (om_orders (cx_om c))"
    and id: "oid_of (om_orders (cx_om c) ! i) = rs_client_order_id rs"
    and rs: "ro_onOrderResponse ops rs (cx_risk c) (cx_pnl c) = (True, r', t')"
    and o': "order_ok o'" "oid_of o' = rs_client_order_id rs"
      "order_reservation o' = reservations_after rs (reservation_of (om_orders (cx_om c) ! i))"
    and d: "same_om c d" "cx_risk d = r'"
  shows "om_inv rinv resv (put_order i o' d)"
  using respond_order [OF inv i id rs] o' id d
  by (intro om_inv_put [OF inv d(1) i]) simp_all

lemma om_inv_accepted:
  assumes inv: "om_inv rinv resv c" and i: "i < length (om_orders (cx_om c))"
    and st: "oo_state (om_orders (cx_om c) ! i) = NOT_ACTIVE"
  shows "om_inv rinv resv (put_order i ((om_orders (cx_om c) ! i)\<lparr>oo_state := ACTIVE\<rparr>) c)"
  using om_inv_order(1) [OF inv i] st
  by (intro om_inv_put_same [OF inv _ _ i])
    (auto simp: order_ok_def order_reservation_def reservation_of_def finished_def)

lemma om_inv_cancel_flags:
  assumes inv: "om_inv rinv resv c" and i: "i < length (om_orders (cx_om c))"
  shows "om_inv rinv resv (put_order i ((om_orders (cx_om c) ! i)\<lparr>oo_is_cancel_requested := b, oo_is_cancel_rejected := b'\<rparr>) c)"
  using om_inv_order(1) [OF inv i]
  by (intro om_inv_put_same [OF inv _ _ i])
    (auto simp: order_ok_def order_reservation_def reservation_of_def)

lemma om_inv_filled:
  assumes inv: "om_inv rinv resv c" and i: "i < length (om_orders (cx_om c))"
    and id: "oid_of (om_orders (cx_om c) ! i) = rs_client_order_id rs" and st: "rs_status rs = EXECUTED"
    and fit: "rs_executed_qty rs \<noteq> 0" "uint (oo_filled_qty (om_orders (cx_om c) ! i)) + uint (rs_executed_qty rs)
      \<le> uint (rq_qty (oo_request (om_orders (cx_om c) ! i)))"
    and rs: "ro_onOrderResponse ops rs (cx_risk c) (cx_pnl c) = (True, r', t')"
    and d: "same_om c d" "cx_risk d = r'"
  shows "om_inv rinv resv (put_order i (fill_order (om_orders (cx_om c) ! i) rs) d)"
proof (rule om_inv_respond_put [OF inv i id rs _ _ _ d])
  note op = respond_order(1) [OF inv i id rs]
  show "order_ok (fill_order (om_orders (cx_om c) ! i) rs)"
    by (rule fill_order_ok [OF om_inv_order(1) [OF inv i] fit])
  show "oid_of (fill_order (om_orders (cx_om c) ! i) rs) = rs_client_order_id rs"
    using fill_order_simps(1) [OF fit(2)] id by simp
  show "order_reservation (fill_order (om_orders (cx_om c) ! i) rs) =
      reservations_after rs (reservation_of (om_orders (cx_om c) ! i))"
    by (rule fill_order_reservation [OF op st fit(2)])
qed

lemma om_inv_canceled:
  assumes inv: "om_inv rinv resv c" and i: "i < length (om_orders (cx_om c))"
    and id: "oid_of (om_orders (cx_om c) ! i) = rs_client_order_id rs" and st: "rs_status rs = CANCELED"
    and all: "rs_canceled_qty rs = rq_qty (oo_request (om_orders (cx_om c) ! i)) - oo_filled_qty (om_orders (cx_om c) ! i)"
    and rs: "ro_onOrderResponse ops rs (cx_risk c) (cx_pnl c) = (True, r', t')"
  shows "om_inv rinv resv (put_order i ((om_orders (cx_om c) ! i)\<lparr>oo_is_cancel_requested := False, oo_state := CANCELLED\<rparr>)
    (c\<lparr>cx_risk := r', cx_pnl := t'\<rparr>))"
    and "oo_filled_qty (om_orders (cx_om c) ! i) \<noteq> rq_qty (oo_request (om_orders (cx_om c) ! i))"
proof -
  note lt = order_ok_open(1) [OF om_inv_order(1) [OF inv i] respond_order(1) [OF inv i id rs]]
  then show "oo_filled_qty (om_orders (cx_om c) ! i) \<noteq> rq_qty (oo_request (om_orders (cx_om c) ! i))" by auto
  show "om_inv rinv resv (put_order i ((om_orders (cx_om c) ! i)\<lparr>oo_is_cancel_requested := False, oo_state := CANCELLED\<rparr>)
    (c\<lparr>cx_risk := r', cx_pnl := t'\<rparr>))"
    using lt id st all om_inv_order(1) [OF inv i]
    by (intro om_inv_respond_put [OF inv i id rs])
      (auto simp: order_ok_def Let_def order_reservation_def reservations_after_def reservation_of_def finished_def)
qed

lemma om_inv_rejected:
  assumes inv: "om_inv rinv resv c" and i: "i < length (om_orders (cx_om c))"
    and id: "oid_of (om_orders (cx_om c) ! i) = rs_client_order_id rs" and st: "rs_status rs = REJECTED"
    and rs: "ro_onOrderResponse ops rs (cx_risk c) (cx_pnl c) = (True, r', t')"
  shows "om_inv rinv resv (put_order i ((om_orders (cx_om c) ! i)\<lparr>oo_state := DEAD\<rparr>)
    (c\<lparr>cx_risk := r', cx_pnl := t', cx_om := (cx_om c)\<lparr>om_rejected := n\<rparr>\<rparr>))"
proof -
  note ok = om_inv_order(1) [OF inv i]
  note lt = order_ok_open(1) [OF ok respond_order(1) [OF inv i id rs]]
  then show ?thesis using ok id st
    by (intro om_inv_respond_put [OF inv i id rs])
      (auto simp: order_ok_def Let_def order_reservation_def reservations_after_def finished_def)
qed

lemma om_inv_canceled_response:
  assumes inv: "om_inv rinv resv c" and cons: "consistent_response ops rs c"
    and find: "om_find (cx_om c) (rs_client_order_id rs) = Some i" and st: "rs_status rs = CANCELED"
  shows "om_inv rinv resv (snd (om_onOrderResponse ops rs c))"
proof -
  note f = om_find_Some [OF find]
  let ?o = "om_orders (cx_om c) ! i"
  have ptr: "om_has_risk (cx_om c)" "om_has_pnl (cx_om c)" using inv by (simp_all add: om_inv_def)
  obtain b r t where rs: "ro_onOrderResponse ops rs (cx_risk c) (cx_pnl c) = (b, r, t)" by (metis prod_cases3)
  have stay: "\<not> b \<Longrightarrow> r = cx_risk c \<and> t = cx_pnl c" using rs respond_fail by auto
  note defs = om_onOrderResponse_def Let_def find st
  show ?thesis
  proof (cases "finished (oo_state ?o)")
    case True
    then have "\<not> b" using respond_order(1) [OF inv f(1,2)] rs by auto
    have "order_ok ?o" using inv f(1) by (rule om_inv_order)
    then have "om_inv rinv resv (put_order i (?o\<lparr>oo_is_cancel_requested := False, oo_state := CANCELLED\<rparr>) c)"
      and "oo_filled_qty ?o \<noteq> rq_qty (oo_request ?o)" if "oo_state ?o = CANCELLED"
      using that by (auto simp: order_ok_def Let_def order_reservation_def reservation_of_def finished_def
          intro!: om_inv_put_same [OF inv _ _ f(1)])
    with True inv rs \<open>\<not> b\<close> stay show ?thesis by (auto simp: defs finished_def)
  next
    case False
    then have all: "rs_canceled_qty rs = rq_qty (oo_request ?o) - oo_filled_qty ?o"
      using cons f(3) st by (simp add: consistent_response_def)
    moreover have "oo_filled_qty ?o < rq_qty (oo_request ?o)"
      using om_inv_order(1) [OF inv f(1)] False by (rule order_ok_open)
    ultimately have "rs_canceled_qty rs \<noteq> 0" by auto
    with False inv rs ptr stay om_inv_canceled [OF inv f(1,2) st all, of r t] show ?thesis
      by (cases b) (simp_all add: defs finished_def om_inv_def)
  qed
qed

lemma om_inv_response:
  assumes inv: "om_inv rinv resv c" and cons: "consistent_response ops rs c"
  shows "om_inv rinv resv (snd (om_onOrderResponse ops rs c))"
proof (cases "om_find (cx_om c) (rs_client_order_id rs)")
  case None
  with inv show ?thesis by (simp add: om_onOrderResponse_def)
next
  case (Some i)
  note f = om_find_Some [OF Some]
  let ?o = "om_orders (cx_om c) ! i"
  have ptr: "om_has_risk (cx_om c)" "om_has_pnl (cx_om c)" using inv by (simp_all add: om_inv_def)
  obtain b r t where rs: "ro_onOrderResponse ops rs (cx_risk c) (cx_pnl c) = (b, r, t)" by (metis prod_cases3)
  have stay: "\<not> b \<Longrightarrow> r = cx_risk c \<and> t = cx_pnl c" using rs respond_fail by auto
  note defs = om_onOrderResponse_def Let_def Some
  show ?thesis
  proof (cases "rs_status rs")
    case ACCEPTED
    then show ?thesis using inv om_inv_accepted [OF inv f(1)] by (simp add: defs)
  next
    case EXECUTED
    show ?thesis
    proof (cases "rs_executed_qty rs = 0 \<or> finished (oo_state ?o) \<or>
        uint (rq_qty (oo_request ?o)) < uint (oo_filled_qty ?o) + uint (rs_executed_qty rs)")
      case True
      with inv EXECUTED show ?thesis by (auto simp: defs)
    next
      case False
      then have b using cons rs f(3) EXECUTED by (simp add: consistent_response_def)
      with False EXECUTED ptr rs om_inv_filled [OF inv f(1,2) EXECUTED _ _ rs [unfolded \<open>b\<close> [THEN eqTrueI]]]
      show ?thesis by (auto simp: defs)
    qed
  next
    case CANCELED
    then show ?thesis using om_inv_canceled_response [OF inv cons Some] by simp
  next
    case REJECTED
    with inv rs ptr stay om_inv_rejected [OF inv f(1,2) REJECTED, of r t] show ?thesis
      by (cases b) (simp_all add: defs om_inv_def)
  next
    case CANCEL_REJECTED
    with inv om_inv_cancel_flags [OF inv f(1), of True False] show ?thesis by (simp add: defs)
  qed
qed

lemma om_inv_step: "om_step ops c c' \<Longrightarrow> om_inv rinv resv c \<Longrightarrow> om_inv rinv resv c'"
  by (induction rule: om_step.induct)
    (simp_all add: om_inv_new om_inv_cancel om_inv_replace om_inv_response om_inv_pnl om_inv_queue om_inv_alloc)

lemma om_inv_steps: "om_steps ops c c' \<Longrightarrow> om_inv rinv resv c \<Longrightarrow> om_inv rinv resv c'"
  by (induction rule: rtranclp_induct) (auto intro: om_inv_step)

lemma new_order_atomic:
  assumes inv: "om_inv rinv resv c" and snd: "sendNewOrder ops rq pos c = (ok, c')"
  shows "if ok then \<exists>rq'. q_pushed (cx_outgoing c') = q_pushed (cx_outgoing c) @ [rq'] \<and>
        ro_canSubmit ops (cx_risk c) rq' pos = RISK_ACCEPTED \<and>
        resv (cx_risk c') = (resv (cx_risk c))(rq_client_order_id rq' \<mapsto> pending_of rq') \<and>
        new_order rq' \<in> set (om_orders (cx_om c'))
    else q_pushed (cx_outgoing c') = q_pushed (cx_outgoing c) \<and> cx_risk c' = cx_risk c \<and>
        om_orders (cx_om c') = om_orders (cx_om c) \<and> cx_notified c' = cx_notified c"
  using snd
proof (cases rule: sendNewOrder_cases)
  case (queue_full q)
  then show ?thesis using push_False [OF queue_full(2)] by simp
next
  case (sent rq' q b r)
  have "rinv (cx_risk c)" using inv by (simp add: om_inv_def om_core_def)
  from submit [OF this sent(3)] sent(5) have s: "b"
    "resv r = (resv (cx_risk c))(rq_client_order_id rq' \<mapsto> pending_of rq')" by auto
  have "allocSlot (cx_om c) \<le> length (om_orders (cx_om c))"
    by (rule allocSlot_cases [of "cx_om c"]) auto
  then have "new_order rq' \<in> set (place (allocSlot (cx_om c)) (new_order rq') (om_orders (cx_om c)))"
    by (auto simp: place_def set_update_memI)
  then show ?thesis
    using s sent push_True [OF sent(4)] by (auto intro!: exI [of _ rq'])
qed auto

end


subsection \<open>The life cycle of an order\<close>

inductive lifecycle :: "OMOrderState \<Rightarrow> OMOrderState \<Rightarrow> bool" where
  activate: "lifecycle NOT_ACTIVE ACTIVE"
| fill_some: "s \<in> {NOT_ACTIVE, ACTIVE, PARTIALLY_FILLED} \<Longrightarrow> lifecycle s PARTIALLY_FILLED"
| fill_all: "s \<in> {NOT_ACTIVE, ACTIVE, PARTIALLY_FILLED} \<Longrightarrow> lifecycle s COMPLETED"
| cancelled: "s \<in> {NOT_ACTIVE, ACTIVE, PARTIALLY_FILLED} \<Longrightarrow> lifecycle s CANCELLED"
| dead: "s \<in> {NOT_ACTIVE, ACTIVE, PARTIALLY_FILLED} \<Longrightarrow> lifecycle s DEAD"

inductive_simps lifecycle_simps: "lifecycle s t"

text \<open>The enumerators compare by their position in the declaration.\<close>

fun state_rank :: "OMOrderState \<Rightarrow> nat" where
  "state_rank INVALID = 0"
| "state_rank NOT_ACTIVE = 1"
| "state_rank ACTIVE = 2"
| "state_rank PARTIALLY_FILLED = 3"
| "state_rank COMPLETED = 4"
| "state_rank CANCELLED = 5"
| "state_rank DEAD = 6"

instantiation OMOrderState :: linorder
begin

definition less_eq_OMOrderState :: "OMOrderState \<Rightarrow> OMOrderState \<Rightarrow> bool" where
  "s \<le> t \<longleftrightarrow> state_rank s \<le> state_rank t"

definition less_OMOrderState :: "OMOrderState \<Rightarrow> OMOrderState \<Rightarrow> bool" where
  "s < t \<longleftrightarrow> state_rank s < state_rank t"

instance
proof
  fix s t :: OMOrderState
  show "s = t" if "s \<le> t" "t \<le> s"
    using that by (cases s; cases t) (simp_all add: less_eq_OMOrderState_def)
qed (auto simp: less_eq_OMOrderState_def less_OMOrderState_def)

end

text \<open>Along the life cycle no order goes back.\<close>

lemma lifecycle_advances: "lifecycle s t \<Longrightarrow> s \<le> t"
  by (auto simp: less_eq_OMOrderState_def elim!: lifecycle.cases)

lemma lifecycle_from: "lifecycle s t \<Longrightarrow> \<not> finished s"
  by (auto simp: finished_def elim: lifecycle.cases)

text \<open>What one response may do to one order.\<close>

definition order_moves :: "OMOrder \<Rightarrow> OMOrder \<Rightarrow> bool" where
  "order_moves o1 o2 \<longleftrightarrow> oo_request o2 = oo_request o1 \<and> (oo_state o2 = oo_state o1 \<or> lifecycle (oo_state o1) (oo_state o2)) \<and>
     uint (oo_filled_qty o1) \<le> uint (oo_filled_qty o2) \<and> uint (oo_filled_qty o2) \<le> uint (rq_qty (oo_request o1))"

lemma order_ok_filled: "order_ok o' \<Longrightarrow> uint (oo_filled_qty o') \<le> uint (rq_qty (oo_request o'))"
  by (auto simp: order_ok_def Let_def word_less_def split: OMOrderState.splits)

lemma order_ok_live: "order_ok o' \<Longrightarrow> \<not> finished (oo_state o') \<Longrightarrow> oo_state o' \<in> {NOT_ACTIVE, ACTIVE, PARTIALLY_FILLED}"
  by (cases "oo_state o'") (auto simp: order_ok_def finished_def Let_def)

lemma order_moves_advances: "order_moves o1 o2 \<Longrightarrow> oo_state o1 \<le> oo_state o2"
  by (auto simp: order_moves_def lifecycle_advances)

lemma order_moves_refl: "order_ok o' \<Longrightarrow> order_moves o' o'"
  by (simp add: order_moves_def order_ok_filled)

lemma fill_order_moves:
  assumes "order_ok o'" and "\<not> finished (oo_state o')"
    and "uint (oo_filled_qty o') + uint (rs_executed_qty rs) \<le> uint (rq_qty (oo_request o'))"
  shows "order_moves o' (fill_order o' rs)"
  using fill_order_simps [OF assms(3)] assms(3) order_ok_live [OF assms(1,2)]
  by (auto simp: order_moves_def intro: lifecycle.intros)

lemma state_moves:
  assumes "order_ok o'" and "oo_request o2 = oo_request o'" and "oo_filled_qty o2 = oo_filled_qty o'"
    and "oo_state o2 = oo_state o' \<or> lifecycle (oo_state o') (oo_state o2)"
  shows "order_moves o' o2"
  using assms order_ok_filled [OF assms(1)] by (simp add: order_moves_def)

context risk_gate
begin

lemma response_moves:
  assumes inv: "om_inv rinv resv c" and find: "om_find (cx_om c) (rs_client_order_id rs) = Some i"
    and res: "om_onOrderResponse ops rs c = (ok, c')"
  shows "om_orders (cx_om c') = om_orders (cx_om c) \<or>
    (\<exists>o2. om_orders (cx_om c') = (om_orders (cx_om c))[i := o2] \<and> order_moves (om_orders (cx_om c) ! i) o2)"
proof -
  note f = om_find_Some [OF find]
  let ?o = "om_orders (cx_om c) ! i"
  have ok: "order_ok ?o" using inv f(1) by (rule om_inv_order)
  obtain b r t where rs: "ro_onOrderResponse ops rs (cx_risk c) (cx_pnl c) = (b, r, t)" by (metis prod_cases3)
  have live: "b \<Longrightarrow> \<not> finished (oo_state ?o)" using respond_order(1) [OF inv f(1,2)] rs by auto
  note open' = order_ok_live [OF ok] order_ok_open(1) [OF ok]
  note defs = om_onOrderResponse_def Let_def find put_order_def
  show ?thesis
  proof (cases "rs_status rs")
    case ACCEPTED
    with res show ?thesis
      by (auto simp: defs intro!: state_moves [OF ok] lifecycle.intros split: if_splits)
  next
    case EXECUTED
    with res rs open' show ?thesis
      by (auto simp: defs not_less intro!: state_moves [OF ok] fill_order_moves [OF ok] lifecycle.intros
          split: if_splits bool.splits)
  next
    case CANCELED
    have "order_moves ?o (?o\<lparr>oo_is_cancel_requested := False, oo_state := if oo_filled_qty ?o = rq_qty (oo_request ?o)
        then COMPLETED else CANCELLED\<rparr>)" if "oo_state ?o \<noteq> COMPLETED" "oo_state ?o \<noteq> DEAD"
      using ok that by (intro state_moves [OF ok]; cases "oo_state ?o")
        (auto simp: order_ok_def Let_def intro: lifecycle.intros)
    with res rs CANCELED show ?thesis by (auto simp: defs split: if_splits bool.splits)
  next
    case REJECTED
    with res rs open' live show ?thesis
      by (auto simp: defs intro!: state_moves [OF ok] lifecycle.intros split: if_splits bool.splits)
  next
    case CANCEL_REJECTED
    with res show ?thesis by (auto simp: defs intro!: state_moves [OF ok] split: if_splits)
  qed
qed

lemma response_lifecycle:
  assumes inv: "om_inv rinv resv c" and res: "om_onOrderResponse ops rs c = (ok, c')"
  shows "length (om_orders (cx_om c')) = length (om_orders (cx_om c)) \<and>
    (\<forall>i < length (om_orders (cx_om c)). order_moves (om_orders (cx_om c) ! i) (om_orders (cx_om c') ! i) \<and>
      (oid_of (om_orders (cx_om c) ! i) \<noteq> rs_client_order_id rs \<longrightarrow>
        om_orders (cx_om c') ! i = om_orders (cx_om c) ! i))"
proof (cases "om_find (cx_om c) (rs_client_order_id rs)")
  case None
  with res om_inv_order(1) [OF inv] show ?thesis by (auto simp: om_onOrderResponse_def order_moves_refl)
next
  case (Some i)
  from response_moves [OF inv Some res] om_find_Some(1,2) [OF Some] om_inv_order(1) [OF inv] show ?thesis
    by (auto simp: order_moves_refl nth_list_update)
qed

lemma replace_accepted:
  assumes inv: "om_inv rinv resv c" and left: "ids_left (cx_allocator c)"
    and find: "om_find (cx_om c) oid = Some i" and op: "\<not> finished (oo_state (om_orders (cx_om c) ! i))"
    and new: "new = fst (alloc_next s (cx_allocator c))"
  shows "fst (ro_onReplaced ops oid new (cx_risk c))"
proof -
  note f = om_find_Some [OF find]
  have core: "om_core rinv resv (cx_risk c) (om_orders (cx_om c)) (om_MaxOrders (cx_om c)) (cx_allocator c)"
    using inv by (simp add: om_inv_def)
  have "new \<noteq> 0" unfolding new by (rule alloc_next_nonzero [OF left])
  then show ?thesis
  proof (rule replace_total [OF om_coreD(1) [OF core]])
    show "resv (cx_risk c) new = None"
      using om_coreD(2) [OF core] keyed_None_iff [of oid_of "om_orders (cx_om c)" new] new
        om_core_fresh [OF core left, of s] by (simp add: booked_def)
    show "resv (cx_risk c) oid \<noteq> None"
      using om_inv_order(3) [OF inv f(1)] f(2) op by (simp add: order_reservation_def)
  qed
qed

lemma replace_atomic:
  assumes inv: "om_inv rinv resv c" and left: "ids_left (cx_allocator c)"
    and rep: "sendReplace ops oid p q c = (ok, c')"
  shows "if ok then \<exists>new. q_pushed (cx_outgoing c') = q_pushed (cx_outgoing c) @
        [(replaced_request (the (om_get (cx_om c) oid)) oid p q)\<lparr>rq_new_client_order_id := new\<rparr>] \<and>
        om_get (cx_om c') oid = None \<and> om_get (cx_om c) new = None \<and>
        om_get (cx_om c') new = map_option (\<lambda>o'. o'\<lparr>oo_request := replaced_request o' new p q\<rparr>) (om_get (cx_om c) oid)
    else q_pushed (cx_outgoing c') = q_pushed (cx_outgoing c) \<and> cx_risk c' = cx_risk c \<and> cx_om c' = cx_om c"
proof (cases "om_find (cx_om c) oid")
  case None
  with rep show ?thesis by (auto simp: sendReplace_def)
next
  case (Some i)
  note f = om_find_Some [OF Some]
  let ?o = "om_orders (cx_om c) ! i"
  have core: "om_core rinv resv (cx_risk c) (om_orders (cx_om c)) (om_MaxOrders (cx_om c)) (cx_allocator c)"
    and has: "om_has_risk (cx_om c)" using inv by (simp_all add: om_inv_def)
  obtain new al where n: "alloc_next (om_slot (cx_om c)) (cx_allocator c) = (new, al)" by fastforce
  have fresh: "new \<notin> oid_of ` set (om_orders (cx_om c))"
    using om_core_fresh [OF core left, of "om_slot (cx_om c)"] n by simp
  have total: "fst (ro_onReplaced ops oid new (cx_risk c))" if "\<not> finished (oo_state ?o)"
    using replace_accepted [OF inv left Some that, of new "om_slot (cx_om c)"] n by simp
  have upd: "keyed oid_of ((om_orders (cx_om c))[i := ?o\<lparr>oo_request := replaced_request ?o new p q\<rparr>]) =
      (keyed oid_of (om_orders (cx_om c)))(oid := None, new \<mapsto> ?o\<lparr>oo_request := replaced_request ?o new p q\<rparr>)"
    using keyed_update [OF om_coreD(3) [OF core] f(1), of "?o\<lparr>oo_request := replaced_request ?o new p q\<rparr>"] fresh f(2)
    by (simp add: replaced_request_def)
  have neq: "oid \<noteq> new" using f(2,4) fresh by auto
  show ?thesis
    using rep Some n total upd f(3) neq fresh has keyed_None_iff [of oid_of "om_orders (cx_om c)" new]
    by (auto simp: sendReplace_def Let_def om_get_keyed put_order_def replaced_request_def
        dest: push_True push_False replace_fail split: if_splits prod.splits bool.splits)
qed

end


subsection \<open>Average fill price\<close>

lemma fill_order_avg:
  assumes x: "rs_executed_qty rs \<noteq> 0"
    and fit: "uint (oo_filled_qty o') + uint (rs_executed_qty rs) \<le> uint (rq_qty (oo_request o'))"
    and old: "oo_filled_qty o' \<noteq> 0 \<Longrightarrow> lo \<le> sint (oo_avg_fill_price o') \<and> sint (oo_avg_fill_price o') \<le> hi"
    and new: "lo \<le> sint (rs_execution_price rs)" "sint (rs_execution_price rs) \<le> hi"
  shows "lo \<le> sint (oo_avg_fill_price (fill_order o' rs)) \<and> sint (oo_avg_fill_price (fill_order o' rs)) \<le> hi"
proof (cases "oo_filled_qty o' = 0")
  case True
  then show ?thesis using new by (simp add: fill_order_def Let_def i32_def)
next
  case False
  define f where "f = oo_filled_qty o'"
  define q where "q = rs_executed_qty rs"
  define v where "v = (sint (oo_avg_fill_price o') * uint f + sint (rs_execution_price rs) * uint q) sdiv (uint f + uint q)"
  have "0 < uint q" using x uint32_pos [of q] by (simp add: q_def)
  then have pos: "0 < uint f + uint q" using uint32_bounds(1) [of f] by linarith
  define lo' where "lo' = max lo (- 2147483648)"
  define hi' where "hi' = min hi 2147483647"
  have v: "lo' \<le> v \<and> v \<le> hi'"
    unfolding v_def
  proof (rule sdiv_enclosed [OF pos])
    have in_range: "lo' \<le> sint (oo_avg_fill_price o')" "sint (oo_avg_fill_price o') \<le> hi'"
      "lo' \<le> sint (rs_execution_price rs)" "sint (rs_execution_price rs) \<le> hi'"
      using old [OF False] new sint32_bounds [of "oo_avg_fill_price o'"] sint32_bounds [of "rs_execution_price rs"]
      by (simp_all add: lo'_def hi'_def)
    then show "lo' * (uint f + uint q) \<le> sint (oo_avg_fill_price o') * uint f + sint (rs_execution_price rs) * uint q"
      and "sint (oo_avg_fill_price o') * uint f + sint (rs_execution_price rs) * uint q \<le> hi' * (uint f + uint q)"
      by (rule weighted_between; simp)+
  qed
  have fq: "uint (f + q) = uint f + uint q" "i32 (uint f + uint q) = f + q"
    using fill_order_simps(2,3) [OF fit] by (simp_all add: f_def q_def i32_def)
  have "f + q \<noteq> q" using False by (simp add: f_def)
  then have "oo_avg_fill_price (fill_order o' rs) = i32 v"
    by (simp add: fill_order_def Let_def v_def fq flip: f_def q_def)
  moreover have "sint (i32 v) = v" using v by (intro sint_i32) (simp_all add: lo'_def hi'_def)
  ultimately show ?thesis using v by (simp add: lo'_def hi'_def)
qed

lemma RiskManager_canSubmit: "ro_canSubmit RiskManager_ops = canSubmit"
  by (simp add: RiskManager_ops_def)

subsection \<open>Properties\<close>


text \<open>
  C8.  \<^verbatim>\<open>sendNewOrder\<close> is all or nothing: it returns true exactly when the request went to the gateway,
  and then the request passed the risk check, its full quantity is reserved under its fresh id and the
  order is recorded; when it returns false nothing was sent, reserved, recorded or notified.  In
  particular \<^verbatim>\<open>onSubmitted\<close> never refuses a request that has already been pushed.
\<close>

theorem sendNewOrder_all_or_nothing:
  assumes "om_inv risk_inv reservations c" and "sendNewOrder RiskManager_ops rq pos c = (ok, c')"
  shows "if ok then \<exists>rq'. q_pushed (cx_outgoing c') = q_pushed (cx_outgoing c) @ [rq'] \<and>
        canSubmit (cx_risk c) rq' pos = RISK_ACCEPTED \<and>
        reservations (cx_risk c') = (reservations (cx_risk c))(rq_client_order_id rq' \<mapsto> pending_of rq') \<and>
        new_order rq' \<in> set (om_orders (cx_om c'))
    else q_pushed (cx_outgoing c') = q_pushed (cx_outgoing c) \<and> cx_risk c' = cx_risk c \<and>
        om_orders (cx_om c') = om_orders (cx_om c) \<and> cx_notified c' = cx_notified c"
  using rm.new_order_atomic [OF assms] by (simp only: RiskManager_canSubmit)



text \<open>
  The average fill price stays between the lowest and the highest execution price: the 128-bit
  weighted sum, its truncating division and the cast to 32 bits lose no more than the rounding.
\<close>

theorem avg_fill_price_bounds:
  assumes "rs_executed_qty rs \<noteq> 0"
    and "uint (oo_filled_qty o') + uint (rs_executed_qty rs) \<le> uint (rq_qty (oo_request o'))"
    and "oo_filled_qty o' \<noteq> 0 \<longrightarrow> lo \<le> sint (oo_avg_fill_price o') \<and> sint (oo_avg_fill_price o') \<le> hi"
    and "lo \<le> sint (rs_execution_price rs)" and "sint (rs_execution_price rs) \<le> hi"
  shows "lo \<le> sint (oo_avg_fill_price (fill_order o' rs)) \<and> sint (oo_avg_fill_price (fill_order o' rs)) \<le> hi"
  using assms by (intro fill_order_avg) auto

text \<open>A slot as the engine sets it up: one registered ticker with the shipped limits, nothing sent yet.\<close>

definition fresh_slot :: "(RiskManager, PnLTracker) OmCtx" where
  "fresh_slot = \<lparr>cx_om = initialize True True True True 1 True (OrderManager_init 256),
     cx_risk = snd (risk_registerTicker 7 default_limits (RiskManager_init 16 64)),
     cx_pnl = snd (pnl_registerTicker 7 (PnLTracker_init 16)),
     cx_outgoing = roomy_queue, cx_allocator = OrderIdAllocator_init 2, cx_notified = []\<rparr>"

definition om_new :: "OrderRequest \<Rightarrow> (RiskManager, PnLTracker) OmCtx \<Rightarrow> (RiskManager, PnLTracker) OmCtx" where
  "om_new rq c = snd (sendNewOrder RiskManager_ops rq (the (pnl_get (cx_pnl c) (rq_ticker_id rq))) c)"

definition om_respond :: "OrderResponse \<Rightarrow> (RiskManager, PnLTracker) OmCtx \<Rightarrow> (RiskManager, PnLTracker) OmCtx" where
  "om_respond rs c = snd (om_onOrderResponse RiskManager_ops rs c)"

definition first_id :: OrderId where
  "first_id = 0x0001000000000001"

definition second_id :: OrderId where
  "second_id = 0x0001000000000002"

definition one_order :: "(RiskManager, PnLTracker) OmCtx" where
  "one_order = om_new (ioc 0 BUY 1000000 10) fresh_slot"

text \<open>
  A replacement escapes the risk limits: it is neither checked against the order-quantity limit nor
  reflected in the reservation.  With an order limit of 10 and a position limit of 100, an order of 10
  is replaced by one of 1000 and the request is sent; the reservation stays 10, so the first fill of
  more than 10 is refused, the order is declared DEAD and the executed shares never reach the position.
\<close>

theorem replace_escapes_limits:
  "fst (sendReplace RiskManager_ops first_id 1000000 1000 one_order) \<and>
   rq_qty (last (q_pushed (cx_outgoing (snd (sendReplace RiskManager_ops first_id 1000000 1000 one_order))))) = 1000 \<and>
   (let c = snd (sendReplace RiskManager_ops first_id 1000000 1000 one_order);
        c' = om_respond (fill second_id 1000000 500) c
    in map_option po_reserved_qty (reservations (cx_risk c) second_id) = Some 10 \<and>
       map_option oo_state (om_get (cx_om c') second_id) = Some DEAD \<and>
       map_option net_qty (pnl_get (cx_pnl c') 7) = Some 0)"
  by code_simp

text \<open>
  A cancellation that reports less than the open quantity leaks exposure: the order becomes
  CANCELLED and its slot is free for reuse, yet the risk manager keeps the rest of the reservation for
  ever, since every later response for the order is refused.
\<close>

theorem partial_cancel_leaks_reservation:
  "(let rs = OrderResponse_init\<lparr>rs_client_order_id := first_id, rs_canceled_qty := 4, rs_status := CANCELED\<rparr>;
        c = om_respond rs one_order;
        c' = om_new (ioc 0 BUY 1000000 10) c
    in map_option oo_state (om_get (cx_om c) first_id) = Some CANCELLED \<and>
       om_get (cx_om c') first_id = None \<and>
       map_option po_reserved_qty (reservations (cx_risk c') first_id) = Some 6 \<and>
       \<not> fst (om_onOrderResponse RiskManager_ops (rs\<lparr>rs_canceled_qty := 6\<rparr>) c'))"
  by code_simp


subsection \<open>Witnesses\<close>

lemma fresh_slot_inv: "om_inv risk_inv reservations fresh_slot"
proof -
  have "risk_inv (cx_risk fresh_slot)" by code_simp
  moreover have "rm_pending (cx_risk fresh_slot) = []" "om_orders (cx_om fresh_slot) = []" by code_simp+
  moreover have "reservations r = booked []" if "rm_pending r = []" for r
    using that by (auto simp: reservations_def booked_def keyed_def)
  moreover have "counter_ok (cx_allocator fresh_slot)" by (simp add: fresh_slot_def OrderIdAllocator_init_def counter_ok_def)
  ultimately show ?thesis
    by (simp add: om_inv_def om_core_def) (simp add: fresh_slot_def initialize_def)
qed

lemma fresh_slot_ids: "ids_left (cx_allocator fresh_slot)"
  by (simp add: fresh_slot_def OrderIdAllocator_init_def ids_left_def)

lemma one_order_step: "om_step RiskManager_ops fresh_slot one_order"
  unfolding one_order_def om_new_def using fresh_slot_ids by (rule step_new)

lemma one_order_inv: "om_inv risk_inv reservations one_order"
  using one_order_step fresh_slot_inv by (rule rm.om_inv_step)


lemma fresh_send:
  "sendNewOrder RiskManager_ops (ioc 0 BUY 1000000 10) (the (pnl_get (cx_pnl fresh_slot) 7)) fresh_slot = (True, one_order)"
proof -
  have "fst (sendNewOrder RiskManager_ops (ioc 0 BUY 1000000 10) (the (pnl_get (cx_pnl fresh_slot) 7)) fresh_slot)"
    by code_simp
  moreover have "rq_ticker_id (ioc 0 BUY 1000000 10) = 7" by code_simp
  ultimately show ?thesis by (simp add: one_order_def om_new_def prod_eq_iff)
qed

theorem sendNewOrder_all_or_nothing_witness:
  "\<exists>rq'. q_pushed (cx_outgoing one_order) = q_pushed (cx_outgoing fresh_slot) @ [rq'] \<and>
     canSubmit (cx_risk fresh_slot) rq' (the (pnl_get (cx_pnl fresh_slot) 7)) = RISK_ACCEPTED \<and>
     reservations (cx_risk one_order) = (reservations (cx_risk fresh_slot))(rq_client_order_id rq' \<mapsto> pending_of rq') \<and>
     new_order rq' \<in> set (om_orders (cx_om one_order))"
  using sendNewOrder_all_or_nothing [OF fresh_slot_inv fresh_send] by (simp only: if_True)



theorem avg_fill_price_bounds_witness:
  "1000000 \<le> sint (oo_avg_fill_price (fill_order (fill_order (new_order (ioc 1 BUY 1010000 10)) (fill 1 1000000 3))
     (fill 1 1005000 4)))"
proof -
  let ?o = "fill_order (new_order (ioc 1 BUY 1010000 10)) (fill 1 1000000 3)"
  have "rs_executed_qty (fill 1 1005000 4) \<noteq> 0"
    "uint (oo_filled_qty ?o) + uint (rs_executed_qty (fill 1 1005000 4)) \<le> uint (rq_qty (oo_request ?o))"
    "oo_filled_qty ?o \<noteq> 0 \<longrightarrow> 1000000 \<le> sint (oo_avg_fill_price ?o) \<and> sint (oo_avg_fill_price ?o) \<le> 1005000"
    "1000000 \<le> sint (rs_execution_price (fill 1 1005000 4))" "sint (rs_execution_price (fill 1 1005000 4)) \<le> 1005000"
    by code_simp+
  from avg_fill_price_bounds [OF this] show ?thesis by (rule conjunct1)
qed


end
