(* ===== verification/Strategy.thy ===== *)
theory Strategy
  imports Features Order_Manager
begin

text \<open>
  The strategy interface of \<^verbatim>\<open>src/trading/strategy.h\<close> and its one implementation, \<^verbatim>\<open>LiquidityTaker\<close>.  The
  concept \<^verbatim>\<open>Strategy\<close> is a record of the three hooks; the locale \<open>strategy_contract\<close> states what the engine
  relies on: a hook acts on its slot only through the order manager, draws a bounded number of ids, reports
  the number of requests it sent and leaves the positions alone.

  An entry's \<^verbatim>\<open>book\<close> pointer is the index of the shared book in the engine's ticker registry; a hook is
  handed the book it points to.  Entries are only ever used once \<^verbatim>\<open>registerTicker\<close> has filled in their
  features, so the \<^verbatim>\<open>std::optional\<close> is not part of the model.
\<close>

record IocSignalConfig =
  sc_order_qty :: Quantity
  sc_entry_imbalance :: Ratio

definition IocSignalConfig_init :: IocSignalConfig where
  "IocSignalConfig_init = \<lparr>sc_order_qty = 0, sc_entry_imbalance = i32 Ratio_SCALE\<rparr>"

record 'f Entry =
  en_ticker_id :: TickerId
  en_book :: nat
  en_features :: 'f

type_synonym slot_ctx = "(RiskManager, PnLTracker) OmCtx"
type_synonym ('s, 'f, 'p) hook = "'f Entry \<Rightarrow> 'p MarketOrderBook \<Rightarrow> MarketUpdate \<Rightarrow> slot_ctx \<Rightarrow> 's \<Rightarrow> nat \<times> 's \<times> slot_ctx"

record ('s, 'f, 'p) StrategyOps =
  st_onBookUpdate :: "('s, 'f, 'p) hook"
  st_onTrade :: "('s, 'f, 'p) hook"
  st_onOrderUpdate :: "OMOrder \<Rightarrow> 's \<Rightarrow> 's"

subsection \<open>The liquidity taker\<close>

record LiquidityTaker =
  lt_config :: IocSignalConfig

definition ioc_request :: "TickerId \<Rightarrow> Side \<Rightarrow> Price \<Rightarrow> Quantity \<Rightarrow> OrderRequest" where
  "ioc_request t s p q = \<lparr>rq_type = RQ_NEW, rq_client_order_id = 0, rq_new_client_order_id = 0, rq_ticker_id = t,
     rq_side = s, rq_price = p, rq_qty = q, rq_ioc = True\<rparr>"

definition evaluate :: "TradingFeatures Entry \<Rightarrow> 'p MarketOrderBook \<Rightarrow> slot_ctx \<Rightarrow> LiquidityTaker \<Rightarrow> nat \<times> LiquidityTaker \<times> slot_ctx" where
  "evaluate entry book c lt =
     (let cfg = lt_config lt;
          imb = ob_imbalance (tf_imbalance (en_features entry))
      in if imb = Ratio_INVALID \<or> sc_order_qty cfg = 0 then (0, lt, c)
      else
        let bbo = getBBO book;
            signal = (if sint (sc_entry_imbalance cfg) \<le> sint imb then Some (BUY, ask_price bbo)
                      else if sint imb \<le> sint (i32 (- sint (sc_entry_imbalance cfg))) then Some (SELL, bid_price bbo)
                      else None)
        in case signal of
             None \<Rightarrow> (0, lt, c)
           | Some (side, price) \<Rightarrow>
               (case pnl_get (cx_pnl c) (en_ticker_id entry) of
                  None \<Rightarrow> (0, lt, c)
                | Some position \<Rightarrow>
                    if price = Price_INVALID then (0, lt, c)
                    else
                      let (ok, c') = sendNewOrder RiskManager_ops
                            (ioc_request (en_ticker_id entry) side price (sc_order_qty cfg)) position c
                      in (if ok then 1 else 0, lt, c')))"

definition lt_onBookUpdate :: "(LiquidityTaker, TradingFeatures, 'p) hook" where
  "lt_onBookUpdate entry book update c lt = evaluate entry book c lt"

definition lt_onTrade :: "(LiquidityTaker, TradingFeatures, 'p) hook" where
  "lt_onTrade entry book update c lt = evaluate entry book c lt"

definition lt_onOrderUpdate :: "OMOrder \<Rightarrow> LiquidityTaker \<Rightarrow> LiquidityTaker" where
  "lt_onOrderUpdate order lt = lt"

definition LiquidityTaker_ops :: "(LiquidityTaker, TradingFeatures, 'p) StrategyOps" where
  "LiquidityTaker_ops = \<lparr>st_onBookUpdate = lt_onBookUpdate, st_onTrade = lt_onTrade, st_onOrderUpdate = lt_onOrderUpdate\<rparr>"

subsection \<open>The contract\<close>

definition ids_for :: "nat \<Rightarrow> OrderIdAllocator \<Rightarrow> bool" where
  "ids_for n a \<longleftrightarrow> 0 < unat (counter a) \<and> unat (counter a) + n \<le> 281474976710656"

lemma ids_for_1: "ids_for (Suc 0) a \<longleftrightarrow> ids_left a"
  by (auto simp: ids_for_def ids_left_def)

definition used_ids :: "OrderIdAllocator \<Rightarrow> OrderIdAllocator \<Rightarrow> nat \<Rightarrow> bool" where
  "used_ids a a' n \<longleftrightarrow> slot_count a' = slot_count a \<and> unat (counter a) \<le> unat (counter a') \<and> unat (counter a') \<le> unat (counter a) + n"

text \<open>What a hook may do to its slot, given that it sent \<open>n\<close> requests and had \<open>k\<close> ids to draw.\<close>

definition hook_effect :: "nat \<Rightarrow> nat \<Rightarrow> slot_ctx \<Rightarrow> slot_ctx \<Rightarrow> bool" where
  "hook_effect k n c c' \<longleftrightarrow> om_steps RiskManager_ops c c' \<and> cx_pnl c' = cx_pnl c \<and> used_ids (cx_allocator c) (cx_allocator c') k \<and>
     (\<exists>rqs. q_pushed (cx_outgoing c') = q_pushed (cx_outgoing c) @ rqs \<and> length rqs = n)"

locale strategy_contract =
  fixes ops :: "('s, 'f, 'p) StrategyOps" and budget :: nat
  assumes book_update: "om_inv risk_inv reservations c \<Longrightarrow> ids_for budget (cx_allocator c) \<Longrightarrow>
      st_onBookUpdate ops e b u c s = (n, s', c') \<Longrightarrow> hook_effect budget n c c'"
    and trade: "om_inv risk_inv reservations c \<Longrightarrow> ids_for budget (cx_allocator c) \<Longrightarrow>
      st_onTrade ops e b u c s = (n, s', c') \<Longrightarrow> hook_effect budget n c c'"

lemma used_ids_next: "ids_left a \<Longrightarrow> used_ids a (snd (alloc_next s a)) (Suc 0)"
  using ids_left_counter [of a s] by (simp add: used_ids_def)

lemma used_ids_refl [simp]: "used_ids a a n"
  by (simp add: used_ids_def)

lemma hook_effect_refl: "hook_effect k 0 c c"
  by (simp add: hook_effect_def)

lemma sendNewOrder_effect:
  assumes inv: "om_inv risk_inv reservations c" and ids: "ids_left (cx_allocator c)"
    and send: "sendNewOrder RiskManager_ops rq pos c = (ok, c')"
  shows "hook_effect (Suc 0) (if ok then 1 else 0) c c'"
proof -
  have "om_step RiskManager_ops c c'" using om_step.step_new [OF ids, of RiskManager_ops rq pos] send by simp
  moreover have "cx_pnl c' = cx_pnl c \<and> used_ids (cx_allocator c) (cx_allocator c') (Suc 0)"
    using send
  proof (cases rule: sendNewOrder_cases)
    case (sent rq' q b r)
    then show ?thesis using used_ids_next [OF ids, of "om_slot (cx_om c)"] by (cases b) simp_all
  qed (use used_ids_next [OF ids, of "om_slot (cx_om c)"] in simp_all)
  moreover have "\<exists>rqs. q_pushed (cx_outgoing c') = q_pushed (cx_outgoing c) @ rqs \<and> length rqs = (if ok then 1 else 0)"
    using rm.new_order_atomic [OF inv send] by (cases ok) auto
  ultimately show ?thesis unfolding hook_effect_def by blast
qed

text \<open>The cases of an evaluation: nothing happens, or one request goes through the order manager.\<close>

lemma evaluate_cases:
  assumes "evaluate entry book c lt = (n, lt', c')"
  obtains (quiet) "n = 0" and "lt' = lt" and "c' = c"
  | (fires) side price position ok where "lt' = lt" and "n = (if ok then 1 else 0)"
      and "sendNewOrder RiskManager_ops (ioc_request (en_ticker_id entry) side price (sc_order_qty (lt_config lt))) position c = (ok, c')"
      and "ob_imbalance (tf_imbalance (en_features entry)) \<noteq> Ratio_INVALID" and "price \<noteq> Price_INVALID"
      and "side = BUY \<and> price = ask_price (getBBO book) \<and>
             sint (sc_entry_imbalance (lt_config lt)) \<le> sint (ob_imbalance (tf_imbalance (en_features entry))) \<or>
           side = SELL \<and> price = bid_price (getBBO book) \<and>
             sint (ob_imbalance (tf_imbalance (en_features entry))) \<le> sint (i32 (- sint (sc_entry_imbalance (lt_config lt))))"
  using assms unfolding evaluate_def Let_def
  by (auto split: if_splits option.splits prod.splits)

lemma evaluate_effect:
  assumes "om_inv risk_inv reservations c" and "ids_for (Suc 0) (cx_allocator c)" and "evaluate entry book c lt = (n, lt', c')"
  shows "hook_effect (Suc 0) n c c'"
  using assms(3)
proof (cases rule: evaluate_cases)
  case quiet
  then show ?thesis by (simp add: hook_effect_refl)
next
  case (fires side price position ok)
  then show ?thesis using sendNewOrder_effect [OF assms(1) _ fires(3)] assms(2) by (simp add: ids_for_1)
qed

interpretation lt: strategy_contract LiquidityTaker_ops "Suc 0"
  by unfold_locales (auto simp: LiquidityTaker_ops_def lt_onBookUpdate_def lt_onTrade_def intro: evaluate_effect)

subsection \<open>Properties\<close>

text \<open>
  C36.  The liquidity taker only ever takes at the quote: an evaluation sends at most one request, and if it
  sends one, it is an immediate-or-cancel order for the configured quantity in the entry's ticker that the
  risk manager accepted, a buy at the best ask with the imbalance at or above the threshold or a sell at the
  best bid with the imbalance at or below its negative, never at an invalid price.
\<close>

theorem taker_sends_ioc_at_quote:
  assumes inv: "om_inv risk_inv reservations c" and ev: "evaluate entry book c lt = (n, lt', c')"
  shows "lt' = lt \<and> (n = 0 \<and> q_pushed (cx_outgoing c') = q_pushed (cx_outgoing c) \<or>
    n = 1 \<and> (\<exists>rq pos. q_pushed (cx_outgoing c') = q_pushed (cx_outgoing c) @ [rq] \<and>
      rq_type rq = RQ_NEW \<and> rq_ioc rq \<and> rq_ticker_id rq = en_ticker_id entry \<and> rq_qty rq = sc_order_qty (lt_config lt) \<and>
      rq_price rq \<noteq> Price_INVALID \<and> canSubmit (cx_risk c) rq pos = RISK_ACCEPTED \<and>
      (rq_side rq = BUY \<and> rq_price rq = ask_price (getBBO book) \<and>
         sint (sc_entry_imbalance (lt_config lt)) \<le> sint (ob_imbalance (tf_imbalance (en_features entry))) \<or>
       rq_side rq = SELL \<and> rq_price rq = bid_price (getBBO book) \<and>
         sint (ob_imbalance (tf_imbalance (en_features entry))) \<le> sint (i32 (- sint (sc_entry_imbalance (lt_config lt)))))))"
  using ev
proof (cases rule: evaluate_cases)
  case quiet
  then show ?thesis by simp
next
  case (fires side price position ok)
  show ?thesis
  proof (cases ok)
    case False
    then show ?thesis using fires(1,2) rm.new_order_atomic [OF inv fires(3)] by simp
  next
    case True
    from fires(3) True show ?thesis
    proof (cases rule: sendNewOrder_cases)
      case (sent rq' q b r)
      then show ?thesis using fires True push_True [OF sent(4)]
        by (auto simp: ioc_request_def RiskManager_ops_def intro!: exI [of _ rq'] exI [of _ position])
    qed auto
  qed
qed

text \<open>A bid of 30 against an ask of 10 at 104 for ticker 7, and a taker that fires from an imbalance of 300000.\<close>

definition tilted_book :: "unit MarketOrderBook" where
  "tilted_book = (MarketOrderBook_init 7 ())\<lparr>bk_bbo := \<lparr>bid_price = 100, bid_qty = 30, ask_price = 104, ask_qty = 10\<rparr>\<rparr>"

definition tilted_entry :: "TradingFeatures Entry" where
  "tilted_entry = \<lparr>en_ticker_id = 7, en_book = 0,
     en_features = tf_onMarketUpdate MarketUpdate_init tilted_book TradingFeatures_init\<rparr>"

definition shipped_taker :: LiquidityTaker where
  "shipped_taker = \<lparr>lt_config = \<lparr>sc_order_qty = 10, sc_entry_imbalance = 300000\<rparr>\<rparr>"

lemma tilted_fires: "fst (evaluate tilted_entry tilted_book fresh_slot shipped_taker) = 1"
  by code_simp

theorem taker_sends_ioc_at_quote_witness:
  "\<exists>rq. q_pushed (cx_outgoing (snd (snd (evaluate tilted_entry tilted_book fresh_slot shipped_taker))))
      = q_pushed (cx_outgoing fresh_slot) @ [rq] \<and> rq_ioc rq \<and> rq_qty rq = 10"
proof -
  obtain n lt' c' where ev: "evaluate tilted_entry tilted_book fresh_slot shipped_taker = (n, lt', c')" by (metis prod_cases3)
  have "n = 1" using tilted_fires ev by simp
  with taker_sends_ioc_at_quote [OF fresh_slot_inv ev] ev show ?thesis
    by (auto simp: shipped_taker_def)
qed

end
