(* ===== verification/Trade_Engine.thy ===== *)
theory Trade_Engine
  imports Strategy
begin

text \<open>
  The event loop of \<^verbatim>\<open>src/trading/trade_engine.h\<close>: one book per ticker, shared by the strategy slots; per slot
  a strategy, a PnL tracker, a risk manager and an order manager; one id allocator and one request queue for
  all of them.  An operation of a slot runs on the context made of the slot's own components and the shared
  allocator and queue, and is written back afterwards; the callback \<^verbatim>\<open>onOrderUpdateForwarder\<close> hands the orders
  that the order manager notified to the slot's strategy.

  The arrays \<^verbatim>\<open>slots_[0..slot_count_)\<close>, \<^verbatim>\<open>tickers_[0..book_count_)\<close> and \<^verbatim>\<open>entries_[0..count_)\<close> are lists.  The
  queues the engine consumes are the lists of elements that its \<^verbatim>\<open>pop\<close> calls return; the thread, its pinning and
  the sleeps are left out, the loop is a recursion over what each iteration observes.
\<close>

record StrategyRunResult =
  rr_market_updates :: nat
  rr_responses :: nat
  rr_orders_submitted :: nat
  rr_rejected_responses :: nat

definition StrategyRunResult_init :: StrategyRunResult where
  "StrategyRunResult_init = \<lparr>rr_market_updates = 0, rr_responses = 0, rr_orders_submitted = 0, rr_rejected_responses = 0\<rparr>"

record 'p TickerBook =
  tb_ticker_id :: TickerId
  tb_book :: "'p MarketOrderBook"

record ('s, 'f) Slot =
  sl_strategy :: 's
  sl_pnl :: PnLTracker
  sl_risk :: RiskManager
  sl_om :: OrderManager
  sl_entries :: "'f Entry list"

record ('s, 'f, 'p) TradeEngine =
  te_MaxSlots :: nat
  te_MaxTickers :: nat
  te_slots :: "('s, 'f) Slot list"
  te_tickers :: "'p TickerBook list"
  te_allocator :: OrderIdAllocator
  te_requests :: "OrderRequest SPSCQueue"
  te_book_pool :: 'p               \<comment> \<open>the state of a new \<^verbatim>\<open>ObjectPool(book_pool_size_)\<close>\<close>
  te_has_gate :: bool              \<comment> \<open>\<^verbatim>\<open>sync_gate_\<close> is not null\<close>

text \<open>The feature set of the template: its initial state, its update and the market price it must contain.\<close>

record ('f, 'p) FeatureOps =
  fo_init :: 'f
  fo_onMarketUpdate :: "MarketUpdate \<Rightarrow> 'p MarketOrderBook \<Rightarrow> 'f \<Rightarrow> 'f"
  fo_mkt_price :: "'f \<Rightarrow> Price"

definition TradingFeatures_ops :: "(TradingFeatures, 'p) FeatureOps" where
  "TradingFeatures_ops = \<lparr>fo_init = TradingFeatures_init, fo_onMarketUpdate = tf_onMarketUpdate,
     fo_mkt_price = (\<lambda>f. mp_price (tf_mkt_price f))\<rparr>"

subsection \<open>Construction\<close>

definition new_slot :: "nat \<Rightarrow> nat \<Rightarrow> 's \<Rightarrow> nat \<Rightarrow> ('s, 'f) Slot" where
  "new_slot MaxTickers MaxPending strategy i = \<lparr>sl_strategy = strategy, sl_pnl = PnLTracker_init MaxTickers,
     sl_risk = RiskManager_init MaxTickers MaxPending,
     sl_om = initialize True True True True i True (OrderManager_init 256), sl_entries = []\<rparr>"

definition TradeEngine_init ::
    "nat \<Rightarrow> nat \<Rightarrow> nat \<Rightarrow> OrderRequest SPSCQueue \<Rightarrow> 's \<Rightarrow> nat \<Rightarrow> bool \<Rightarrow> 'p \<Rightarrow> ('s, 'f, 'p) TradeEngine" where
  "TradeEngine_init MaxSlots MaxTickers MaxPending requests strategy n gate pool =
     \<lparr>te_MaxSlots = MaxSlots, te_MaxTickers = MaxTickers,
      te_slots = map (new_slot MaxTickers MaxPending strategy) [0..<(if n < MaxSlots then n else MaxSlots)],
      te_tickers = [], te_allocator = OrderIdAllocator_init n, te_requests = requests,
      te_book_pool = pool, te_has_gate = gate\<rparr>"

definition slotCount :: "('s, 'f, 'p) TradeEngine \<Rightarrow> nat" where
  "slotCount e = length (te_slots e)"

definition bookCount :: "('s, 'f, 'p) TradeEngine \<Rightarrow> nat" where
  "bookCount e = length (te_tickers e)"

text \<open>The accessors of a slot that is in use; the slots of the array past \<^verbatim>\<open>slot_count_\<close> are not part of the state.\<close>

definition engine_pnl :: "('s, 'f, 'p) TradeEngine \<Rightarrow> nat \<Rightarrow> PnLTracker option" where
  "engine_pnl e slot = (if slot < slotCount e then Some (sl_pnl (te_slots e ! slot)) else None)"

definition engine_risk :: "('s, 'f, 'p) TradeEngine \<Rightarrow> nat \<Rightarrow> RiskManager option" where
  "engine_risk e slot = (if slot < slotCount e then Some (sl_risk (te_slots e ! slot)) else None)"

definition engine_orders :: "('s, 'f, 'p) TradeEngine \<Rightarrow> nat \<Rightarrow> OrderManager option" where
  "engine_orders e slot = (if slot < slotCount e then Some (sl_om (te_slots e ! slot)) else None)"

subsection \<open>Lookups\<close>

definition engine_findTicker :: "('s, 'f, 'p) TradeEngine \<Rightarrow> TickerId \<Rightarrow> nat option" where
  "engine_findTicker e t = find_index (\<lambda>tb. tb_ticker_id tb = t) (te_tickers e)"

definition findOrCreateTicker :: "TickerId \<Rightarrow> ('s, 'f, 'p) TradeEngine \<Rightarrow> nat option \<times> ('s, 'f, 'p) TradeEngine" where
  "findOrCreateTicker t e = (case engine_findTicker e t of
     Some i \<Rightarrow> (Some i, e)
   | None \<Rightarrow>
       if length (te_tickers e) = te_MaxTickers e then (None, e)
       else (Some (length (te_tickers e)),
             e\<lparr>te_tickers := te_tickers e @ [\<lparr>tb_ticker_id = t, tb_book = MarketOrderBook_init t (te_book_pool e)\<rparr>]\<rparr>))"

definition findEntry :: "('s, 'f) Slot \<Rightarrow> TickerId \<Rightarrow> nat option" where
  "findEntry sl t = find_index (\<lambda>en. en_ticker_id en = t) (sl_entries sl)"

definition engine_book :: "('s, 'f, 'p) TradeEngine \<Rightarrow> TickerId \<Rightarrow> 'p MarketOrderBook option" where
  "engine_book e t = map_option (\<lambda>i. tb_book (te_tickers e ! i)) (engine_findTicker e t)"

definition engine_features :: "('s, 'f, 'p) TradeEngine \<Rightarrow> nat \<Rightarrow> TickerId \<Rightarrow> 'f option" where
  "engine_features e slot t =
     (if slot \<ge> te_MaxSlots e \<or> slot \<ge> slotCount e then None
      else map_option (\<lambda>i. en_features (sl_entries (te_slots e ! slot) ! i)) (findEntry (te_slots e ! slot) t))"

subsection \<open>Registration and configuration\<close>

definition put_slot :: "nat \<Rightarrow> ('s, 'f) Slot \<Rightarrow> ('s, 'f, 'p) TradeEngine \<Rightarrow> ('s, 'f, 'p) TradeEngine" where
  "put_slot i sl e = e\<lparr>te_slots := (te_slots e)[i := sl]\<rparr>"

definition engine_registerTicker ::
    "('f, 'p) FeatureOps \<Rightarrow> nat \<Rightarrow> TickerId \<Rightarrow> RiskLimits \<Rightarrow> ('s, 'f, 'p) TradeEngine \<Rightarrow> bool \<times> ('s, 'f, 'p) TradeEngine" where
  "engine_registerTicker fops slot t limits e =
     (if slot \<ge> te_MaxSlots e \<or> slot \<ge> slotCount e then (False, e)
      else let sl = te_slots e ! slot in
      if findEntry sl t \<noteq> None \<or> length (sl_entries sl) = te_MaxTickers e then (False, e)
      else case findOrCreateTicker t e of
        (None, e) \<Rightarrow> (False, e)
      | (Some i, e) \<Rightarrow>
          let (ok, pnl) = pnl_registerTicker t (sl_pnl sl); sl = sl\<lparr>sl_pnl := pnl\<rparr> in
          if \<not> ok then (False, put_slot slot sl e)
          else
            let (ok, risk) = risk_registerTicker t limits (sl_risk sl); sl = sl\<lparr>sl_risk := risk\<rparr> in
            if \<not> ok then (False, put_slot slot sl e)
            else (True, put_slot slot (sl\<lparr>sl_entries := sl_entries sl @
              [\<lparr>en_ticker_id = t, en_book = i, en_features = fo_init fops\<rparr>]\<rparr>) e))"

definition setStrategy :: "nat \<Rightarrow> 's \<Rightarrow> ('s, 'f, 'p) TradeEngine \<Rightarrow> ('s, 'f, 'p) TradeEngine" where
  "setStrategy slot strategy e =
     (if slot < te_MaxSlots e \<and> slot < slotCount e then put_slot slot ((te_slots e ! slot)\<lparr>sl_strategy := strategy\<rparr>) e else e)"

subsection \<open>Running an operation of a slot\<close>

definition open_slot :: "('s, 'f) Slot \<Rightarrow> ('s, 'f, 'p) TradeEngine \<Rightarrow> slot_ctx" where
  "open_slot sl e = \<lparr>cx_om = sl_om sl, cx_risk = sl_risk sl, cx_pnl = sl_pnl sl, cx_outgoing = te_requests e,
     cx_allocator = te_allocator e, cx_notified = []\<rparr>"

text \<open>Write back what the operation changed; \<^verbatim>\<open>onOrderUpdateForwarder\<close> for each order it notified.\<close>

definition close_slot ::
    "('s, 'f, 'p) StrategyOps \<Rightarrow> nat \<Rightarrow> ('s, 'f) Slot \<Rightarrow> slot_ctx \<Rightarrow> ('s, 'f, 'p) TradeEngine \<Rightarrow> ('s, 'f, 'p) TradeEngine" where
  "close_slot ops i sl c e =
     put_slot i (sl\<lparr>sl_om := cx_om c, sl_risk := cx_risk c, sl_pnl := cx_pnl c,
         sl_strategy := fold (st_onOrderUpdate ops) (cx_notified c) (sl_strategy sl)\<rparr>)
       (e\<lparr>te_requests := cx_outgoing c, te_allocator := cx_allocator c\<rparr>)"

subsection \<open>Responses\<close>

definition handleResponse ::
    "('s, 'f, 'p) StrategyOps \<Rightarrow> OrderResponse \<Rightarrow> ('s, 'f, 'p) TradeEngine \<times> StrategyRunResult \<Rightarrow>
     ('s, 'f, 'p) TradeEngine \<times> StrategyRunResult" where
  "handleResponse ops rs er =
     (let (e, r) = er;
          r = r\<lparr>rr_responses := rr_responses r + 1\<rparr>;
          slot = ownerOf (te_allocator e) (rs_client_order_id rs)
      in if slot < slotCount e
         then let sl = te_slots e ! slot; (ok, c) = om_onOrderResponse RiskManager_ops rs (open_slot sl e)
              in (close_slot ops slot sl c e,
                  if ok then r else r\<lparr>rr_rejected_responses := rr_rejected_responses r + 1\<rparr>)
         else (e, r\<lparr>rr_rejected_responses := rr_rejected_responses r + 1\<rparr>))"

definition drainResponses ::
    "('s, 'f, 'p) StrategyOps \<Rightarrow> OrderResponse list \<Rightarrow> ('s, 'f, 'p) TradeEngine \<times> StrategyRunResult \<Rightarrow>
     ('s, 'f, 'p) TradeEngine \<times> StrategyRunResult" where
  "drainResponses ops rss er = fold (handleResponse ops) rss er"

subsection \<open>Market updates\<close>

definition processSlotUpdate ::
    "('s, 'f, 'p) StrategyOps \<Rightarrow> ('f, 'p) FeatureOps \<Rightarrow> TickerId \<Rightarrow> MarketUpdate \<Rightarrow> bool \<Rightarrow> nat \<Rightarrow>
     ('s, 'f, 'p) TradeEngine \<times> StrategyRunResult \<Rightarrow> ('s, 'f, 'p) TradeEngine \<times> StrategyRunResult" where
  "processSlotUpdate ops fops t u in_snapshot i er =
     (let (e, r) = er; sl = te_slots e ! i in
      case findEntry sl t of
        None \<Rightarrow> (e, r)
      | Some k \<Rightarrow>
          let entry = sl_entries sl ! k;
              book = tb_book (te_tickers e ! en_book entry);
              entry = entry\<lparr>en_features := fo_onMarketUpdate fops u book (en_features entry)\<rparr>;
              sl = sl\<lparr>sl_entries := (sl_entries sl)[k := entry]\<rparr>;
              mark = fo_mkt_price fops (en_features entry);
              sl = (if mark \<noteq> Price_INVALID then sl\<lparr>sl_pnl := snd (pnl_onMark t mark (sl_pnl sl))\<rparr> else sl)
          in if in_snapshot then (put_slot i sl e, r)
             else
               let (n, s, c) = (if mu_type u = EXECUTE then st_onTrade ops else st_onBookUpdate ops)
                     entry book u (open_slot sl e) (sl_strategy sl)
               in (close_slot ops i (sl\<lparr>sl_strategy := s\<rparr>) c e, r\<lparr>rr_orders_submitted := rr_orders_submitted r + n\<rparr>))"

definition processBookUpdate ::
    "('s, 'f, 'p) StrategyOps \<Rightarrow> ('f, 'p) FeatureOps \<Rightarrow> 'p PoolOps \<Rightarrow> MarketUpdate \<Rightarrow> nat \<Rightarrow>
     ('s, 'f, 'p) TradeEngine \<times> StrategyRunResult \<Rightarrow> (('s, 'f, 'p) TradeEngine \<times> StrategyRunResult) option" where
  "processBookUpdate ops fops pops u i er = do {
     let (e, r) = er;
     let tb = te_tickers e ! i;
     b \<leftarrow> applyUpdate pops u (tb_book tb);
     let e = e\<lparr>te_tickers := (te_tickers e)[i := tb\<lparr>tb_book := b\<rparr>]\<rparr>;
     Some (fold (processSlotUpdate ops fops (tb_ticker_id tb) u (bk_in_snapshot b)) [0..<slotCount e] (e, r))
   }"

definition handleMarketUpdate ::
    "('s, 'f, 'p) StrategyOps \<Rightarrow> ('f, 'p) FeatureOps \<Rightarrow> 'p PoolOps \<Rightarrow> MarketUpdate \<Rightarrow>
     ('s, 'f, 'p) TradeEngine \<times> StrategyRunResult \<Rightarrow> (('s, 'f, 'p) TradeEngine \<times> StrategyRunResult) option" where
  "handleMarketUpdate ops fops pops u er =
     (let (e, r) = er; r = r\<lparr>rr_market_updates := rr_market_updates r + 1\<rparr> in
      if mu_type u = SNAPSHOT_START \<or> mu_type u = SNAPSHOT_CLEAR \<or> mu_type u = SNAPSHOT_END
      then fold (\<lambda>i x. Option.bind x (processBookUpdate ops fops pops u i)) [0..<length (te_tickers e)] (Some (e, r))
      else case engine_findTicker e (mu_ticker_id u) of
        None \<Rightarrow> Some (e, r)
      | Some i \<Rightarrow> processBookUpdate ops fops pops u i (e, r))"

definition drainMarketUpdates ::
    "('s, 'f, 'p) StrategyOps \<Rightarrow> ('f, 'p) FeatureOps \<Rightarrow> 'p PoolOps \<Rightarrow> MarketUpdate list \<Rightarrow>
     ('s, 'f, 'p) TradeEngine \<times> StrategyRunResult \<Rightarrow> (('s, 'f, 'p) TradeEngine \<times> StrategyRunResult) option" where
  "drainMarketUpdates ops fops pops us er = fold (\<lambda>u x. Option.bind x (handleMarketUpdate ops fops pops u)) us (Some er)"

subsection \<open>The event loop\<close>

definition runOnce ::
    "('s, 'f, 'p) StrategyOps \<Rightarrow> ('f, 'p) FeatureOps \<Rightarrow> 'p PoolOps \<Rightarrow> OrderResponse list \<Rightarrow> MarketUpdate list \<Rightarrow>
     ('s, 'f, 'p) TradeEngine \<Rightarrow> (('s, 'f, 'p) TradeEngine \<times> StrategyRunResult) option" where
  "runOnce ops fops pops rss us e =
     drainMarketUpdates ops fops pops us (drainResponses ops rss (e, StrategyRunResult_init))"

text \<open>
  \<^verbatim>\<open>run\<close>: one element per iteration while \<^verbatim>\<open>run_\<close> is set, with the value of the sync gate it loads and what the
  two queues hold.
\<close>

fun engine_run ::
    "('s, 'f, 'p) StrategyOps \<Rightarrow> ('f, 'p) FeatureOps \<Rightarrow> 'p PoolOps \<Rightarrow> (bool \<times> OrderResponse list \<times> MarketUpdate list) list \<Rightarrow>
     ('s, 'f, 'p) TradeEngine \<Rightarrow> ('s, 'f, 'p) TradeEngine option" where
  "engine_run ops fops pops [] e = Some e"
| "engine_run ops fops pops ((gate, rss, us) # rest) e =
     (if te_has_gate e \<and> \<not> gate then engine_run ops fops pops rest e
      else Option.bind (runOnce ops fops pops rss us e) (\<lambda>(e, r). engine_run ops fops pops rest e))"

end
