(* ===== verification/Main_Config.thy ===== *)
theory Main_Config
  imports Trade_Engine
begin

text \<open>
  The start of the program, \<^verbatim>\<open>src/main.cpp\<close>: the configuration, the parser of the command line and the
  registration of the tickers with the engine.  \<^verbatim>\<open>int\<close> values are words read as signed.  \<^verbatim>\<open>std::atoi\<close> and
  \<^verbatim>\<open>std::atoll\<close> are modelled from the C standard, with \<open>None\<close> where the value does not fit the result type, which
  is undefined behaviour.  The threads and the
  session summary are in \<open>Program\<close>; the usage text is output only.
\<close>

subsection \<open>Numbers on the command line\<close>

definition isspace :: "char \<Rightarrow> bool" where
  "isspace c \<longleftrightarrow> of_char c = (32 :: nat) \<or> (9 \<le> (of_char c :: nat) \<and> (of_char c :: nat) \<le> 13)"

definition isdigit :: "char \<Rightarrow> bool" where
  "isdigit c \<longleftrightarrow> 48 \<le> (of_char c :: nat) \<and> (of_char c :: nat) \<le> 57"

definition digit_value :: "char \<Rightarrow> int" where
  "digit_value c = of_char c - 48"

fun scan_digits :: "int \<Rightarrow> string \<Rightarrow> int" where
  "scan_digits acc [] = acc"
| "scan_digits acc (c # cs) = (if isdigit c then scan_digits (10 * acc + digit_value c) cs else acc)"

definition scan_number :: "string \<Rightarrow> int" where
  "scan_number s = (case dropWhile isspace s of
     [] \<Rightarrow> 0
   | c # cs \<Rightarrow> if c = CHR ''-'' then - scan_digits 0 cs else if c = CHR ''+'' then scan_digits 0 cs else scan_digits 0 (c # cs))"

definition atoi :: "string \<Rightarrow> 32 word option" where
  "atoi s = (let n = scan_number s in if - 2147483648 \<le> n \<and> n < 2147483648 then Some (word_of_int n) else None)"

definition atoll :: "string \<Rightarrow> 64 word option" where
  "atoll s = (let n = scan_number s in
     if - 9223372036854775808 \<le> n \<and> n < 9223372036854775808 then Some (word_of_int n) else None)"

subsection \<open>The configuration\<close>

record Config =
  gateway_ip :: string
  gateway_port :: "32 word"
  mcast_iface :: string
  snapshot_ip :: string
  snapshot_port :: "32 word"
  incremental_ip :: string
  incremental_port :: "32 word"
  receive_port :: "32 word"
  tickers :: "TickerId list"
  limits :: RiskLimits
  signal :: IocSignalConfig
  core_consumer :: "32 word"
  core_engine :: "32 word"
  core_gateway :: "32 word"

definition Config_init :: Config where
  "Config_init = \<lparr>gateway_ip = ''127.0.0.1'', gateway_port = 11000, mcast_iface = ''lo'', snapshot_ip = ''127.0.0.1'',
     snapshot_port = 21003, incremental_ip = ''127.0.0.1'', incremental_port = 21001, receive_port = 22001, tickers = [1],
     limits = \<lparr>max_abs_position = 100, max_order_qty = 10, max_order_notional = 100000000\<rparr>,
     signal = \<lparr>sc_order_qty = 10, sc_entry_imbalance = 300000\<rparr>,
     core_consumer = - 1, core_engine = - 1, core_gateway = - 1\<rparr>"

text \<open>The chain of comparisons in \<^verbatim>\<open>parseArgs\<close>: what an option does with its value, if it is one that takes a value.\<close>

definition option_action :: "string \<Rightarrow> (string \<Rightarrow> Config \<Rightarrow> Config option) option" where
  "option_action arg =
     (if arg = ''--gateway-ip'' then Some (\<lambda>v cfg. Some (cfg\<lparr>gateway_ip := v\<rparr>))
      else if arg = ''--gateway-port'' then Some (\<lambda>v cfg. map_option (\<lambda>n. cfg\<lparr>gateway_port := n\<rparr>) (atoi v))
      else if arg = ''--mcast-iface'' then Some (\<lambda>v cfg. Some (cfg\<lparr>mcast_iface := v\<rparr>))
      else if arg = ''--snapshot-ip'' then Some (\<lambda>v cfg. Some (cfg\<lparr>snapshot_ip := v\<rparr>))
      else if arg = ''--snapshot-port'' then Some (\<lambda>v cfg. map_option (\<lambda>n. cfg\<lparr>snapshot_port := n\<rparr>) (atoi v))
      else if arg = ''--incremental-ip'' then Some (\<lambda>v cfg. Some (cfg\<lparr>incremental_ip := v\<rparr>))
      else if arg = ''--incremental-port'' then Some (\<lambda>v cfg. map_option (\<lambda>n. cfg\<lparr>incremental_port := n\<rparr>) (atoi v))
      else if arg = ''--receive-port'' then Some (\<lambda>v cfg. map_option (\<lambda>n. cfg\<lparr>receive_port := n\<rparr>) (atoi v))
      else if arg = ''--ticker'' then Some (\<lambda>v cfg. map_option (\<lambda>n. cfg\<lparr>tickers := tickers cfg @ [n]\<rparr>) (atoi v))
      else if arg = ''--position-limit'' then
        Some (\<lambda>v cfg. map_option (\<lambda>n. cfg\<lparr>limits := (limits cfg)\<lparr>max_abs_position := n\<rparr>\<rparr>) (atoll v))
      else if arg = ''--order-limit'' then
        Some (\<lambda>v cfg. map_option (\<lambda>n. cfg\<lparr>limits := (limits cfg)\<lparr>max_order_qty := n\<rparr>\<rparr>) (atoi v))
      else if arg = ''--notional-limit'' then
        Some (\<lambda>v cfg. map_option (\<lambda>n. cfg\<lparr>limits := (limits cfg)\<lparr>max_order_notional := n\<rparr>\<rparr>) (atoll v))
      else if arg = ''--ioc-qty'' then
        Some (\<lambda>v cfg. map_option (\<lambda>n. cfg\<lparr>signal := (signal cfg)\<lparr>sc_order_qty := n\<rparr>\<rparr>) (atoi v))
      else if arg = ''--imbalance'' then
        Some (\<lambda>v cfg. map_option (\<lambda>n. cfg\<lparr>signal := (signal cfg)\<lparr>sc_entry_imbalance := n\<rparr>\<rparr>) (atoi v))
      else if arg = ''--core-consumer'' then Some (\<lambda>v cfg. map_option (\<lambda>n. cfg\<lparr>core_consumer := n\<rparr>) (atoi v))
      else if arg = ''--core-engine'' then Some (\<lambda>v cfg. map_option (\<lambda>n. cfg\<lparr>core_engine := n\<rparr>) (atoi v))
      else if arg = ''--core-gateway'' then Some (\<lambda>v cfg. map_option (\<lambda>n. cfg\<lparr>core_gateway := n\<rparr>) (atoi v))
      else None)"

datatype ParseOutcome = Parsed Config | ParseExit nat | ParseUndefined

text \<open>\<^verbatim>\<open>parseArgs\<close> on the arguments after the program name; the inner case on what follows an option is \<^verbatim>\<open>nextArg\<close>.\<close>

fun parseArgs :: "string list \<Rightarrow> Config \<Rightarrow> ParseOutcome" where
  "parseArgs [] cfg = Parsed cfg"
| "parseArgs (arg # rest) cfg = (case option_action arg of
     None \<Rightarrow> ParseExit (if arg = ''--help'' then 0 else 1)
   | Some act \<Rightarrow>
       (case rest of
          [] \<Rightarrow> ParseExit 1
        | v # rest' \<Rightarrow> (case act v cfg of None \<Rightarrow> ParseUndefined | Some cfg' \<Rightarrow> parseArgs rest' cfg')))"

subsection \<open>The start of the engine\<close>

type_synonym 'p main_engine = "(LiquidityTaker, TradingFeatures, 'p) TradeEngine"

fun registerAll :: "TickerId list \<Rightarrow> RiskLimits \<Rightarrow> 'p main_engine \<Rightarrow> 'p main_engine option" where
  "registerAll [] lim e = Some e"
| "registerAll (t # ts) lim e =
     (let (ok, e') = engine_registerTicker TradingFeatures_ops 0 t lim e in if ok then registerAll ts lim e' else None)"

definition new_engine :: "Config \<Rightarrow> OrderRequest SPSCQueue \<Rightarrow> 'p \<Rightarrow> 'p main_engine" where
  "new_engine cfg requests pool = TradeEngine_init 4 16 64 requests \<lparr>lt_config = signal cfg\<rparr> 1 True pool"

datatype 'p MainOutcome = Exit nat | Running Config "'p main_engine" | Undefined

definition main_start :: "string list \<Rightarrow> OrderRequest SPSCQueue \<Rightarrow> 'p \<Rightarrow> 'p MainOutcome" where
  "main_start args requests pool = (case parseArgs args Config_init of
     ParseExit n \<Rightarrow> Exit n
   | ParseUndefined \<Rightarrow> Undefined
   | Parsed cfg \<Rightarrow>
       (case registerAll (tickers cfg) (limits cfg) (new_engine cfg requests pool) of
          None \<Rightarrow> Exit 1
        | Some e \<Rightarrow> Running cfg e))"

text \<open>The wait for the market data: at most \<open>n\<close> polls of the two flags, the \<open>i\<close>-th of which read what \<open>sync\<close> and \<open>stop\<close> say.\<close>

fun wait_synced :: "nat \<Rightarrow> (nat \<Rightarrow> bool) \<Rightarrow> (nat \<Rightarrow> bool) \<Rightarrow> nat \<Rightarrow> bool" where
  "wait_synced 0 sync stop i = False"
| "wait_synced (Suc n) sync stop i = (if stop i then False else if sync i then True else wait_synced n sync stop (Suc i))"

end
