(* ===== verification/Itch_Decoder.thy ===== *)
theory Itch_Decoder
  imports Types "HOL-Library.Monad_Syntax"
begin

text \<open>
  The feed decoder of \<^verbatim>\<open>src/market_data/itch_decoder.h\<close> and \<^verbatim>\<open>itch_decoder.cpp\<close>: it turns one frame of the
  incremental or the snapshot stream into a \<^verbatim>\<open>MarketUpdate\<close> and keeps, per ticker, a vector of the orders it
  has seen, indexed by order reference, because executions, cancels and deletes carry no side or price.

  The message structs and byte swaps of \<^verbatim>\<open>quantlink::itch\<close> are not under \<^verbatim>\<open>src/\<close>: they are the parameter
  \<open>ItchWire\<close>, which gives the type named by a tag byte, the size of each struct and the fields read from the
  bytes of a struct.  How far \<^verbatim>\<open>std::vector\<close> grows its storage is left to the standard library, so it is a
  parameter too.  A result \<open>None\<close> is undefined behaviour: an index past the end of a vector, or a write through
  a reference that a reallocation has invalidated.
\<close>

datatype MsgType = SYSTEM_EVENT | ADD_ORDER | ADD_ORDER_MPID | ORDER_EXECUTED | ORDER_CANCEL | ORDER_DELETE | ORDER_REPLACE

record ItchWire =
  iw_type :: "byte \<Rightarrow> MsgType option"
  iw_sizeof :: "MsgType \<Rightarrow> nat"
  iw_seq :: "byte list \<Rightarrow> SeqNum"                  \<comment> \<open>\<^verbatim>\<open>swap64\<close> of the first eight bytes\<close>
  iw_locate :: "MsgType \<Rightarrow> byte list \<Rightarrow> 16 word"   \<comment> \<open>\<^verbatim>\<open>swap16(msg->stock_locate)\<close>\<close>
  iw_ref :: "MsgType \<Rightarrow> byte list \<Rightarrow> OrderId"      \<comment> \<open>\<^verbatim>\<open>get_ref\<close>, \<^verbatim>\<open>get_ref_num\<close>, \<^verbatim>\<open>get_old_ref\<close>\<close>
  iw_new_ref :: "MsgType \<Rightarrow> byte list \<Rightarrow> OrderId"  \<comment> \<open>\<^verbatim>\<open>get_match\<close>, \<^verbatim>\<open>get_new_ref\<close>\<close>
  iw_shares :: "MsgType \<Rightarrow> byte list \<Rightarrow> Quantity"  \<comment> \<open>\<^verbatim>\<open>get_shares\<close>, \<^verbatim>\<open>get_exec_shares\<close>, \<^verbatim>\<open>get_canceled\<close>\<close>
  iw_price :: "MsgType \<Rightarrow> byte list \<Rightarrow> Price"      \<comment> \<open>\<^verbatim>\<open>swap32(msg->price)\<close>\<close>
  iw_buy :: "MsgType \<Rightarrow> byte list \<Rightarrow> bool"         \<comment> \<open>\<^verbatim>\<open>msg->buy_sell == 'B'\<close>\<close>

definition sizeof_SeqNum :: nat where
  "sizeof_SeqNum = 8"

record OrderState =
  os_side :: Side
  os_price :: Price
  os_qty :: Quantity
  os_ticker_id :: TickerId

text \<open>The element that \<^verbatim>\<open>resize\<close> appends: quantity 0, so its other fields are never read.\<close>

definition OrderState_init :: OrderState where
  "OrderState_init = \<lparr>os_side = BUY, os_price = 0, os_qty = 0, os_ticker_id = 0\<rparr>"

text \<open>\<^verbatim>\<open>std::vector<OrderState>\<close>: its elements and the capacity of its storage.\<close>

record RefTable =
  rt_items :: "OrderState list"
  rt_capacity :: nat

definition RefTable_init :: RefTable where
  "RefTable_init = \<lparr>rt_items = [], rt_capacity = 0\<rparr>"

type_synonym growth = "nat \<Rightarrow> nat \<Rightarrow> nat"

definition resize :: "growth \<Rightarrow> nat \<Rightarrow> RefTable \<Rightarrow> RefTable" where
  "resize g n t = \<lparr>rt_items = take n (rt_items t) @ replicate (n - length (rt_items t)) OrderState_init,
     rt_capacity = (if n \<le> rt_capacity t then rt_capacity t else g (rt_capacity t) n)\<rparr>"

text \<open>\<^verbatim>\<open>if (slot.size() <= ref) slot.resize(ref + 1); slot[ref] = state;\<close>\<close>

definition store_at :: "growth \<Rightarrow> OrderId \<Rightarrow> OrderState \<Rightarrow> RefTable \<Rightarrow> RefTable option" where
  "store_at g ref st t =
     (let t = (if length (rt_items t) \<le> unat ref then resize g (unat (ref + 1)) t else t) in
      if unat ref < length (rt_items t) then Some (t\<lparr>rt_items := (rt_items t)[unat ref := st]\<rparr>) else None)"

record ItchDecoder =
  de_map :: "TickerId \<rightharpoonup> RefTable"
  de_tracked :: nat
  de_last_size :: nat
  de_need_more :: bool

definition ItchDecoder_init :: ItchDecoder where
  "ItchDecoder_init = \<lparr>de_map = Map.empty, de_tracked = 0, de_last_size = 0, de_need_more = False\<rparr>"

text \<open>The result of a handler: the update if it returns true, and the decoder.\<close>

type_synonym decoded = "(MarketUpdate option \<times> ItchDecoder) option"

definition stockLocate :: "16 word \<Rightarrow> TickerId" where
  "stockLocate l = ucast l"

subsection \<open>The message handlers\<close>

definition decodeSystemEvent :: "ItchWire \<Rightarrow> byte list \<Rightarrow> MarketUpdate \<Rightarrow> ItchDecoder \<Rightarrow> decoded" where
  "decodeSystemEvent w msg out d = Some (None, d)"

text \<open>The body that \<^verbatim>\<open>decodeAddOrder\<close> and \<^verbatim>\<open>decodeAddOrderMPID\<close> share but for the type.\<close>

definition decode_add :: "UpdateType \<Rightarrow> MsgType \<Rightarrow> growth \<Rightarrow> ItchWire \<Rightarrow> byte list \<Rightarrow> MarketUpdate \<Rightarrow> ItchDecoder \<Rightarrow> decoded" where
  "decode_add ut mt g w msg out d =
     (let out = out\<lparr>mu_type := ut, mu_side := (if iw_buy w mt msg then BUY else SELL), mu_price := iw_price w mt msg,
            mu_qty := iw_shares w mt msg, mu_order_ref := iw_ref w mt msg, mu_new_ref := 0,
            mu_ticker_id := stockLocate (iw_locate w mt msg)\<rparr>;
          slot = (case de_map d (mu_ticker_id out) of Some t \<Rightarrow> t | None \<Rightarrow> RefTable_init)
      in map_option (\<lambda>t. (Some out, d\<lparr>de_map := (de_map d)(mu_ticker_id out \<mapsto> t), de_tracked := de_tracked d + 1\<rparr>))
           (store_at g (mu_order_ref out)
              \<lparr>os_side = mu_side out, os_price = mu_price out, os_qty = mu_qty out, os_ticker_id = mu_ticker_id out\<rparr> slot))"

definition decodeAddOrder :: "growth \<Rightarrow> ItchWire \<Rightarrow> byte list \<Rightarrow> MarketUpdate \<Rightarrow> ItchDecoder \<Rightarrow> decoded" where
  "decodeAddOrder = decode_add ADD ADD_ORDER"

definition decodeAddOrderMPID :: "growth \<Rightarrow> ItchWire \<Rightarrow> byte list \<Rightarrow> MarketUpdate \<Rightarrow> ItchDecoder \<Rightarrow> decoded" where
  "decodeAddOrderMPID = decode_add ADD_MPID ADD_ORDER_MPID"

text \<open>\<^verbatim>\<open>order_ref_map_.find(ticker)\<close>, the bounds test and the test for quantity 0.\<close>

definition find_order :: "ItchDecoder \<Rightarrow> TickerId \<Rightarrow> OrderId \<Rightarrow> (RefTable \<times> OrderState) option" where
  "find_order d tid ref = (case de_map d tid of
     None \<Rightarrow> None
   | Some t \<Rightarrow>
       if length (rt_items t) \<le> unat ref then None
       else let st = rt_items t ! unat ref in if os_qty st = 0 then None else Some (t, st))"

definition write_back :: "TickerId \<Rightarrow> OrderId \<Rightarrow> OrderState \<Rightarrow> RefTable \<Rightarrow> ItchDecoder \<Rightarrow> ItchDecoder" where
  "write_back tid ref st t d = d\<lparr>de_map := (de_map d)(tid \<mapsto> t\<lparr>rt_items := (rt_items t)[unat ref := st]\<rparr>)\<rparr>"

text \<open>The body that \<^verbatim>\<open>decodeOrderExecuted\<close> and \<^verbatim>\<open>decodeOrderCancel\<close> share once their fields are read.\<close>

definition decode_reduce :: "TickerId \<Rightarrow> MarketUpdate \<Rightarrow> ItchDecoder \<Rightarrow> decoded" where
  "decode_reduce tid out d = (case find_order d tid (mu_order_ref out) of
     None \<Rightarrow> Some (None, d)
   | Some (t, st) \<Rightarrow>
       let out = out\<lparr>mu_side := os_side st, mu_price := os_price st, mu_ticker_id := os_ticker_id st\<rparr> in
       if os_qty st \<le> mu_qty out
       then Some (Some out, (write_back tid (mu_order_ref out) (st\<lparr>os_qty := 0\<rparr>) t d)\<lparr>de_tracked := de_tracked d - 1\<rparr>)
       else Some (Some out, write_back tid (mu_order_ref out) (st\<lparr>os_qty := os_qty st - mu_qty out\<rparr>) t d))"

definition decodeOrderExecuted :: "ItchWire \<Rightarrow> byte list \<Rightarrow> MarketUpdate \<Rightarrow> ItchDecoder \<Rightarrow> decoded" where
  "decodeOrderExecuted w msg out d =
     decode_reduce (stockLocate (iw_locate w ORDER_EXECUTED msg))
       (out\<lparr>mu_type := EXECUTE, mu_qty := iw_shares w ORDER_EXECUTED msg, mu_order_ref := iw_ref w ORDER_EXECUTED msg,
            mu_new_ref := iw_new_ref w ORDER_EXECUTED msg\<rparr>) d"

definition decodeOrderCancel :: "ItchWire \<Rightarrow> byte list \<Rightarrow> MarketUpdate \<Rightarrow> ItchDecoder \<Rightarrow> decoded" where
  "decodeOrderCancel w msg out d =
     decode_reduce (stockLocate (iw_locate w ORDER_CANCEL msg))
       (out\<lparr>mu_type := CANCEL, mu_qty := iw_shares w ORDER_CANCEL msg, mu_order_ref := iw_ref w ORDER_CANCEL msg,
            mu_new_ref := 0\<rparr>) d"

definition decodeOrderDelete :: "ItchWire \<Rightarrow> byte list \<Rightarrow> MarketUpdate \<Rightarrow> ItchDecoder \<Rightarrow> decoded" where
  "decodeOrderDelete w msg out d =
     (let locate = iw_locate w ORDER_DELETE msg; ref = iw_ref w ORDER_DELETE msg in
      if locate = SNAPSHOT_START_locate then
        Some (Some (out\<lparr>mu_type := SNAPSHOT_START, mu_order_ref := ref, mu_new_ref := 0, mu_ticker_id := TickerId_INVALID\<rparr>), d)
      else if locate = SNAPSHOT_CLEAR_locate then
        Some (Some (out\<lparr>mu_type := SNAPSHOT_CLEAR, mu_order_ref := ref, mu_new_ref := 0, mu_ticker_id := ucast ref\<rparr>), d)
      else if locate = SNAPSHOT_END_locate then
        Some (Some (out\<lparr>mu_type := SNAPSHOT_END, mu_order_ref := ref, mu_new_ref := 0, mu_ticker_id := TickerId_INVALID\<rparr>), d)
      else
        let tid = stockLocate locate in
        case find_order d tid ref of
          None \<Rightarrow> Some (None, d)
        | Some (t, st) \<Rightarrow>
            Some (Some (out\<lparr>mu_type := DELETE, mu_qty := 0, mu_order_ref := ref, mu_new_ref := 0,
                     mu_side := os_side st, mu_price := os_price st, mu_ticker_id := os_ticker_id st\<rparr>),
                  (write_back tid ref (st\<lparr>os_qty := 0\<rparr>) t d)\<lparr>de_tracked := de_tracked d - 1\<rparr>))"

text \<open>
  The reference \<^verbatim>\<open>state\<close> is taken before \<^verbatim>\<open>slot.resize\<close> and written after it: when the resize moves the
  elements to new storage the write goes to freed memory.
\<close>

definition decodeOrderReplace :: "growth \<Rightarrow> ItchWire \<Rightarrow> byte list \<Rightarrow> MarketUpdate \<Rightarrow> ItchDecoder \<Rightarrow> decoded" where
  "decodeOrderReplace g w msg out d =
     (let out = out\<lparr>mu_type := REPLACE, mu_price := iw_price w ORDER_REPLACE msg, mu_qty := iw_shares w ORDER_REPLACE msg,
            mu_order_ref := iw_ref w ORDER_REPLACE msg, mu_new_ref := iw_new_ref w ORDER_REPLACE msg\<rparr>;
          tid = stockLocate (iw_locate w ORDER_REPLACE msg)
      in case find_order d tid (mu_order_ref out) of
           None \<Rightarrow> Some (None, d)
         | Some (t, st) \<Rightarrow>
             let out = out\<lparr>mu_side := os_side st, mu_ticker_id := os_ticker_id st\<rparr> in
             if length (rt_items t) \<le> unat (mu_new_ref out) \<and> rt_capacity t < unat (mu_new_ref out + 1) then None
             else do {
               t \<leftarrow> store_at g (mu_new_ref out)
                 \<lparr>os_side = mu_side out, os_price = mu_price out, os_qty = mu_qty out, os_ticker_id = mu_ticker_id out\<rparr> t;
               let old = rt_items t ! unat (mu_order_ref out);
               Some (Some out, (write_back tid (mu_order_ref out) (old\<lparr>os_qty := 0\<rparr>) t d)\<lparr>de_tracked := de_tracked d + 1\<rparr>)
             })"

definition decode_message :: "growth \<Rightarrow> ItchWire \<Rightarrow> MsgType \<Rightarrow> byte list \<Rightarrow> MarketUpdate \<Rightarrow> ItchDecoder \<Rightarrow> decoded" where
  "decode_message g w mt msg out d = (case mt of
     SYSTEM_EVENT \<Rightarrow> decodeSystemEvent w msg out d
   | ADD_ORDER \<Rightarrow> decodeAddOrder g w msg out d
   | ADD_ORDER_MPID \<Rightarrow> decodeAddOrderMPID g w msg out d
   | ORDER_EXECUTED \<Rightarrow> decodeOrderExecuted w msg out d
   | ORDER_CANCEL \<Rightarrow> decodeOrderCancel w msg out d
   | ORDER_DELETE \<Rightarrow> decodeOrderDelete w msg out d
   | ORDER_REPLACE \<Rightarrow> decodeOrderReplace g w msg out d)"

subsection \<open>The two entry points\<close>

definition decode :: "growth \<Rightarrow> ItchWire \<Rightarrow> byte list \<Rightarrow> MarketUpdate \<Rightarrow> ItchDecoder \<Rightarrow> decoded" where
  "decode g w wire out d =
     (let d = d\<lparr>de_last_size := 0, de_need_more := False\<rparr> in
      if length wire < sizeof_SeqNum + 1 then Some (None, d\<lparr>de_need_more := True\<rparr>)
      else case iw_type w (wire ! sizeof_SeqNum) of
        None \<Rightarrow> Some (None, d)
      | Some mt \<Rightarrow>
          let payload_size = iw_sizeof w mt in
          if length wire < sizeof_SeqNum + payload_size then Some (None, d\<lparr>de_need_more := True\<rparr>)
          else decode_message g w mt (take payload_size (drop sizeof_SeqNum wire))
                 (out\<lparr>mu_seq_num := iw_seq w (take sizeof_SeqNum wire)\<rparr>) (d\<lparr>de_last_size := payload_size\<rparr>))"

definition decodeSnapshot :: "growth \<Rightarrow> ItchWire \<Rightarrow> byte list \<Rightarrow> MarketUpdate \<Rightarrow> ItchDecoder \<Rightarrow> decoded" where
  "decodeSnapshot g w wire out d =
     (let d = d\<lparr>de_last_size := 0\<rparr> in
      if wire = [] then Some (None, d)
      else case iw_type w (wire ! 0) of
        None \<Rightarrow> Some (None, d)
      | Some mt \<Rightarrow>
          if length wire < iw_sizeof w mt then Some (None, d)
          else decode_message g w mt (take (iw_sizeof w mt) wire) (out\<lparr>mu_seq_num := 0\<rparr>) (d\<lparr>de_last_size := iw_sizeof w mt\<rparr>))"

definition decoder_reset :: "ItchDecoder \<Rightarrow> ItchDecoder" where
  "decoder_reset d = d\<lparr>de_map := Map.empty, de_tracked := 0\<rparr>"

definition trackedOrders :: "ItchDecoder \<Rightarrow> nat" where
  "trackedOrders d = de_tracked d"

end
