(* ===== verification/Market_Data.thy ===== *)
theory Market_Data
  imports Itch_Decoder Spsc_Queue
begin

text \<open>
  The market-data consumer of \<^verbatim>\<open>src/market_data/market_data.h\<close>, \<^verbatim>\<open>market_data_consumer.cpp\<close>,
  \<^verbatim>\<open>market_data_incremental.cpp\<close> and \<^verbatim>\<open>market_data_recovery.cpp\<close>: incremental updates are delivered in sequence
  order, a gap starts a recovery by replay or by snapshot over TCP, and the updates that arrive meanwhile wait in
  a map keyed by sequence number.

  Bytes received are arguments; the socket calls of the recovery are a log of the requests they send and the
  flag that the TCP descriptor is open.  The \<^verbatim>\<open>ASSERT\<close>s on socket calls and on the capacity of the update queue
  end the process: a refused push is the result \<open>None\<close>, a failed socket call is outside the model.  The
  registration is in \<open>Market_Registration\<close>, the thread in \<open>Program\<close>; the logger is left out.
\<close>

datatype RecoveryMode = RecoveryNone | RecoverySnapshot | RecoveryReplay

datatype RecoveryRequest = SnapshotRequest | ReplayRequest SeqNum

definition REPLAY_CAPACITY :: SeqNum where
  "REPLAY_CAPACITY = 8192"

record MarketDataConsumer =
  md_queue :: "MarketUpdate SPSCQueue"
  md_decoder :: ItchDecoder
  md_next_exp :: SeqNum
  md_in_recovery :: bool
  md_have_start :: bool
  md_mode :: RecoveryMode
  md_status_read :: bool
  md_last_applied :: SeqNum
  md_tcp_open :: bool
  md_tcp_buffer :: "byte list"
  md_inc_queue :: "(SeqNum \<times> MarketUpdate) list"   \<comment> \<open>\<^verbatim>\<open>std::map\<close>, in key order\<close>
  md_snap_queue :: "MarketUpdate list"
  md_synchronized :: bool
  md_requests :: "RecoveryRequest list"

definition MarketDataConsumer_init :: "MarketUpdate SPSCQueue \<Rightarrow> MarketDataConsumer" where
  "MarketDataConsumer_init q = \<lparr>md_queue = q, md_decoder = ItchDecoder_init, md_next_exp = 0, md_in_recovery = False,
     md_have_start = False, md_mode = RecoveryNone, md_status_read = False, md_last_applied = 0, md_tcp_open = False,
     md_tcp_buffer = [], md_inc_queue = [], md_snap_queue = [], md_synchronized = False, md_requests = []\<rparr>"

subsection \<open>Delivery and queueing\<close>

definition deliver :: "MarketUpdate \<Rightarrow> MarketDataConsumer \<Rightarrow> MarketDataConsumer option" where
  "deliver u m = (case push u (md_queue m) of (True, q) \<Rightarrow> Some (m\<lparr>md_queue := q\<rparr>) | (False, q) \<Rightarrow> None)"

fun deliver_all :: "MarketUpdate list \<Rightarrow> MarketDataConsumer \<Rightarrow> MarketDataConsumer option" where
  "deliver_all [] m = Some m"
| "deliver_all (u # us) m = Option.bind (deliver u m) (deliver_all us)"

fun put_sorted :: "SeqNum \<Rightarrow> MarketUpdate \<Rightarrow> (SeqNum \<times> MarketUpdate) list \<Rightarrow> (SeqNum \<times> MarketUpdate) list" where
  "put_sorted s u [] = [(s, u)]"
| "put_sorted s u ((s', u') # q) = (if s < s' then (s, u) # (s', u') # q else if s = s' then (s, u) # q
     else (s', u') # put_sorted s u q)"

definition queueIncremental :: "MarketUpdate \<Rightarrow> MarketDataConsumer \<Rightarrow> MarketDataConsumer" where
  "queueIncremental u m = m\<lparr>md_inc_queue := put_sorted (mu_seq_num u) u (md_inc_queue m)\<rparr>"

subsection \<open>Starting and ending a recovery\<close>

definition startSnapshotSync :: "MarketDataConsumer \<Rightarrow> MarketDataConsumer" where
  "startSnapshotSync m = m\<lparr>md_synchronized := False, md_in_recovery := True, md_mode := RecoverySnapshot, md_have_start := False,
     md_inc_queue := [], md_snap_queue := [], md_tcp_buffer := [], md_tcp_open := True,
     md_requests := md_requests m @ [SnapshotRequest]\<rparr>"

definition startReplaySync :: "SeqNum \<Rightarrow> bool \<Rightarrow> MarketDataConsumer \<Rightarrow> MarketDataConsumer" where
  "startReplaySync client_seq fresh m =
     (let m = m\<lparr>md_synchronized := False, md_in_recovery := True, md_mode := RecoveryReplay, md_status_read := False,
            md_last_applied := client_seq\<rparr>;
          m = (if fresh then m\<lparr>md_inc_queue := [], md_snap_queue := []\<rparr> else m)
      in m\<lparr>md_tcp_buffer := [], md_tcp_open := True, md_requests := md_requests m @ [ReplayRequest client_seq]\<rparr>)"

definition abortSnapshotSync :: "MarketDataConsumer \<Rightarrow> MarketDataConsumer" where
  "abortSnapshotSync m = m\<lparr>md_have_start := False, md_inc_queue := [], md_snap_queue := [], md_in_recovery := False,
     md_synchronized := False, md_mode := RecoveryNone, md_tcp_open := False\<rparr>"

text \<open>
  The first loop of \<^verbatim>\<open>finishReplaySync\<close> and \<^verbatim>\<open>finishSnapshotSync\<close>: walk the waiting updates, skip the old ones,
  and give up at the first gap.
\<close>

fun scan_queue :: "SeqNum \<Rightarrow> (SeqNum \<times> MarketUpdate) list \<Rightarrow> SeqNum option" where
  "scan_queue expected [] = Some expected"
| "scan_queue expected ((s, u) # q) =
     (if s < expected then scan_queue expected q else if s \<noteq> expected then None else scan_queue (expected + 1) q)"

definition waiting_from :: "SeqNum \<Rightarrow> (SeqNum \<times> MarketUpdate) list \<Rightarrow> MarketUpdate list" where
  "waiting_from resume q = map snd (filter (\<lambda>(s, u). \<not> s < resume) q)"

definition finishReplaySync :: "MarketDataConsumer \<Rightarrow> MarketDataConsumer option" where
  "finishReplaySync m =
     (let resume = md_last_applied m + 1 in
      case scan_queue resume (md_inc_queue m) of
        None \<Rightarrow> Some (abortSnapshotSync m)
      | Some expected \<Rightarrow> do {
          m \<leftarrow> deliver_all (md_snap_queue m) m;
          m \<leftarrow> deliver_all (waiting_from resume (md_inc_queue m)) m;
          Some (m\<lparr>md_inc_queue := [], md_next_exp := expected, md_in_recovery := False, md_synchronized := True,
            md_mode := RecoveryNone, md_snap_queue := [], md_tcp_buffer := [], md_tcp_open := False\<rparr>)
        })"

definition finishSnapshotSync :: "SeqNum \<Rightarrow> MarketDataConsumer \<Rightarrow> MarketDataConsumer option" where
  "finishSnapshotSync resume m =
     (case scan_queue resume (md_inc_queue m) of
        None \<Rightarrow> Some (m\<lparr>md_snap_queue := []\<rparr>)
      | Some expected \<Rightarrow> do {
          m \<leftarrow> deliver_all (md_snap_queue m) m;
          m \<leftarrow> deliver_all (waiting_from resume (md_inc_queue m)) m;
          Some (m\<lparr>md_inc_queue := [], md_next_exp := expected, md_in_recovery := False, md_synchronized := True,
            md_mode := RecoveryNone, md_snap_queue := [], md_tcp_open := False\<rparr>)
        })"

subsection \<open>The incremental stream\<close>

definition detectGap :: "SeqNum \<Rightarrow> MarketDataConsumer \<Rightarrow> MarketDataConsumer" where
  "detectGap received m =
     (if md_in_recovery m then m
      else
        let m = m\<lparr>md_in_recovery := True, md_synchronized := False\<rparr>; gap = received - md_next_exp m in
        if gap \<le> REPLAY_CAPACITY then startReplaySync (md_next_exp m - 1) True m else startSnapshotSync m)"

definition processIncremental :: "MarketUpdate \<Rightarrow> MarketDataConsumer \<Rightarrow> MarketDataConsumer option" where
  "processIncremental u m =
     (if md_in_recovery m then Some (queueIncremental u m)
      else
        let expected = md_next_exp m in
        if expected = 0 then deliver u (m\<lparr>md_next_exp := mu_seq_num u + 1\<rparr>)
        else if mu_seq_num u = expected then
          map_option (\<lambda>m. m\<lparr>md_next_exp := md_next_exp m + 1\<rparr>) (deliver u m)
        else if expected < mu_seq_num u then Some (queueIncremental u (detectGap (mu_seq_num u) m))
        else Some m)"

definition kRegistrationMagic :: "byte list" where
  "kRegistrationMagic = [0x4E, 0x45, 0x58, 0x53, 0x55, 0x42]"

definition kRegistrationMagicLen :: nat where
  "kRegistrationMagicLen = 6"

function recv_loop :: "growth \<Rightarrow> ItchWire \<Rightarrow> byte list \<Rightarrow> MarketDataConsumer \<Rightarrow> (byte list \<times> MarketDataConsumer) option" where
  "recv_loop g w bytes m =
     (if length bytes < sizeof_SeqNum + 1 then Some (bytes, m)
      else if take kRegistrationMagicLen bytes = kRegistrationMagic then recv_loop g w (drop kRegistrationMagicLen bytes) m
      else case decode g w bytes MarketUpdate_init (md_decoder m) of
        None \<Rightarrow> None
      | Some (Some u, d) \<Rightarrow>
          Option.bind (processIncremental u (m\<lparr>md_decoder := d\<rparr>)) (recv_loop g w (drop (sizeof_SeqNum + de_last_size d) bytes))
      | Some (None, d) \<Rightarrow>
          if de_need_more d then Some (bytes, m\<lparr>md_decoder := d\<rparr>) else recv_loop g w (drop 1 bytes) (m\<lparr>md_decoder := d\<rparr>))"
  by pat_completeness auto
termination
  by (relation "measure (\<lambda>(g, w, bytes, m). length bytes)") (auto simp: sizeof_SeqNum_def kRegistrationMagicLen_def)

declare recv_loop.simps [simp del]

text \<open>\<^verbatim>\<open>recvCallback\<close> on the valid bytes of the socket buffer; the result is what it leaves there.\<close>

definition recvCallback :: "growth \<Rightarrow> ItchWire \<Rightarrow> byte list \<Rightarrow> MarketDataConsumer \<Rightarrow> (byte list \<times> MarketDataConsumer) option" where
  "recvCallback g w bytes m = (if length bytes < sizeof_SeqNum + 1 then Some (bytes, m) else recv_loop g w bytes m)"

subsection \<open>The snapshot and replay stream\<close>

definition processSnapshot :: "MarketUpdate \<Rightarrow> MarketDataConsumer \<Rightarrow> MarketDataConsumer option" where
  "processSnapshot u m =
     (if \<not> md_in_recovery m then Some m
      else if mu_type u = SNAPSHOT_START then
        Some (m\<lparr>md_have_start := True, md_decoder := decoder_reset (md_decoder m), md_snap_queue := [u]\<rparr>)
      else if \<not> md_have_start m then Some m
      else
        let m = m\<lparr>md_snap_queue := md_snap_queue m @ [u]\<rparr> in
        if mu_type u = SNAPSHOT_END then finishSnapshotSync (mu_order_ref u + 1) (m\<lparr>md_have_start := False\<rparr>) else Some m)"

text \<open>The loop over the buffered bytes; the result holds the bytes not consumed.\<close>

partial_function (option) snapshot_loop ::
    "growth \<Rightarrow> ItchWire \<Rightarrow> byte list \<Rightarrow> MarketDataConsumer \<Rightarrow> (byte list \<times> MarketDataConsumer) option" where
  [code]: "snapshot_loop g w bytes m =
     (if bytes = [] then Some ([], m)
      else Option.bind (decodeSnapshot g w bytes MarketUpdate_init (md_decoder m)) (\<lambda>(r, d).
        case r of
          None \<Rightarrow> Some (bytes, m\<lparr>md_decoder := d\<rparr>)
        | Some u \<Rightarrow> Option.bind (processSnapshot u (m\<lparr>md_decoder := d\<rparr>)) (snapshot_loop g w (drop (de_last_size d) bytes))))"

partial_function (option) replay_loop ::
    "growth \<Rightarrow> ItchWire \<Rightarrow> byte list \<Rightarrow> MarketDataConsumer \<Rightarrow> MarketDataConsumer option" where
  [code]: "replay_loop g w bytes m =
     (if bytes = [] then Some (m\<lparr>md_tcp_buffer := []\<rparr>)
      else Option.bind (decode g w bytes MarketUpdate_init (md_decoder m)) (\<lambda>(r, d).
        case r of
          None \<Rightarrow> Some (m\<lparr>md_decoder := d, md_tcp_buffer := bytes\<rparr>)
        | Some u \<Rightarrow>
            if mu_seq_num u \<noteq> md_last_applied m + 1 then Some (abortSnapshotSync (m\<lparr>md_decoder := d\<rparr>))
            else replay_loop g w (drop (sizeof_SeqNum + de_last_size d) bytes)
                   (m\<lparr>md_decoder := d, md_last_applied := mu_seq_num u, md_snap_queue := md_snap_queue m @ [u]\<rparr>)))"

definition processReplay :: "growth \<Rightarrow> ItchWire \<Rightarrow> MarketDataConsumer \<Rightarrow> MarketDataConsumer option" where
  "processReplay g w m =
     (if md_status_read m then replay_loop g w (md_tcp_buffer m) m
      else case md_tcp_buffer m of
        [] \<Rightarrow> Some m
      | status # rest \<Rightarrow>
          let m = m\<lparr>md_tcp_buffer := rest, md_status_read := True\<rparr> in
          if status = 0x52 then replay_loop g w rest m
          else if status = 0x4E then Some (startSnapshotSync (m\<lparr>md_tcp_open := False\<rparr>))
          else if status = 0x43 then finishReplaySync (m\<lparr>md_tcp_open := False\<rparr>)
          else Some (abortSnapshotSync m))"

definition onSnapshotTcpEof :: "MarketDataConsumer \<Rightarrow> MarketDataConsumer option" where
  "onSnapshotTcpEof m =
     (if md_mode m = RecoveryReplay \<and> md_status_read m \<and> md_tcp_buffer m = [] then finishReplaySync m
      else if md_mode m = RecoveryReplay \<and> md_status_read m then
        Some (startReplaySync (md_last_applied m) False (m\<lparr>md_tcp_open := False\<rparr>))
      else Some (abortSnapshotSync m))"

text \<open>The outcomes of \<^verbatim>\<open>recv\<close>: end of stream, an error, nothing yet, bytes.\<close>

datatype TcpEvent = TcpEof | TcpError | TcpAgain | TcpData "byte list"

definition readSnapshotTcp :: "growth \<Rightarrow> ItchWire \<Rightarrow> TcpEvent \<Rightarrow> MarketDataConsumer \<Rightarrow> MarketDataConsumer option" where
  "readSnapshotTcp g w ev m = (case ev of
     TcpEof \<Rightarrow> onSnapshotTcpEof m
   | TcpError \<Rightarrow> onSnapshotTcpEof m
   | TcpAgain \<Rightarrow> Some m
   | TcpData bytes \<Rightarrow>
       let m = m\<lparr>md_tcp_buffer := md_tcp_buffer m @ bytes\<rparr> in
       if md_mode m = RecoveryReplay then processReplay g w m
       else map_option (\<lambda>(rest, m). m\<lparr>md_tcp_buffer := rest\<rparr>) (snapshot_loop g w (md_tcp_buffer m) m))"

text \<open>One iteration of \<^verbatim>\<open>run\<close>: the bytes in the socket buffer, then the TCP stream while in recovery.\<close>

definition consumer_iteration ::
    "growth \<Rightarrow> ItchWire \<Rightarrow> byte list \<Rightarrow> TcpEvent \<Rightarrow> byte list \<times> MarketDataConsumer \<Rightarrow> (byte list \<times> MarketDataConsumer) option" where
  "consumer_iteration g w bytes ev x = do {
     (rest, m) \<leftarrow> recvCallback g w (fst x @ bytes) (snd x);
     m \<leftarrow> (if md_in_recovery m then readSnapshotTcp g w ev m else Some m);
     Some (rest, m)
   }"

text \<open>\<^verbatim>\<open>run\<close>: one iteration per element, which holds the datagrams that arrived and the outcome of the TCP read.\<close>

fun consumer_run ::
    "growth \<Rightarrow> ItchWire \<Rightarrow> (byte list \<times> TcpEvent) list \<Rightarrow> byte list \<times> MarketDataConsumer \<Rightarrow> (byte list \<times> MarketDataConsumer) option" where
  "consumer_run g w [] x = Some x"
| "consumer_run g w ((bytes, ev) # evs) x = Option.bind (consumer_iteration g w bytes ev x) (consumer_run g w evs)"

text \<open>\<^verbatim>\<open>start\<close>, up to the creation of the thread.\<close>

definition consumer_start :: "MarketDataConsumer \<Rightarrow> MarketDataConsumer" where
  "consumer_start m = startSnapshotSync m"

end
