(* ===== verification/Decoder_Properties.thy ===== *)
theory Decoder_Properties
  imports Itch_Decoder
begin

text \<open>
  The decoder implements a map from tickers and order references to open orders.  \<open>spec_message\<close> says what a
  message produces and how it changes the map; the refinement says that the vectors of the implementation do
  the same whenever no write is out of bounds or through a stale reference.
\<close>

subsection \<open>The specification\<close>

type_synonym tracking = "TickerId \<Rightarrow> OrderId \<rightharpoonup> OrderState"

definition tracked :: "ItchDecoder \<Rightarrow> tracking" where
  "tracked d tid ref = map_option snd (find_order d tid ref)"

definition track :: "TickerId \<Rightarrow> OrderId \<Rightarrow> OrderState \<Rightarrow> tracking \<Rightarrow> tracking" where
  "track tid ref st T = T(tid := (T tid)(ref := if os_qty st = 0 then None else Some st))"

definition spec_add_msg :: "UpdateType \<Rightarrow> MsgType \<Rightarrow> ItchWire \<Rightarrow> byte list \<Rightarrow> MarketUpdate \<Rightarrow> tracking \<Rightarrow> MarketUpdate option \<times> tracking" where
  "spec_add_msg ut mt w msg out T =
     (let tid = stockLocate (iw_locate w mt msg); s = (if iw_buy w mt msg then BUY else SELL) in
      (Some (out\<lparr>mu_type := ut, mu_side := s, mu_price := iw_price w mt msg, mu_qty := iw_shares w mt msg,
          mu_order_ref := iw_ref w mt msg, mu_new_ref := 0, mu_ticker_id := tid\<rparr>),
       track tid (iw_ref w mt msg) \<lparr>os_side = s, os_price = iw_price w mt msg, os_qty = iw_shares w mt msg, os_ticker_id = tid\<rparr> T))"

definition spec_reduce_msg :: "UpdateType \<Rightarrow> MsgType \<Rightarrow> OrderId \<Rightarrow> ItchWire \<Rightarrow> byte list \<Rightarrow> MarketUpdate \<Rightarrow> tracking \<Rightarrow> MarketUpdate option \<times> tracking" where
  "spec_reduce_msg ut mt new w msg out T =
     (let tid = stockLocate (iw_locate w mt msg); ref = iw_ref w mt msg; q = iw_shares w mt msg in
      case T tid ref of
        None \<Rightarrow> (None, T)
      | Some st \<Rightarrow>
          (Some (out\<lparr>mu_type := ut, mu_qty := q, mu_order_ref := ref, mu_new_ref := new, mu_side := os_side st,
              mu_price := os_price st, mu_ticker_id := tid\<rparr>),
           track tid ref (st\<lparr>os_qty := if os_qty st \<le> q then 0 else os_qty st - q\<rparr>) T))"

definition control_type :: "16 word \<Rightarrow> UpdateType option" where
  "control_type l = (if l = SNAPSHOT_START_locate then Some SNAPSHOT_START else if l = SNAPSHOT_CLEAR_locate then Some SNAPSHOT_CLEAR
     else if l = SNAPSHOT_END_locate then Some SNAPSHOT_END else None)"

definition spec_message :: "ItchWire \<Rightarrow> MsgType \<Rightarrow> byte list \<Rightarrow> MarketUpdate \<Rightarrow> tracking \<Rightarrow> MarketUpdate option \<times> tracking" where
  "spec_message w mt msg out T = (case mt of
     SYSTEM_EVENT \<Rightarrow> (None, T)
   | ADD_ORDER \<Rightarrow> spec_add_msg ADD mt w msg out T
   | ADD_ORDER_MPID \<Rightarrow> spec_add_msg ADD_MPID mt w msg out T
   | ORDER_EXECUTED \<Rightarrow> spec_reduce_msg EXECUTE mt (iw_new_ref w mt msg) w msg out T
   | ORDER_CANCEL \<Rightarrow> spec_reduce_msg CANCEL mt 0 w msg out T
   | ORDER_DELETE \<Rightarrow>
       let ref = iw_ref w mt msg; tid = stockLocate (iw_locate w mt msg) in
       (case control_type (iw_locate w mt msg) of
          Some t \<Rightarrow> (Some (out\<lparr>mu_type := t, mu_order_ref := ref, mu_new_ref := 0,
              mu_ticker_id := (if t = SNAPSHOT_CLEAR then ucast ref else TickerId_INVALID)\<rparr>), T)
        | None \<Rightarrow>
            (case T tid ref of
               None \<Rightarrow> (None, T)
             | Some st \<Rightarrow>
                 (Some (out\<lparr>mu_type := DELETE, mu_qty := 0, mu_order_ref := ref, mu_new_ref := 0, mu_side := os_side st,
                    mu_price := os_price st, mu_ticker_id := tid\<rparr>),
                  track tid ref (st\<lparr>os_qty := 0\<rparr>) T)))
   | ORDER_REPLACE \<Rightarrow>
       let ref = iw_ref w mt msg; new = iw_new_ref w mt msg; tid = stockLocate (iw_locate w mt msg) in
       (case T tid ref of
          None \<Rightarrow> (None, T)
        | Some st \<Rightarrow>
            (Some (out\<lparr>mu_type := REPLACE, mu_price := iw_price w mt msg, mu_qty := iw_shares w mt msg, mu_order_ref := ref,
               mu_new_ref := new, mu_side := os_side st, mu_ticker_id := tid\<rparr>),
             track tid ref (st\<lparr>os_qty := 0\<rparr>)
               (track tid new \<lparr>os_side = os_side st, os_price = iw_price w mt msg, os_qty = iw_shares w mt msg, os_ticker_id = tid\<rparr> T))))"

subsection \<open>The invariant\<close>

definition grow_ok :: "growth \<Rightarrow> bool" where
  "grow_ok g \<longleftrightarrow> (\<forall>c n. n \<le> g c n)"

definition live_refs :: "tracking \<Rightarrow> (TickerId \<times> OrderId) set" where
  "live_refs T = {(tid, ref). T tid ref \<noteq> None}"

definition decoder_ok :: "ItchDecoder \<Rightarrow> bool" where
  "decoder_ok d \<longleftrightarrow>
     (\<forall>tid t. de_map d tid = Some t \<longrightarrow> length (rt_items t) \<le> rt_capacity t \<and>
        (\<forall>st \<in> set (rt_items t). os_qty st \<noteq> 0 \<longrightarrow> os_ticker_id st = tid)) \<and>
     card (live_refs (tracked d)) \<le> de_tracked d"

text \<open>
  When a message stays within bounds: an added reference is not the largest 64-bit number, a replacement fits
  the storage the vector already has.
\<close>

definition within_bounds :: "ItchWire \<Rightarrow> MsgType \<Rightarrow> byte list \<Rightarrow> ItchDecoder \<Rightarrow> bool" where
  "within_bounds w mt msg d = (case mt of
     ADD_ORDER \<Rightarrow> iw_ref w mt msg + 1 \<noteq> 0
   | ADD_ORDER_MPID \<Rightarrow> iw_ref w mt msg + 1 \<noteq> 0
   | ORDER_REPLACE \<Rightarrow>
       (case find_order d (stockLocate (iw_locate w mt msg)) (iw_ref w mt msg) of
          None \<Rightarrow> True
        | Some (t, st) \<Rightarrow> unat (iw_new_ref w mt msg) < rt_capacity t \<and> iw_new_ref w mt msg + 1 \<noteq> 0)
   | _ \<Rightarrow> True)"

subsection \<open>Reading and writing the vectors\<close>

lemma unat_succ: "(ref :: 64 word) + 1 \<noteq> 0 \<Longrightarrow> unat (ref + 1) = Suc (unat ref)"
  using unatSuc [of ref] by (simp add: add.commute)

lemma tracked_map: "tracked d tid ref = Option.bind (de_map d tid) (\<lambda>t.
    if unat ref < length (rt_items t) \<and> os_qty (rt_items t ! unat ref) \<noteq> 0 then Some (rt_items t ! unat ref) else None)"
  by (auto simp: tracked_def find_order_def Let_def split: option.split)

lemma find_order_Some:
  assumes "find_order d tid ref = Some (t, st)"
  shows "de_map d tid = Some t" and "unat ref < length (rt_items t)" and "st = rt_items t ! unat ref" and "os_qty st \<noteq> 0"
    and "tracked d tid ref = Some st"
  using assms by (auto simp: tracked_def find_order_def Let_def split: option.splits if_splits)

lemma tracked_None: "find_order d tid ref = None \<longleftrightarrow> tracked d tid ref = None"
  by (simp add: tracked_def)

lemma store_at_Some:
  assumes "length (rt_items t) \<le> rt_capacity t" and "grow_ok g" and "ref + 1 \<noteq> 0"
  obtains t' where "store_at g ref st t = Some t'" and "length (rt_items t') \<le> rt_capacity t'" and "unat ref < length (rt_items t')"
    and "\<And>i. i < length (rt_items t') \<Longrightarrow> rt_items t' ! i =
      (if i = unat ref then st else if i < length (rt_items t) then rt_items t ! i else OrderState_init)"
    and "length (rt_items t) \<le> length (rt_items t')"
proof (cases "length (rt_items t) \<le> unat ref")
  case True
  have n: "unat (ref + 1) = Suc (unat ref)" by (rule unat_succ [OF assms(3)])
  let ?t = "resize g (Suc (unat ref)) t"
  have len: "length (rt_items ?t) = Suc (unat ref)" using True by (simp add: resize_def)
  have cap: "Suc (unat ref) \<le> rt_capacity ?t" using assms(2) by (simp add: resize_def grow_ok_def)
  show thesis
    by (rule that [of "?t\<lparr>rt_items := (rt_items ?t)[unat ref := st]\<rparr>"])
      (use True len cap n in \<open>simp_all add: store_at_def Let_def\<close>, auto simp: resize_def nth_append nth_list_update)
next
  case False
  show thesis
    by (rule that [of "t\<lparr>rt_items := (rt_items t)[unat ref := st]\<rparr>"])
      (use False assms(1) in \<open>simp_all add: store_at_def nth_list_update\<close>)
qed

text \<open>Any table that agrees with the old one except at one reference is a \<open>track\<close>.\<close>

lemma tracked_write:
  assumes t: "t = (case de_map d tid of Some t \<Rightarrow> t | None \<Rightarrow> RefTable_init)"
    and nth: "\<And>i. i < length (rt_items t') \<Longrightarrow> rt_items t' ! i =
      (if i = unat ref then st else if i < length (rt_items t) then rt_items t ! i else OrderState_init)"
    and len: "unat ref < length (rt_items t')" "length (rt_items t) \<le> length (rt_items t')"
    and d': "de_map d' = (de_map d)(tid \<mapsto> t')"
  shows "tracked d' = track tid ref st (tracked d)"
proof (intro ext)
  fix tid' ref'
  show "tracked d' tid' ref' = track tid ref st (tracked d) tid' ref'"
  proof (cases "tid' = tid")
    case False
    then show ?thesis by (simp add: tracked_map d' track_def)
  next
    case True
    have old: "tracked d tid ref' =
      (if unat ref' < length (rt_items t) \<and> os_qty (rt_items t ! unat ref') \<noteq> 0 then Some (rt_items t ! unat ref') else None)"
      using t by (simp add: tracked_map RefTable_init_def split: option.splits)
    have new: "tracked d' tid ref' =
      (if unat ref' < length (rt_items t') \<and> os_qty (rt_items t' ! unat ref') \<noteq> 0 then Some (rt_items t' ! unat ref') else None)"
      by (simp add: tracked_map d')
    show ?thesis
    proof (cases "ref' = ref")
      case eq: True
      then show ?thesis using True len(1) nth [of "unat ref"] new by (simp add: track_def)
    next
      case False
      then have "unat ref' \<noteq> unat ref" by (simp add: word_unat_eq_iff)
      then show ?thesis using False True len(2) nth [of "unat ref'"] old new
        by (cases "unat ref' < length (rt_items t)"; cases "unat ref' < length (rt_items t')") (simp_all add: track_def OrderState_init_def)
    qed
  qed
qed

lemma live_track:
  "live_refs (track tid ref st T) = (if os_qty st = 0 then live_refs T - {(tid, ref)} else insert (tid, ref) (live_refs T))"
  by (auto simp: live_refs_def track_def split: if_splits)

text \<open>The invariant after a write, given what happened to the counter.\<close>

lemma decoder_ok_write:
  assumes ok: "decoder_ok d" and t: "t = (case de_map d tid of Some t \<Rightarrow> t | None \<Rightarrow> RefTable_init)"
    and nth: "\<And>i. i < length (rt_items t') \<Longrightarrow> rt_items t' ! i =
      (if i = unat ref then st else if i < length (rt_items t) then rt_items t ! i else OrderState_init)"
    and len: "unat ref < length (rt_items t')" "length (rt_items t) \<le> length (rt_items t')" "length (rt_items t') \<le> rt_capacity t'"
    and d': "de_map d' = (de_map d)(tid \<mapsto> t')" and st: "os_qty st \<noteq> 0 \<Longrightarrow> os_ticker_id st = tid"
    and count: "card (live_refs (track tid ref st (tracked d))) \<le> de_tracked d'"
  shows "decoder_ok d'"
proof -
  have "os_ticker_id s = tid" if "s \<in> set (rt_items t')" "os_qty s \<noteq> 0" for s
  proof -
    from that(1) obtain i where i: "i < length (rt_items t')" "s = rt_items t' ! i" by (metis in_set_conv_nth)
    have "os_ticker_id (rt_items t ! i) = tid" if "i < length (rt_items t)" "os_qty (rt_items t ! i) \<noteq> 0"
    proof (cases "de_map d tid")
      case (Some t0)
      then show ?thesis using ok t that by (auto simp: decoder_ok_def)
    qed (use t that in \<open>simp add: RefTable_init_def\<close>)
    then show ?thesis using nth [OF i(1)] i(2) st that(2) by (auto simp: OrderState_init_def split: if_splits)
  qed
  moreover have "tracked d' = track tid ref st (tracked d)" by (rule tracked_write [OF t nth len(1,2) d'])
  ultimately show ?thesis using ok count len(3) by (simp add: decoder_ok_def d')
qed

lemma write_back_ok:
  assumes ok: "decoder_ok d" and f: "find_order d tid ref = Some (t, st0)" and st: "os_qty st \<noteq> 0 \<Longrightarrow> os_ticker_id st = tid"
    and count: "card (live_refs (track tid ref st (tracked d))) \<le> n"
  shows "tracked ((write_back tid ref st t d)\<lparr>de_tracked := n\<rparr>) = track tid ref st (tracked d)"
    and "decoder_ok ((write_back tid ref st t d)\<lparr>de_tracked := n\<rparr>)"
proof -
  note f' = find_order_Some [OF f]
  let ?t = "t\<lparr>rt_items := (rt_items t)[unat ref := st]\<rparr>"
  have t: "t = (case de_map d tid of Some t \<Rightarrow> t | None \<Rightarrow> RefTable_init)" using f'(1) by simp
  have cap: "length (rt_items t) \<le> rt_capacity t" using ok f'(1) by (simp add: decoder_ok_def)
  have nth: "rt_items ?t ! i = (if i = unat ref then st else if i < length (rt_items t) then rt_items t ! i else OrderState_init)"
    if "i < length (rt_items ?t)" for i using that by (simp add: nth_list_update)
  show "tracked ((write_back tid ref st t d)\<lparr>de_tracked := n\<rparr>) = track tid ref st (tracked d)"
    by (rule tracked_write [OF t, of ?t]) (rule nth, use f'(2) in \<open>simp_all add: write_back_def\<close>)
  show "decoder_ok ((write_back tid ref st t d)\<lparr>de_tracked := n\<rparr>)"
    by (rule decoder_ok_write [OF ok t, of ?t]) (rule nth, use f'(2) cap st count in \<open>simp_all add: write_back_def\<close>)
qed

lemma live_tracked: "find_order d tid ref = Some (t, st) \<Longrightarrow> (tid, ref) \<in> live_refs (tracked d)"
  using find_order_Some(5) by (force simp: live_refs_def)

lemma count_keep: "decoder_ok d \<Longrightarrow> (tid, ref) \<in> live_refs (tracked d) \<Longrightarrow> os_qty st \<noteq> 0 \<Longrightarrow> card (live_refs (track tid ref st (tracked d))) \<le> de_tracked d"
  by (simp add: live_track insert_absorb decoder_ok_def)

lemma count_drop: "decoder_ok d \<Longrightarrow> (tid, ref) \<in> live_refs (tracked d) \<Longrightarrow> os_qty st = 0 \<Longrightarrow> card (live_refs (track tid ref st (tracked d))) \<le> de_tracked d - 1"
  using diff_le_mono [of "card (live_refs (tracked d))" "de_tracked d" 1] by (simp add: live_track decoder_ok_def card_Diff_singleton)

lemma count_add: "decoder_ok d \<Longrightarrow> card (live_refs (track tid ref st (tracked d))) \<le> de_tracked d + 1"
proof -
  assume ok: "decoder_ok d"
  have "card (live_refs (tracked d) - {(tid, ref)}) \<le> card (live_refs (tracked d))" using ok by (intro card_mono) (auto simp: decoder_ok_def)
  then show ?thesis using ok by (auto simp: live_track decoder_ok_def card_insert_if)
qed

subsection \<open>The handlers\<close>

definition tracks_as :: "decoded \<Rightarrow> MarketUpdate option \<times> tracking \<Rightarrow> bool" where
  "tracks_as r x \<longleftrightarrow> (\<exists>d'. r = Some (fst x, d') \<and> tracked d' = snd x \<and> decoder_ok d')"

lemma tracks_refl: "decoder_ok d \<Longrightarrow> tracks_as (Some (u, d)) (u, tracked d)"
  by (simp add: tracks_as_def)

lemma decode_add_tracks:
  assumes ok: "decoder_ok d" and g: "grow_ok g" and ref: "iw_ref w mt msg + 1 \<noteq> 0"
  shows "tracks_as (decode_add ut mt g w msg out d) (spec_add_msg ut mt w msg out (tracked d))"
proof -
  let ?tid = "stockLocate (iw_locate w mt msg)"
  define t where "t = (case de_map d ?tid of Some t \<Rightarrow> t | None \<Rightarrow> RefTable_init)"
  define st where "st = \<lparr>os_side = (if iw_buy w mt msg then BUY else SELL), os_price = iw_price w mt msg, os_qty = iw_shares w mt msg,
    os_ticker_id = ?tid\<rparr>"
  have cap: "length (rt_items t) \<le> rt_capacity t" using ok by (auto simp: t_def decoder_ok_def RefTable_init_def split: option.split)
  from store_at_Some [OF cap g ref, of st] obtain t' where t': "store_at g (iw_ref w mt msg) st t = Some t'"
    "length (rt_items t') \<le> rt_capacity t'" "unat (iw_ref w mt msg) < length (rt_items t')" "length (rt_items t) \<le> length (rt_items t')"
    and nth: "\<And>i. i < length (rt_items t') \<Longrightarrow> rt_items t' ! i =
      (if i = unat (iw_ref w mt msg) then st else if i < length (rt_items t) then rt_items t ! i else OrderState_init)" by metis
  define d' where "d' = d\<lparr>de_map := (de_map d)(?tid \<mapsto> t'), de_tracked := de_tracked d + 1\<rparr>"
  have map': "de_map d' = (de_map d)(?tid \<mapsto> t')" and n: "de_tracked d' = de_tracked d + 1" by (simp_all add: d'_def)
  have "tracked d' = track ?tid (iw_ref w mt msg) st (tracked d)" by (rule tracked_write [OF t_def nth t'(3,4) map'])
  moreover have "decoder_ok d'"
    by (rule decoder_ok_write [OF ok t_def nth t'(3,4,2) map']) (use count_add [OF ok] n in \<open>simp_all add: st_def\<close>)
  moreover have "decode_add ut mt g w msg out d = Some (fst (spec_add_msg ut mt w msg out (tracked d)), d')"
    using t'(1) by (simp add: decode_add_def spec_add_msg_def Let_def d'_def st_def flip: t_def)
  ultimately show ?thesis unfolding tracks_as_def by (intro exI [of _ d']) (simp add: spec_add_msg_def Let_def st_def)
qed

lemma ticker_of_tracked: "decoder_ok d \<Longrightarrow> find_order d tid ref = Some (t, st) \<Longrightarrow> os_ticker_id st = tid"
  using find_order_Some [of d tid ref t st] by (auto simp: decoder_ok_def)

lemma decode_reduce_tracks:
  assumes ok: "decoder_ok d"
  shows "tracks_as (decode_reduce (stockLocate (iw_locate w mt msg))
      (out\<lparr>mu_type := ut, mu_qty := iw_shares w mt msg, mu_order_ref := iw_ref w mt msg, mu_new_ref := new\<rparr>) d)
    (spec_reduce_msg ut mt new w msg out (tracked d))"
proof (cases "find_order d (stockLocate (iw_locate w mt msg)) (iw_ref w mt msg)")
  case None
  then have "tracked d (stockLocate (iw_locate w mt msg)) (iw_ref w mt msg) = None" using tracked_None by blast
  with None ok tracks_refl show ?thesis by (simp add: decode_reduce_def spec_reduce_msg_def Let_def)
next
  case (Some x)
  obtain t st where x: "x = (t, st)" by (cases x)
  let ?tid = "stockLocate (iw_locate w mt msg)" and ?ref = "iw_ref w mt msg" and ?q = "iw_shares w mt msg"
  note f = Some [unfolded x] and f' = find_order_Some [OF Some [unfolded x]]
  have tid: "os_ticker_id st = ?tid" by (rule ticker_of_tracked [OF ok f])
  show ?thesis
  proof (cases "os_qty st \<le> ?q")
    case True
    note wb = write_back_ok [OF ok f, of "st\<lparr>os_qty := 0\<rparr>" "de_tracked d - 1"] and count = count_drop [OF ok live_tracked [OF f], of "st\<lparr>os_qty := 0\<rparr>"]
    show ?thesis using wb count f f'(5) tid True
      by (simp add: tracks_as_def decode_reduce_def spec_reduce_msg_def Let_def)
  next
    case False
    let ?st = "st\<lparr>os_qty := os_qty st - ?q\<rparr>"
    have pos: "os_qty ?st \<noteq> 0" using False by auto
    note wb = write_back_ok [OF ok f, of ?st "de_tracked d"] and count = count_keep [OF ok live_tracked [OF f] pos]
    have "(write_back ?tid ?ref ?st t d)\<lparr>de_tracked := de_tracked d\<rparr> = write_back ?tid ?ref ?st t d" by (simp add: write_back_def)
    with wb count pos tid show ?thesis using f f'(5) False
      by (simp add: tracks_as_def decode_reduce_def spec_reduce_msg_def Let_def)
  qed
qed

lemma decode_delete_tracks:
  assumes ok: "decoder_ok d"
  shows "tracks_as (decodeOrderDelete w msg out d) (spec_message w ORDER_DELETE msg out (tracked d))"
proof (cases "control_type (iw_locate w ORDER_DELETE msg)")
  case (Some c)
  then show ?thesis using ok
    by (auto simp: tracks_as_def decodeOrderDelete_def spec_message_def control_type_def Let_def split: if_splits)
next
  case ctl: None
  let ?tid = "stockLocate (iw_locate w ORDER_DELETE msg)" and ?ref = "iw_ref w ORDER_DELETE msg"
  have l: "iw_locate w ORDER_DELETE msg \<noteq> SNAPSHOT_START_locate" "iw_locate w ORDER_DELETE msg \<noteq> SNAPSHOT_CLEAR_locate"
    "iw_locate w ORDER_DELETE msg \<noteq> SNAPSHOT_END_locate" using ctl by (auto simp: control_type_def split: if_splits)
  show ?thesis
  proof (cases "find_order d ?tid ?ref")
    case None
    then have "tracked d ?tid ?ref = None" using tracked_None by blast
    with None ok tracks_refl ctl l show ?thesis by (simp add: decodeOrderDelete_def spec_message_def Let_def)
  next
    case (Some x)
    obtain t st where x: "x = (t, st)" by (cases x)
    note f = Some [unfolded x] and f' = find_order_Some [OF Some [unfolded x]]
    have tid: "os_ticker_id st = ?tid" by (rule ticker_of_tracked [OF ok f])
    note wb = write_back_ok [OF ok f, of "st\<lparr>os_qty := 0\<rparr>" "de_tracked d - 1"] and count = count_drop [OF ok live_tracked [OF f], of "st\<lparr>os_qty := 0\<rparr>"]
    show ?thesis using wb count f f'(5) tid ctl l
      by (simp add: tracks_as_def decodeOrderDelete_def spec_message_def Let_def)
  qed
qed

lemma track_zero: "os_qty st = 0 \<Longrightarrow> os_qty st' = 0 \<Longrightarrow> track tid ref st T = track tid ref st' T"
  by (simp add: track_def)

text \<open>Clearing one reference of a table that the map already holds.\<close>

lemma clear_ref:
  assumes ok: "decoder_ok d" and t: "de_map d tid = Some t" and ref: "unat ref < length (rt_items t)"
  shows "tracked (write_back tid ref ((rt_items t ! unat ref)\<lparr>os_qty := 0\<rparr>) t d) = track tid ref (st\<lparr>os_qty := 0\<rparr>) (tracked d)"
    and "decoder_ok (write_back tid ref ((rt_items t ! unat ref)\<lparr>os_qty := 0\<rparr>) t d)"
proof -
  let ?st = "(rt_items t ! unat ref)\<lparr>os_qty := 0\<rparr>"
  let ?t = "t\<lparr>rt_items := (rt_items t)[unat ref := ?st]\<rparr>"
  have t': "t = (case de_map d tid of Some t \<Rightarrow> t | None \<Rightarrow> RefTable_init)" using t by simp
  have nth: "rt_items ?t ! i = (if i = unat ref then ?st else if i < length (rt_items t) then rt_items t ! i else OrderState_init)"
    if "i < length (rt_items ?t)" for i using that by (simp add: nth_list_update)
  have cap: "length (rt_items t) \<le> rt_capacity t" using ok t by (simp add: decoder_ok_def)
  have "tracked (write_back tid ref ?st t d) = track tid ref ?st (tracked d)"
    by (rule tracked_write [OF t', of ?t]) (rule nth, use ref in \<open>simp_all add: write_back_def\<close>)
  then show "tracked (write_back tid ref ?st t d) = track tid ref (st\<lparr>os_qty := 0\<rparr>) (tracked d)"
    using track_zero [of ?st "st\<lparr>os_qty := 0\<rparr>"] by simp
  have "card (live_refs (track tid ref ?st (tracked d))) \<le> card (live_refs (tracked d))"
    unfolding live_track by (intro card_mono) auto
  then have "card (live_refs (track tid ref ?st (tracked d))) \<le> de_tracked d" using ok by (simp add: decoder_ok_def)
  then show "decoder_ok (write_back tid ref ?st t d)"
    by (intro decoder_ok_write [OF ok t', of ?t]) (rule nth, use ref cap in \<open>simp_all add: write_back_def\<close>)
qed

lemma decode_replace_tracks:
  assumes ok: "decoder_ok d" and g: "grow_ok g" and room: "within_bounds w ORDER_REPLACE msg d"
  shows "tracks_as (decodeOrderReplace g w msg out d) (spec_message w ORDER_REPLACE msg out (tracked d))"
proof (cases "find_order d (stockLocate (iw_locate w ORDER_REPLACE msg)) (iw_ref w ORDER_REPLACE msg)")
  case None
  then have "tracked d (stockLocate (iw_locate w ORDER_REPLACE msg)) (iw_ref w ORDER_REPLACE msg) = None" using tracked_None by blast
  with None ok tracks_refl show ?thesis by (simp add: decodeOrderReplace_def spec_message_def Let_def)
next
  case (Some x)
  obtain t st where x: "x = (t, st)" by (cases x)
  let ?tid = "stockLocate (iw_locate w ORDER_REPLACE msg)" and ?ref = "iw_ref w ORDER_REPLACE msg" and ?new = "iw_new_ref w ORDER_REPLACE msg"
  note f = Some [unfolded x] and f' = find_order_Some [OF Some [unfolded x]]
  have tid: "os_ticker_id st = ?tid" by (rule ticker_of_tracked [OF ok f])
  have new: "unat ?new < rt_capacity t" "?new + 1 \<noteq> 0" using room f by (simp_all add: within_bounds_def)
  have cap: "length (rt_items t) \<le> rt_capacity t" using ok f'(1) by (simp add: decoder_ok_def)
  define st' where "st' = \<lparr>os_side = os_side st, os_price = iw_price w ORDER_REPLACE msg, os_qty = iw_shares w ORDER_REPLACE msg, os_ticker_id = ?tid\<rparr>"
  from store_at_Some [OF cap g new(2), of st'] obtain t' where t': "store_at g ?new st' t = Some t'"
    "length (rt_items t') \<le> rt_capacity t'" "unat ?new < length (rt_items t')" "length (rt_items t) \<le> length (rt_items t')"
    and nth: "\<And>i. i < length (rt_items t') \<Longrightarrow> rt_items t' ! i =
      (if i = unat ?new then st' else if i < length (rt_items t) then rt_items t ! i else OrderState_init)" by metis
  have t: "t = (case de_map d ?tid of Some t \<Rightarrow> t | None \<Rightarrow> RefTable_init)" using f'(1) by simp
  define d1 where "d1 = d\<lparr>de_map := (de_map d)(?tid \<mapsto> t'), de_tracked := de_tracked d + 1\<rparr>"
  have map1: "de_map d1 = (de_map d)(?tid \<mapsto> t')" by (simp add: d1_def)
  have T1: "tracked d1 = track ?tid ?new st' (tracked d)" by (rule tracked_write [OF t nth t'(3,4) map1])
  have ok1: "decoder_ok d1"
    by (rule decoder_ok_write [OF ok t nth t'(3,4,2) map1]) (use count_add [OF ok] in \<open>simp_all add: st'_def d1_def\<close>)
  let ?old = "(rt_items t' ! unat ?ref)\<lparr>os_qty := 0\<rparr>"
  have len: "unat ?ref < length (rt_items t')" using f'(2) t'(4) by simp
  note done' = clear_ref(1) [OF ok1, of ?tid t' ?ref st] clear_ref(2) [OF ok1, of ?tid t' ?ref]
  have run: "decodeOrderReplace g w msg out d =
      Some (fst (spec_message w ORDER_REPLACE msg out (tracked d)), write_back ?tid ?ref ?old t' d1)"
    using f f'(5) tid new(1) t'(1) unat_succ [OF new(2)]
    by (simp add: decodeOrderReplace_def spec_message_def Let_def write_back_def d1_def flip: st'_def)
  have "tracked (write_back ?tid ?ref ?old t' d1) = snd (spec_message w ORDER_REPLACE msg out (tracked d))"
    using done'(1) len f'(5) T1 by (simp add: d1_def spec_message_def Let_def st'_def)
  moreover have "decoder_ok (write_back ?tid ?ref ?old t' d1)" using done'(2) len by (simp add: d1_def)
  ultimately show ?thesis unfolding tracks_as_def using run by blast
qed

lemma decode_message_tracks:
  assumes ok: "decoder_ok d" and g: "grow_ok g" and b: "within_bounds w mt msg d"
  shows "tracks_as (decode_message g w mt msg out d) (spec_message w mt msg out (tracked d))"
proof (cases mt)
  case SYSTEM_EVENT
  then show ?thesis using tracks_refl [OF ok] by (simp add: decode_message_def decodeSystemEvent_def spec_message_def)
next
  case ADD_ORDER
  then show ?thesis using decode_add_tracks [OF ok g] b by (simp add: decode_message_def decodeAddOrder_def spec_message_def within_bounds_def)
next
  case ADD_ORDER_MPID
  then show ?thesis using decode_add_tracks [OF ok g] b by (simp add: decode_message_def decodeAddOrderMPID_def spec_message_def within_bounds_def)
next
  case ORDER_EXECUTED
  then show ?thesis using decode_reduce_tracks [OF ok] by (simp add: decode_message_def decodeOrderExecuted_def spec_message_def)
next
  case ORDER_CANCEL
  then show ?thesis using decode_reduce_tracks [OF ok] by (simp add: decode_message_def decodeOrderCancel_def spec_message_def)
next
  case ORDER_DELETE
  then show ?thesis using decode_delete_tracks [OF ok] by (simp add: decode_message_def)
next
  case ORDER_REPLACE
  then show ?thesis using decode_replace_tracks [OF ok g] b by (simp add: decode_message_def)
qed

subsection \<open>Frames\<close>

text \<open>The length of the frame that starts a wire, when its tag is known.\<close>

definition frame_size :: "ItchWire \<Rightarrow> byte list \<Rightarrow> nat option" where
  "frame_size w wire = (if length wire < sizeof_SeqNum + 1 then None
     else map_option (\<lambda>mt. sizeof_SeqNum + iw_sizeof w mt) (iw_type w (wire ! sizeof_SeqNum)))"

lemma message_keeps_flags:
  assumes "decode_message g w mt msg out d = Some (r, d')"
  shows "de_last_size d' = de_last_size d" and "de_need_more d' = de_need_more d"
  using assms
  by (cases mt; auto simp: decode_message_def decodeSystemEvent_def decodeAddOrder_def decodeAddOrderMPID_def decode_add_def
      decodeOrderExecuted_def decodeOrderCancel_def decode_reduce_def decodeOrderDelete_def decodeOrderReplace_def write_back_def Let_def
      bind_eq_Some_conv split: option.splits if_splits prod.splits)+

lemma message_refused:
  assumes "decode_message g w mt msg out d = Some (None, d')"
  shows "d' = d"
  using assms
  by (cases mt; auto simp: decode_message_def decodeSystemEvent_def decodeAddOrder_def decodeAddOrderMPID_def decode_add_def
      decodeOrderExecuted_def decodeOrderCancel_def decode_reduce_def decodeOrderDelete_def decodeOrderReplace_def Let_def
      bind_eq_Some_conv split: option.splits if_splits prod.splits)

text \<open>A decoded frame is a whole frame, and nothing after it was looked at.\<close>

lemma decode_true:
  assumes "decode g w wire out d = Some (Some u, d')"
  shows "frame_size w wire = Some (sizeof_SeqNum + de_last_size d')" and "sizeof_SeqNum + de_last_size d' \<le> length wire"
    and "\<not> de_need_more d'"
  using assms by (auto simp: decode_def Let_def frame_size_def dest: message_keeps_flags split: if_splits option.splits)

lemma decode_append:
  assumes "frame_size w wire = Some n" and "n \<le> length wire"
  shows "decode g w (wire @ rest) out d = decode g w wire out d"
proof -
  have l: "sizeof_SeqNum + 1 \<le> length wire" using assms(1) by (auto simp: frame_size_def split: if_splits)
  then have nth: "(wire @ rest) ! sizeof_SeqNum = wire ! sizeof_SeqNum" by (simp add: nth_append)
  from assms(1) l obtain mt where mt: "iw_type w (wire ! sizeof_SeqNum) = Some mt" "n = sizeof_SeqNum + iw_sizeof w mt"
    by (auto simp: frame_size_def split: if_splits)
  have "take (iw_sizeof w mt) (drop sizeof_SeqNum (wire @ rest)) = take (iw_sizeof w mt) (drop sizeof_SeqNum wire)"
    using assms(2) mt(2) by simp
  moreover have "take sizeof_SeqNum (wire @ rest) = take sizeof_SeqNum wire" using l by simp
  ultimately show ?thesis using l assms(2) mt nth by (simp add: decode_def Let_def)
qed

subsection \<open>A concrete wire format\<close>

text \<open>
  For closed examples: seven bytes per message, tag, locate, reference, new reference, shares, price, side,
  behind an eight-byte sequence number of which the last byte counts.
\<close>

definition small_wire :: ItchWire where
  "small_wire = \<lparr>iw_type = (\<lambda>b. if b = 0x41 then Some ADD_ORDER else if b = 0x44 then Some ORDER_DELETE
       else if b = 0x45 then Some ORDER_EXECUTED else if b = 0x55 then Some ORDER_REPLACE else if b = 0x53 then Some SYSTEM_EVENT else None),
     iw_sizeof = (\<lambda>mt. 7), iw_seq = (\<lambda>bs. ucast (last bs)), iw_locate = (\<lambda>mt m. ucast (m ! 1)), iw_ref = (\<lambda>mt m. ucast (m ! 2)),
     iw_new_ref = (\<lambda>mt m. ucast (m ! 3)), iw_shares = (\<lambda>mt m. ucast (m ! 4)), iw_price = (\<lambda>mt m. ucast (m ! 5)),
     iw_buy = (\<lambda>mt m. m ! 6 = 0x42)\<rparr>"

text \<open>The growth of the GNU implementation: at least double.\<close>

definition doubling :: growth where
  "doubling c n = max (2 * c) n"

lemma doubling_ok: "grow_ok doubling"
  by (simp add: grow_ok_def doubling_def)

lemma decoder_init_ok: "decoder_ok ItchDecoder_init"
proof -
  have "live_refs (tracked ItchDecoder_init) = {}" by (auto simp: live_refs_def tracked_map ItchDecoder_init_def)
  then show ?thesis by (simp add: decoder_ok_def ItchDecoder_init_def)
qed

definition add_msg :: "byte list" where
  "add_msg = [0x41, 7, 1, 0, 10, 100, 0x42]"

definition delete_msg :: "byte list" where
  "delete_msg = [0x44, 7, 1, 0, 0, 0, 0]"

definition replace_msg :: "byte list" where
  "replace_msg = [0x55, 7, 1, 2, 5, 101, 0]"

subsection \<open>Properties\<close>

text \<open>
  C7.  The decoder implements the map of open orders: every message that stays within bounds is decoded
  without undefined behaviour to exactly the update that the specification computes from the open orders
  (nothing for a message about an unknown order), the vectors then represent the specified map, and the
  counter of tracked orders stays at least the number of open orders, so it never falls below 0.
\<close>

theorem decoder_refines:
  assumes "decoder_ok d" and "grow_ok g" and "within_bounds w mt msg d"
  shows "\<exists>d'. decode_message g w mt msg out d = Some (fst (spec_message w mt msg out (tracked d)), d') \<and>
    tracked d' = snd (spec_message w mt msg out (tracked d)) \<and> decoder_ok d'"
  using decode_message_tracks [OF assms, of out] by (simp add: tracks_as_def)

theorem decoder_refines_witness:
  "\<exists>d'. decode_message doubling small_wire ADD_ORDER add_msg MarketUpdate_init ItchDecoder_init =
      Some (fst (spec_message small_wire ADD_ORDER add_msg MarketUpdate_init (tracked ItchDecoder_init)), d') \<and>
    tracked d' = snd (spec_message small_wire ADD_ORDER add_msg MarketUpdate_init (tracked ItchDecoder_init)) \<and> decoder_ok d'"
  by (rule decoder_refines [OF decoder_init_ok doubling_ok]) (simp add: within_bounds_def small_wire_def add_msg_def)

text \<open>
  A delete recovers what the add announced: after an add of a non-empty order, the delete of the same
  reference on the same ticker decodes to an update with the side, price and ticker of the add, and leaves
  the other orders tracked as they were and the reference untracked.
\<close>

theorem delete_recovers_add:
  assumes ok: "decoder_ok d" and g: "grow_ok g" and ref: "iw_ref w ADD_ORDER m + 1 \<noteq> 0" "iw_ref w ORDER_DELETE m' = iw_ref w ADD_ORDER m"
    and tid: "iw_locate w ORDER_DELETE m' = iw_locate w ADD_ORDER m" "control_type (iw_locate w ADD_ORDER m) = None"
    and qty: "iw_shares w ADD_ORDER m \<noteq> 0"
  shows "\<exists>u d1 v d2. decode_message g w ADD_ORDER m out d = Some (Some u, d1) \<and> decode_message g w ORDER_DELETE m' out' d1 = Some (Some v, d2) \<and>
    mu_type v = DELETE \<and> mu_side v = mu_side u \<and> mu_price v = mu_price u \<and> mu_ticker_id v = mu_ticker_id u \<and> mu_order_ref v = mu_order_ref u \<and>
    tracked d2 = (tracked d)(mu_ticker_id u := (tracked d (mu_ticker_id u))(mu_order_ref u := None))"
proof -
  have b: "within_bounds w ADD_ORDER m d" "within_bounds w ORDER_DELETE m' d1" for d1 using ref(1) by (simp_all add: within_bounds_def)
  from decode_message_tracks [OF ok g b(1), of out] obtain d1 where
    1: "decode_message g w ADD_ORDER m out d = Some (fst (spec_message w ADD_ORDER m out (tracked d)), d1)"
      "tracked d1 = snd (spec_message w ADD_ORDER m out (tracked d))" "decoder_ok d1" by (auto simp: tracks_as_def)
  from decode_message_tracks [OF 1(3) g b(2), of out'] obtain d2 where
    2: "decode_message g w ORDER_DELETE m' out' d1 = Some (fst (spec_message w ORDER_DELETE m' out' (tracked d1)), d2)"
      "tracked d2 = snd (spec_message w ORDER_DELETE m' out' (tracked d1))" by (auto simp: tracks_as_def)
  show ?thesis using 1(1,2) 2 ref(2) tid qty
    by (simp add: spec_message_def spec_add_msg_def track_def Let_def)
qed

theorem delete_recovers_add_witness:
  "\<exists>u d1 v d2. decode_message doubling small_wire ADD_ORDER add_msg MarketUpdate_init ItchDecoder_init = Some (Some u, d1) \<and>
    decode_message doubling small_wire ORDER_DELETE delete_msg MarketUpdate_init d1 = Some (Some v, d2) \<and> mu_price v = mu_price u"
  using delete_recovers_add [OF decoder_init_ok doubling_ok, of small_wire add_msg delete_msg MarketUpdate_init MarketUpdate_init]
  by (force simp: small_wire_def add_msg_def delete_msg_def control_type_def SNAPSHOT_START_locate_def SNAPSHOT_CLEAR_locate_def SNAPSHOT_END_locate_def)

text \<open>
  C37.  When \<^verbatim>\<open>decode\<close> returns false nothing has happened: the tracked orders are unchanged, and
  \<^verbatim>\<open>needsMoreData\<close> is set exactly when the bytes end before the frame that their tag announces (or before the
  tag), so that a truncated frame is never taken for garbage nor garbage for a truncated frame.
\<close>

theorem decode_false_is_harmless:
  assumes "decode g w wire out d = Some (None, d')"
  shows "de_map d' = de_map d \<and> de_tracked d' = de_tracked d \<and>
    (de_need_more d' \<longleftrightarrow> length wire < sizeof_SeqNum + 1 \<or> (\<exists>n. frame_size w wire = Some n \<and> length wire < n))"
  using assms by (auto simp: decode_def Let_def frame_size_def dest: message_refused split: if_splits option.splits)

theorem decode_false_is_harmless_witness:
  "\<exists>d'. decode doubling small_wire [0, 0, 0, 0, 0, 0, 0, 5, 0x45, 7] MarketUpdate_init ItchDecoder_init = Some (None, d') \<and> de_need_more d'"
proof -
  let ?wire = "[0, 0, 0, 0, 0, 0, 0, 5, 0x45, 7] :: byte list"
  obtain d' where d: "decode doubling small_wire ?wire MarketUpdate_init ItchDecoder_init = Some (None, d')"
    by (simp add: decode_def small_wire_def sizeof_SeqNum_def Let_def)
  moreover have "frame_size small_wire ?wire = Some 15" by (simp add: frame_size_def small_wire_def sizeof_SeqNum_def)
  ultimately show ?thesis using decode_false_is_harmless [OF d] by auto
qed

text \<open>
  \<^verbatim>\<open>decodeOrderReplace\<close> writes through a stale reference: an order with reference 1 is replaced by
  reference 2, the vector has to move to grow, and \<^verbatim>\<open>state.qty = 0\<close> then goes to the storage it has left.  The
  counter also grows with every replacement, although the number of open orders stays the same.
\<close>

theorem replace_writes_stale_reference:
  "Option.bind (decode_message doubling small_wire ADD_ORDER add_msg MarketUpdate_init ItchDecoder_init)
     (\<lambda>(u, d). decode_message doubling small_wire ORDER_REPLACE replace_msg MarketUpdate_init d) = None \<and>
   map_option (\<lambda>(u, d). (trackedOrders d, tracked d 7 1, map_option os_qty (tracked d 7 2)))
     (Option.bind (decode_message (\<lambda>c n. 16) small_wire ADD_ORDER add_msg MarketUpdate_init ItchDecoder_init)
       (\<lambda>(u, d). decode_message (\<lambda>c n. 16) small_wire ORDER_REPLACE replace_msg MarketUpdate_init d)) = Some (2, None, Some 5)"
  by code_simp

end
