(* ===== verification/Market_Properties.thy ===== *)
theory Market_Properties
  imports Market_Data Decoder_Properties
begin

text \<open>
  Correctness of the market-data consumer.  The specification of its output is \<open>follow\<close>, which reads a stream of
  updates as a reader without any other knowledge would: an incremental update must carry the next sequence
  number, and a snapshot block sets the number to go on with.  The lemmas show that whatever arrives, in whatever
  pieces, the stream pushed to the trade engine is one that \<open>follow\<close> accepts.
\<close>

subsection \<open>Streams without gaps\<close>

definition plain :: "MarketUpdate \<Rightarrow> bool" where
  "plain u \<longleftrightarrow> mu_type u \<noteq> SNAPSHOT_START \<and> mu_type u \<noteq> SNAPSHOT_CLEAR \<and> mu_type u \<noteq> SNAPSHOT_END"

text \<open>The next number, 0 when any will do, and whether the reader is inside a snapshot block.\<close>

fun follow :: "MarketUpdate list \<Rightarrow> SeqNum \<times> bool \<Rightarrow> (SeqNum \<times> bool) option" where
  "follow [] s = Some s"
| "follow (u # us) (n, True) = (if mu_type u = SNAPSHOT_START then None
     else follow us (if mu_type u = SNAPSHOT_END then (mu_order_ref u + 1, False) else (n, True)))"
| "follow (u # us) (n, False) = (if mu_type u = SNAPSHOT_START then follow us (n, True)
     else if plain u \<and> (n = 0 \<or> mu_seq_num u = n) then follow us (mu_seq_num u + 1, False) else None)"

lemma follow_append: "follow (xs @ ys) s = Option.bind (follow xs s) (follow ys)"
  by (induction xs s rule: follow.induct) auto

fun chain :: "SeqNum \<Rightarrow> MarketUpdate list \<Rightarrow> bool" where
  "chain n [] = True"
| "chain n (u # us) = (mu_seq_num u = n \<and> plain u \<and> chain (n + 1) us)"

lemma chain_append: "chain n (xs @ ys) \<longleftrightarrow> chain n xs \<and> chain (n + word_of_nat (length xs)) ys"
  by (induction xs arbitrary: n) (auto simp: algebra_simps)

lemma follow_chain: "chain n us \<Longrightarrow> follow us (n, False) = Some (n + word_of_nat (length us), False)"
  by (induction us arbitrary: n) (auto simp: plain_def algebra_simps)

definition open_block :: "MarketUpdate list \<Rightarrow> bool" where
  "open_block us \<longleftrightarrow> us \<noteq> [] \<and> mu_type (hd us) = SNAPSHOT_START \<and>
     (\<forall>u \<in> set (tl us). mu_type u \<noteq> SNAPSHOT_START \<and> mu_type u \<noteq> SNAPSHOT_END)"

lemma follow_inside:
  "\<forall>u \<in> set us. mu_type u \<noteq> SNAPSHOT_START \<and> mu_type u \<noteq> SNAPSHOT_END \<Longrightarrow> follow us (n, True) = Some (n, True)"
  by (induction us) auto

lemma follow_block:
  "open_block us \<Longrightarrow> mu_type e = SNAPSHOT_END \<Longrightarrow> follow (us @ [e]) (n, False) = Some (mu_order_ref e + 1, False)"
  by (cases us) (auto simp: open_block_def follow_append follow_inside)

subsection \<open>The waiting updates\<close>

definition waiting_ok :: "(SeqNum \<times> MarketUpdate) list \<Rightarrow> bool" where
  "waiting_ok q \<longleftrightarrow> sorted_wrt (<) (map fst q) \<and> (\<forall>(s, u) \<in> set q. mu_seq_num u = s \<and> plain u)"

lemma put_sorted_set: "set (put_sorted s u q) \<subseteq> insert (s, u) (set q)"
  by (induction s u q rule: put_sorted.induct) auto

lemma put_sorted_sorted: "sorted_wrt (<) (map fst q) \<Longrightarrow> sorted_wrt (<) (map fst (put_sorted s u q))"
proof (induction s u q rule: put_sorted.induct)
  case (2 s u s' u' q)
  then show ?case using put_sorted_set [of s u q] by fastforce
qed simp

lemma put_sorted_ok: "waiting_ok q \<Longrightarrow> plain u \<Longrightarrow> waiting_ok (put_sorted (mu_seq_num u) u q)"
  using put_sorted_set [of "mu_seq_num u" u q] by (auto simp: waiting_ok_def put_sorted_sorted)

lemma waiting_all: "\<forall>(s, u) \<in> set q. \<not> s < n \<Longrightarrow> waiting_from n q = map snd q"
  by (auto simp: waiting_from_def filter_id_conv)

lemma waiting_Cons: "waiting_from n ((s, u) # q) = (if s < n then [] else [u]) @ waiting_from n q"
  by (simp add: waiting_from_def)

lemma waiting_ok_Cons: "waiting_ok ((s, u) # q) \<Longrightarrow> waiting_ok q \<and> mu_seq_num u = s \<and> plain u \<and> (\<forall>(s', u') \<in> set q. s < s')"
  by (auto simp: waiting_ok_def)

lemma scan_chain:
  "waiting_ok q \<Longrightarrow> scan_queue n q = Some e \<Longrightarrow>
    chain n (waiting_from n q) \<and> e = n + word_of_nat (length (waiting_from n q))"
proof (induction n q arbitrary: e rule: scan_queue.induct)
  case (1 n)
  then show ?case by (simp add: waiting_from_def)
next
  case (2 n s u q)
  note q = waiting_ok_Cons [OF 2(3)]
  show ?case
  proof (cases "s < n")
    case True
    with 2 q show ?thesis by (simp add: waiting_Cons)
  next
    case False
    with 2(4) have s: "s = n" "scan_queue (n + 1) q = Some e" by (auto split: if_splits)
    have up: "\<not> s' < n" "\<not> s' < n + 1" if "(s', u') \<in> set q" for s' u'
      using q that s(1) by (fastforce, metis (no_types, lifting) case_prodD inc_le leD)
    have "waiting_from n q = map snd q" "waiting_from (n + 1) q = map snd q"
      using up by (auto intro!: waiting_all)
    then show ?thesis using 2(2) [OF False _ _ s(2)] q s False by (simp add: waiting_Cons algebra_simps)
  qed
qed

subsection \<open>The invariant\<close>

abbreviation delivered :: "MarketDataConsumer \<Rightarrow> MarketUpdate list" where
  "delivered m \<equiv> q_pushed (md_queue m)"

definition replay_ok :: "MarketDataConsumer \<Rightarrow> bool" where
  "replay_ok m \<longleftrightarrow> chain (md_next_exp m) (md_snap_queue m) \<and>
     md_last_applied m + 1 = md_next_exp m + word_of_nat (length (md_snap_queue m))"

definition consumer_ok :: "MarketDataConsumer \<Rightarrow> bool" where
  "consumer_ok m \<longleftrightarrow>
     follow (delivered m) (0, False) = Some (md_next_exp m, False) \<and> waiting_ok (md_inc_queue m) \<and>
     (md_in_recovery m \<longleftrightarrow> md_mode m \<noteq> RecoveryNone) \<and> (md_in_recovery m \<longleftrightarrow> md_tcp_open m) \<and>
     (md_synchronized m \<longrightarrow> \<not> md_in_recovery m) \<and>
     (md_have_start m \<longrightarrow> md_mode m = RecoverySnapshot \<and> open_block (md_snap_queue m)) \<and>
     (md_mode m = RecoveryReplay \<longrightarrow> replay_ok m)"

lemma waiting_ok_Nil [simp]: "waiting_ok []"
  by (simp add: waiting_ok_def)

lemma consumer_init_ok: "q_pushed q = [] \<Longrightarrow> consumer_ok (MarketDataConsumer_init q)"
  by (simp add: consumer_ok_def MarketDataConsumer_init_def)

lemma consumer_ok_decoder [simp]: "consumer_ok (m\<lparr>md_decoder := d\<rparr>) = consumer_ok m"
  by (simp add: consumer_ok_def replay_ok_def)

lemma consumer_ok_buffer [simp]: "consumer_ok (m\<lparr>md_tcp_buffer := b\<rparr>) = consumer_ok m"
  by (simp add: consumer_ok_def replay_ok_def)

lemma consumer_ok_status [simp]: "consumer_ok (m\<lparr>md_status_read := b\<rparr>) = consumer_ok m"
  by (simp add: consumer_ok_def replay_ok_def)

lemma deliver_all_Some:
  "deliver_all us m = Some m' \<Longrightarrow> \<exists>q. m' = m\<lparr>md_queue := q\<rparr> \<and> q_pushed q = delivered m @ us"
proof (induction us arbitrary: m)
  case Nil
  then have "m' = m\<lparr>md_queue := md_queue m\<rparr>" by simp
  then show ?case by fastforce
next
  case (Cons u us)
  then obtain q where q: "push u (md_queue m) = (True, q)" "deliver_all us (m\<lparr>md_queue := q\<rparr>) = Some m'"
    by (auto simp: deliver_def bind_eq_Some_conv split: prod.splits bool.splits)
  with Cons.IH [OF q(2)] push_True [OF q(1)] show ?case by auto
qed

lemma deliver_Some: "deliver u m = Some m' \<Longrightarrow> \<exists>q. m' = m\<lparr>md_queue := q\<rparr> \<and> q_pushed q = delivered m @ [u]"
  using deliver_all_Some [of "[u]" m m'] by simp

lemma startSnapshot_ok: "follow (delivered m) (0, False) = Some (md_next_exp m, False) \<Longrightarrow> consumer_ok (startSnapshotSync m)"
  by (simp add: startSnapshotSync_def consumer_ok_def)

lemma abort_ok: "follow (delivered m) (0, False) = Some (md_next_exp m, False) \<Longrightarrow> consumer_ok (abortSnapshotSync m)"
  by (simp add: abortSnapshotSync_def consumer_ok_def)

lemma startReplay_fresh_ok:
  "follow (delivered m) (0, False) = Some (md_next_exp m, False) \<Longrightarrow> \<not> md_have_start m \<Longrightarrow>
    consumer_ok (startReplaySync (md_next_exp m - 1) True m)"
  by (simp add: startReplaySync_def consumer_ok_def replay_ok_def Let_def)

lemma startReplay_again_ok:
  "consumer_ok m \<Longrightarrow> md_mode m = RecoveryReplay \<Longrightarrow> consumer_ok (startReplaySync (md_last_applied m) False (m\<lparr>md_tcp_open := t\<rparr>))"
  by (auto simp: startReplaySync_def consumer_ok_def replay_ok_def Let_def)

lemma consumer_ok_follow: "consumer_ok m \<Longrightarrow> follow (delivered m) (0, False) = Some (md_next_exp m, False)"
  by (simp add: consumer_ok_def)

text \<open>Both ways to finish push a stretch that takes the reader to \<open>resume\<close> and then the waiting updates.\<close>

lemma finish_follow:
  assumes "deliver_all us m = Some m1" and "deliver_all (waiting_from n q) m1 = Some m2"
    and "follow us (md_next_exp m, False) = Some (n, False)" and "scan_queue n q = Some e" and "waiting_ok q"
    and "follow (delivered m) (0, False) = Some (md_next_exp m, False)"
  shows "\<exists>q'. m2 = m\<lparr>md_queue := q'\<rparr> \<and> follow (q_pushed q') (0, False) = Some (e, False)"
proof -
  from deliver_all_Some [OF assms(1)] deliver_all_Some [OF assms(2)] obtain q' where
    q': "m2 = m\<lparr>md_queue := q'\<rparr>" "q_pushed q' = delivered m @ us @ waiting_from n q" by auto
  from scan_chain [OF assms(5,4)] have "follow (waiting_from n q) (n, False) = Some (e, False)" by (simp add: follow_chain)
  with q' assms(3,6) show ?thesis by (auto simp: follow_append)
qed

lemma finishReplay_ok:
  assumes "consumer_ok (m\<lparr>md_tcp_open := t\<rparr>)" and "md_mode m = RecoveryReplay" and "finishReplaySync m = Some m'"
  shows "consumer_ok m'"
proof (cases "scan_queue (md_last_applied m + 1) (md_inc_queue m)")
  case None
  from consumer_ok_follow [OF assms(1)] have "consumer_ok (abortSnapshotSync m)" by (simp add: abort_ok)
  with None assms(3) show ?thesis by (simp add: finishReplaySync_def Let_def)
next
  case (Some e)
  from assms(1,2) have r: "replay_ok m" by (simp add: consumer_ok_def replay_ok_def)
  then have f: "follow (md_snap_queue m) (md_next_exp m, False) = Some (md_last_applied m + 1, False)"
    by (simp add: replay_ok_def follow_chain)
  from assms(3) Some obtain m1 m2 where
    m1: "deliver_all (md_snap_queue m) m = Some m1" and m2: "deliver_all (waiting_from (md_last_applied m + 1) (md_inc_queue m1)) m1 = Some m2"
    and m': "m' = m2\<lparr>md_inc_queue := [], md_next_exp := e, md_in_recovery := False, md_synchronized := True,
            md_mode := RecoveryNone, md_snap_queue := [], md_tcp_buffer := [], md_tcp_open := False\<rparr>"
    by (auto simp: finishReplaySync_def Let_def bind_eq_Some_conv)
  from deliver_all_Some [OF m1] have q: "md_inc_queue m1 = md_inc_queue m" by auto
  from finish_follow [OF m1 m2 [unfolded q] f Some] assms(1) m' show ?thesis by (auto simp: consumer_ok_def assms(2))
qed

lemma finishSnapshot_ok:
  assumes "consumer_ok m0" and m: "m = m0\<lparr>md_snap_queue := us @ [e], md_have_start := False\<rparr>" and "md_mode m0 = RecoverySnapshot"
    and b: "open_block us" and e: "mu_type e = SNAPSHOT_END" and run: "finishSnapshotSync (mu_order_ref e + 1) m = Some m'"
  shows "consumer_ok m' \<and> md_mode m' \<noteq> RecoveryReplay"
proof (cases "scan_queue (mu_order_ref e + 1) (md_inc_queue m)")
  case None
  with assms show ?thesis by (auto simp: finishSnapshotSync_def consumer_ok_def)
next
  case (Some x)
  from run Some obtain m1 m2 where
    m1: "deliver_all (md_snap_queue m) m = Some m1" and m2: "deliver_all (waiting_from (mu_order_ref e + 1) (md_inc_queue m1)) m1 = Some m2"
    and m': "m' = m2\<lparr>md_inc_queue := [], md_next_exp := x, md_in_recovery := False, md_synchronized := True,
            md_mode := RecoveryNone, md_snap_queue := [], md_tcp_open := False\<rparr>"
    by (auto simp: finishSnapshotSync_def bind_eq_Some_conv)
  from deliver_all_Some [OF m1] have q: "md_inc_queue m1 = md_inc_queue m" by auto
  have f: "follow (md_snap_queue m) (md_next_exp m, False) = Some (mu_order_ref e + 1, False)"
    using follow_block [OF b e] m by simp
  from finish_follow [OF m1 m2 [unfolded q] f Some] assms(1) m m' show ?thesis by (auto simp: consumer_ok_def)
qed

subsection \<open>Every operation keeps it\<close>

lemma queue_ok: "consumer_ok m \<Longrightarrow> plain u \<Longrightarrow> consumer_ok (queueIncremental u m)"
  by (auto simp: consumer_ok_def queueIncremental_def replay_ok_def put_sorted_ok)

lemma detectGap_ok: "consumer_ok m \<Longrightarrow> consumer_ok (detectGap s m)"
proof (cases "md_in_recovery m")
  case False
  assume "consumer_ok m"
  moreover from this False have "\<not> md_have_start m" by (auto simp: consumer_ok_def)
  ultimately show ?thesis
    using False startReplay_fresh_ok [of "m\<lparr>md_in_recovery := True, md_synchronized := False\<rparr>"]
      startSnapshot_ok [of "m\<lparr>md_in_recovery := True, md_synchronized := False\<rparr>"]
    by (simp add: detectGap_def Let_def consumer_ok_follow)
qed (simp add: detectGap_def)

lemma processIncremental_ok:
  assumes ok: "consumer_ok m" and u: "plain u" and run: "processIncremental u m = Some m'"
  shows "consumer_ok m'"
proof (cases "md_in_recovery m")
  case True
  with assms show ?thesis by (auto simp: processIncremental_def queue_ok)
next
  case False
  have next1: "consumer_ok (m\<lparr>md_queue := q, md_next_exp := mu_seq_num u + 1\<rparr>)"
      "consumer_ok (m\<lparr>md_next_exp := mu_seq_num u + 1, md_queue := q\<rparr>)"
    if "q_pushed q = delivered m @ [u]" "md_next_exp m = 0 \<or> mu_seq_num u = md_next_exp m" for q
    using ok False that u by (auto simp: consumer_ok_def follow_append plain_def)
  consider "md_next_exp m = 0" | "md_next_exp m \<noteq> 0" "mu_seq_num u = md_next_exp m" | "md_next_exp m \<noteq> 0" "mu_seq_num u \<noteq> md_next_exp m" by blast
  then show ?thesis
  proof cases
    case 1
    with run False have "deliver u (m\<lparr>md_next_exp := mu_seq_num u + 1\<rparr>) = Some m'" by (simp add: processIncremental_def)
    from deliver_Some [OF this] next1 1 show ?thesis by auto
  next
    case 2
    with run False obtain m1 where m1: "deliver u m = Some m1" "m' = m1\<lparr>md_next_exp := md_next_exp m1 + 1\<rparr>"
      by (auto simp: processIncremental_def)
    from deliver_Some [OF m1(1)] m1(2) next1 2 show ?thesis by auto
  next
    case 3
    with run False ok u show ?thesis
      by (auto simp: processIncremental_def Let_def detectGap_ok queue_ok split: if_splits)
  qed
qed


lemma processSnapshot_ok:
  assumes ok: "consumer_ok m" and mode: "md_mode m \<noteq> RecoveryReplay" and run: "processSnapshot u m = Some m'"
  shows "consumer_ok m' \<and> md_mode m' \<noteq> RecoveryReplay"
proof (cases "md_in_recovery m \<and> mu_type u \<noteq> SNAPSHOT_START \<and> md_have_start m")
  case False
  with assms show ?thesis
    by (cases "md_mode m") (auto simp: processSnapshot_def consumer_ok_def open_block_def split: if_splits)
next
  case True
  with ok have snap: "md_mode m = RecoverySnapshot" "open_block (md_snap_queue m)" by (auto simp: consumer_ok_def)
  show ?thesis
  proof (cases "mu_type u = SNAPSHOT_END")
    case False
    with snap(2) True have "open_block (md_snap_queue m @ [u])" by (cases "md_snap_queue m") (auto simp: open_block_def)
    with assms True False snap(1) show ?thesis by (auto simp: processSnapshot_def consumer_ok_def Let_def)
  next
    case last: True
    with run True show ?thesis
      by (intro finishSnapshot_ok [OF ok _ snap last]) (auto simp: processSnapshot_def Let_def)
  qed
qed

text \<open>A frame of the incremental format that carries one of the snapshot control codes.\<close>

definition control_frame :: "ItchWire \<Rightarrow> byte list \<Rightarrow> bool" where
  "control_frame w wire \<longleftrightarrow> sizeof_SeqNum + 1 \<le> length wire \<and> iw_type w (wire ! sizeof_SeqNum) = Some ORDER_DELETE \<and>
     control_type (iw_locate w ORDER_DELETE (take (iw_sizeof w ORDER_DELETE) (drop sizeof_SeqNum wire))) \<noteq> None"

definition no_control :: "ItchWire \<Rightarrow> byte list \<Rightarrow> bool" where
  "no_control w bytes \<longleftrightarrow> (\<forall>i < length bytes. \<not> control_frame w (drop i bytes))"

lemma no_control_code [code]: "no_control w bytes \<longleftrightarrow> list_all (\<lambda>i. \<not> control_frame w (drop i bytes)) [0..<length bytes]"
  by (auto simp: no_control_def list_all_iff)

lemma no_control_drop: "no_control w bytes \<Longrightarrow> no_control w (drop k bytes)"
  by (auto simp: no_control_def add.commute)

lemma message_plain:
  assumes "decode_message g w mt msg out d = Some (Some u, d')"
    and "mt = ORDER_DELETE \<Longrightarrow> control_type (iw_locate w ORDER_DELETE msg) = None"
  shows "plain u"
  using assms
  by (cases mt; auto simp: decode_message_def decodeSystemEvent_def decodeAddOrder_def decodeAddOrderMPID_def decode_add_def
      decodeOrderExecuted_def decodeOrderCancel_def decode_reduce_def decodeOrderDelete_def decodeOrderReplace_def Let_def
      bind_eq_Some_conv control_type_def plain_def split: option.splits if_splits prod.splits)

lemma decode_plain:
  assumes run: "decode g w wire out d = Some (Some u, d')" and nc: "no_control w wire"
  shows "plain u"
proof -
  from run have l: "sizeof_SeqNum + 1 \<le> length wire" by (auto simp: decode_def Let_def split: if_splits)
  with nc have "\<not> control_frame w wire" unfolding no_control_def by (metis drop_0 add_gr_0 less_le_trans zero_less_one)
  with run l show ?thesis
    by (auto simp: decode_def Let_def control_frame_def intro: message_plain split: if_splits option.splits)
qed

lemma snapshot_loop_ok:
  assumes "snapshot_loop g w bytes m = Some y" and "consumer_ok m" and "md_mode m \<noteq> RecoveryReplay"
  shows "consumer_ok (snd y)"
proof -
  let ?P = "\<lambda>g w bytes m y. consumer_ok m \<longrightarrow> md_mode m \<noteq> RecoveryReplay \<longrightarrow> consumer_ok (snd y)"
  have "?P g w bytes m y"
  proof (rule snapshot_loop.raw_induct [where P = ?P, OF _ assms(1)], intro impI)
    fix f g w bytes m y
    assume IH: "\<And>g w bytes m y. f g w bytes m = Some y \<Longrightarrow> ?P g w bytes m y"
      and run: "(if bytes = [] then Some ([], m)
        else Option.bind (decodeSnapshot g w bytes MarketUpdate_init (md_decoder m)) (\<lambda>(r, d).
          case r of
            None \<Rightarrow> Some (bytes, m\<lparr>md_decoder := d\<rparr>)
          | Some u \<Rightarrow> Option.bind (processSnapshot u (m\<lparr>md_decoder := d\<rparr>)) (f g w (drop (de_last_size d) bytes)))) = Some y"
      and ok: "consumer_ok m" "md_mode m \<noteq> RecoveryReplay"
    consider "snd y = m" | d where "snd y = m\<lparr>md_decoder := d\<rparr>"
      | d u m1 bs where "processSnapshot u (m\<lparr>md_decoder := d\<rparr>) = Some m1" "f g w bs m1 = Some y"
      using run by (cases "bytes = []") (auto simp: bind_eq_Some_conv split: option.splits)
    then show "consumer_ok (snd y)"
    proof cases
      case 3
      with processSnapshot_ok [OF _ _ 3(1)] ok IH show ?thesis by simp
    qed (use ok in simp_all)
  qed
  with assms show ?thesis by blast
qed

lemma replay_frame_ok:
  assumes "consumer_ok m" and "md_mode m = RecoveryReplay" and "plain u" and "mu_seq_num u = md_last_applied m + 1"
  shows "consumer_ok (m\<lparr>md_decoder := d, md_last_applied := mu_seq_num u, md_snap_queue := md_snap_queue m @ [u]\<rparr>)"
  using assms by (auto simp: consumer_ok_def replay_ok_def chain_append algebra_simps)

lemma replay_loop_ok:
  assumes "replay_loop g w bytes m = Some m'" and "consumer_ok m" and "md_mode m = RecoveryReplay" and "no_control w bytes"
  shows "consumer_ok m'"
proof -
  let ?P = "\<lambda>g w bytes m y. consumer_ok m \<longrightarrow> md_mode m = RecoveryReplay \<longrightarrow> no_control w bytes \<longrightarrow> consumer_ok y"
  have "?P g w bytes m m'"
  proof (rule replay_loop.raw_induct [where P = ?P, OF _ assms(1)])
    fix f g w bytes m y
    assume IH: "\<And>g w bytes m y. f g w bytes m = Some y \<Longrightarrow> ?P g w bytes m y"
      and run: "(if bytes = [] then Some (m\<lparr>md_tcp_buffer := []\<rparr>)
        else Option.bind (decode g w bytes MarketUpdate_init (md_decoder m)) (\<lambda>(r, d).
          case r of
            None \<Rightarrow> Some (m\<lparr>md_decoder := d, md_tcp_buffer := bytes\<rparr>)
          | Some u \<Rightarrow>
              if mu_seq_num u \<noteq> md_last_applied m + 1 then Some (abortSnapshotSync (m\<lparr>md_decoder := d\<rparr>))
              else f g w (drop (sizeof_SeqNum + de_last_size d) bytes)
                     (m\<lparr>md_decoder := d, md_last_applied := mu_seq_num u, md_snap_queue := md_snap_queue m @ [u]\<rparr>))) = Some y"
    show "?P g w bytes m y"
    proof (intro impI)
      assume ok: "consumer_ok m" "md_mode m = RecoveryReplay" "no_control w bytes"
      show "consumer_ok y"
      proof (cases "bytes = []")
        case False
        with run obtain r d where d: "decode g w bytes MarketUpdate_init (md_decoder m) = Some (r, d)" by (auto simp: bind_eq_Some_conv)
        show ?thesis
        proof (cases r)
          case None
          with run False d ok show ?thesis by auto
        next
          case (Some u)
          with d ok have u: "plain u" by (auto intro: decode_plain)
          show ?thesis
            using run False d Some ok u IH replay_frame_ok [OF ok(1,2) u, of d] abort_ok [of "m\<lparr>md_decoder := d\<rparr>"]
            by (auto simp: consumer_ok_follow no_control_drop split: if_splits)
        qed
      qed (use run ok in auto)
    qed
  qed
  with assms show ?thesis by blast
qed


lemma processReplay_ok:
  assumes ok: "consumer_ok m" and mode: "md_mode m = RecoveryReplay" and nc: "no_control w (md_tcp_buffer m)"
    and run: "processReplay g w m = Some m'"
  shows "consumer_ok m'"
proof (cases "md_status_read m")
  case True
  with run have "replay_loop g w (md_tcp_buffer m) m = Some m'" by (simp add: processReplay_def)
  then show ?thesis using ok mode nc by (rule replay_loop_ok)
next
  case unread: False
  show ?thesis
  proof (cases "md_tcp_buffer m")
    case Nil
    with unread run ok show ?thesis by (simp add: processReplay_def)
  next
    case (Cons status rest)
    let ?m = "m\<lparr>md_tcp_buffer := rest, md_status_read := True\<rparr>"
    have m: "consumer_ok ?m" "md_mode ?m = RecoveryReplay" using ok mode by simp_all
    have rest: "no_control w rest" using no_control_drop [OF nc, of 1] Cons by simp
    have same: "?m\<lparr>md_tcp_open := False, md_tcp_open := md_tcp_open m\<rparr> = ?m" by (cases m) simp
    have fin: "consumer_ok m'" if "finishReplaySync (?m\<lparr>md_tcp_open := False\<rparr>) = Some m'"
      by (rule finishReplay_ok [of "md_tcp_open m", OF _ _ that]) (simp_all only: same m, use mode in simp)
    consider "replay_loop g w rest ?m = Some m'" | "m' = startSnapshotSync (?m\<lparr>md_tcp_open := False\<rparr>)"
      | "finishReplaySync (?m\<lparr>md_tcp_open := False\<rparr>) = Some m'" | "m' = abortSnapshotSync ?m"
      using run unread Cons unfolding processReplay_def Let_def
      by (cases "status = 0x52"; cases "status = 0x4E"; cases "status = 0x43") simp_all
    then show ?thesis
    proof cases
      case 1
      from replay_loop_ok [OF 1 m rest] show ?thesis .
    next
      case 2
      with consumer_ok_follow [OF ok] show ?thesis by (simp add: startSnapshot_ok)
    next
      case 3
      then show ?thesis by (rule fin)
    next
      case 4
      with consumer_ok_follow [OF ok] show ?thesis by (simp add: abort_ok)
    qed
  qed
qed

lemma onSnapshotTcpEof_ok:
  assumes ok: "consumer_ok m" and run: "onSnapshotTcpEof m = Some m'"
  shows "consumer_ok m'"
proof -
  consider "md_mode m = RecoveryReplay" "finishReplaySync m = Some m'"
    | "md_mode m = RecoveryReplay" "m' = startReplaySync (md_last_applied m) False (m\<lparr>md_tcp_open := False\<rparr>)"
    | "m' = abortSnapshotSync m"
    using run unfolding onSnapshotTcpEof_def
    by (cases "md_mode m = RecoveryReplay"; cases "md_status_read m"; cases "md_tcp_buffer m = []") simp_all
  then show ?thesis
  proof cases
    case 1
    moreover have "m\<lparr>md_tcp_open := md_tcp_open m\<rparr> = m" by (cases m) simp
    ultimately show ?thesis using ok finishReplay_ok [of "md_tcp_open m" m m'] by metis
  next
    case 2
    with ok show ?thesis by (simp add: startReplay_again_ok)
  next
    case 3
    with consumer_ok_follow [OF ok] show ?thesis by (simp add: abort_ok)
  qed
qed

text \<open>What a replay stream carries: ordinary updates only.\<close>

definition tcp_plain :: "ItchWire \<Rightarrow> TcpEvent \<Rightarrow> MarketDataConsumer \<Rightarrow> bool" where
  "tcp_plain w ev m \<longleftrightarrow> (case ev of TcpData bytes \<Rightarrow> md_mode m = RecoveryReplay \<longrightarrow> no_control w (md_tcp_buffer m @ bytes) | _ \<Rightarrow> True)"

lemma readSnapshotTcp_ok:
  assumes ok: "consumer_ok m" and pl: "tcp_plain w ev m" and run: "readSnapshotTcp g w ev m = Some m'"
  shows "consumer_ok m'"
proof (cases ev)
  case (TcpData bytes)
  let ?m = "m\<lparr>md_tcp_buffer := md_tcp_buffer m @ bytes\<rparr>"
  show ?thesis
  proof (cases "md_mode m = RecoveryReplay")
    case True
    with run TcpData have "processReplay g w ?m = Some m'" by (simp add: readSnapshotTcp_def)
    moreover have "consumer_ok ?m" "md_mode ?m = RecoveryReplay" "no_control w (md_tcp_buffer ?m)"
      using ok pl True TcpData by (simp_all add: tcp_plain_def)
    ultimately show ?thesis by (metis processReplay_ok)
  next
    case False
    with run TcpData have r: "map_option (\<lambda>(rest, m). m\<lparr>md_tcp_buffer := rest\<rparr>) (snapshot_loop g w (md_tcp_buffer m @ bytes) ?m) = Some m'"
      by (simp add: readSnapshotTcp_def)
    then obtain y where y: "snapshot_loop g w (md_tcp_buffer m @ bytes) ?m = Some y" "m' = (snd y)\<lparr>md_tcp_buffer := fst y\<rparr>"
      unfolding case_prod_unfold by (metis (no_types, lifting) map_option_eq_Some)
    from snapshot_loop_ok [OF y(1)] ok False y(2) show ?thesis by simp
  qed
qed (use run ok onSnapshotTcpEof_ok [OF ok, of m'] in \<open>simp_all add: readSnapshotTcp_def\<close>)

lemma recv_loop_cases:
  assumes run: "recv_loop g w bytes m = Some y"
  obtains (short) "length bytes < sizeof_SeqNum + 1" "y = (bytes, m)"
  | (magic) "sizeof_SeqNum + 1 \<le> length bytes" "take kRegistrationMagicLen bytes = kRegistrationMagic"
      "recv_loop g w (drop kRegistrationMagicLen bytes) m = Some y"
  | (frame) u d m1 where "sizeof_SeqNum + 1 \<le> length bytes" "take kRegistrationMagicLen bytes \<noteq> kRegistrationMagic"
      "decode g w bytes MarketUpdate_init (md_decoder m) = Some (Some u, d)" "processIncremental u (m\<lparr>md_decoder := d\<rparr>) = Some m1"
      "recv_loop g w (drop (sizeof_SeqNum + de_last_size d) bytes) m1 = Some y"
  | (wait) d where "sizeof_SeqNum + 1 \<le> length bytes" "take kRegistrationMagicLen bytes \<noteq> kRegistrationMagic"
      "decode g w bytes MarketUpdate_init (md_decoder m) = Some (None, d)" "de_need_more d" "y = (bytes, m\<lparr>md_decoder := d\<rparr>)"
  | (skip) d where "sizeof_SeqNum + 1 \<le> length bytes" "take kRegistrationMagicLen bytes \<noteq> kRegistrationMagic"
      "decode g w bytes MarketUpdate_init (md_decoder m) = Some (None, d)" "\<not> de_need_more d"
      "recv_loop g w (drop 1 bytes) (m\<lparr>md_decoder := d\<rparr>) = Some y"
proof (cases "length bytes < sizeof_SeqNum + 1 \<or> take kRegistrationMagicLen bytes = kRegistrationMagic")
  case True
  with run short magic show ?thesis unfolding recv_loop.simps [of g w bytes m] by (auto split: if_splits)
next
  case False
  with run obtain r d where d: "decode g w bytes MarketUpdate_init (md_decoder m) = Some (r, d)"
    unfolding recv_loop.simps [of g w bytes m] by (auto split: option.splits)
  show ?thesis
  proof (cases r)
    case None
    with run False d wait skip show ?thesis unfolding recv_loop.simps [of g w bytes m] by (auto split: if_splits)
  next
    case (Some u)
    with run False d frame show ?thesis unfolding recv_loop.simps [of g w bytes m] by (auto simp: bind_eq_Some_conv)
  qed
qed

lemma recv_loop_ok:
  "recv_loop g w bytes m = Some y \<Longrightarrow> consumer_ok m \<Longrightarrow> no_control w bytes \<Longrightarrow> consumer_ok (snd y)"
proof (induction "length bytes" arbitrary: bytes m rule: less_induct)
  case less
  from less.prems(1) show ?case
  proof (cases rule: recv_loop_cases)
    case magic
    then show ?thesis using less.hyps [OF _ magic(3)] less.prems(2,3) by (simp add: no_control_drop kRegistrationMagicLen_def sizeof_SeqNum_def)
  next
    case (frame u d m1)
    with less.prems(3) have "plain u" by (auto intro: decode_plain)
    with processIncremental_ok [OF _ _ frame(4)] less.prems(2) have "consumer_ok m1" by simp
    then show ?thesis using less.hyps [OF _ frame(5)] frame(1) less.prems(3) by (simp add: no_control_drop sizeof_SeqNum_def)
  next
    case (skip d)
    then show ?thesis using less.hyps [OF _ skip(5)] less.prems(2,3) by (simp add: no_control_drop)
  qed (use less.prems in simp_all)
qed

lemma recvCallback_is_loop: "recvCallback g w bytes m = recv_loop g w bytes m"
  by (simp add: recvCallback_def recv_loop.simps [of g w bytes m])

lemma recvCallback_ok:
  "recvCallback g w bytes m = Some (rest, m') \<Longrightarrow> consumer_ok m \<Longrightarrow> no_control w bytes \<Longrightarrow> consumer_ok m'"
  using recv_loop_ok [of g w bytes m "(rest, m')"] by (simp add: recvCallback_is_loop)

subsection \<open>Runs of the consumer\<close>

text \<open>
  The state of a run is the socket buffer and the consumer.  A step is a receive callback on the buffer with any
  new bytes behind it, or, in recovery, one read of the TCP stream with any outcome.
\<close>

inductive consumer_step :: "growth \<Rightarrow> ItchWire \<Rightarrow> byte list \<times> MarketDataConsumer \<Rightarrow> byte list \<times> MarketDataConsumer \<Rightarrow> bool" for g w where
  receive: "no_control w (buf @ bytes) \<Longrightarrow> recvCallback g w (buf @ bytes) m = Some (buf', m') \<Longrightarrow> consumer_step g w (buf, m) (buf', m')"
| tcp: "md_in_recovery m \<Longrightarrow> tcp_plain w ev m \<Longrightarrow> readSnapshotTcp g w ev m = Some m' \<Longrightarrow> consumer_step g w (buf, m) (buf, m')"

inductive_cases consumer_stepE: "consumer_step g w x x'"

lemma consumer_step_ok: "consumer_step g w x x' \<Longrightarrow> consumer_ok (snd x) \<Longrightarrow> consumer_ok (snd x')"
  by (elim consumer_stepE) (auto intro: recvCallback_ok readSnapshotTcp_ok)

lemma consumer_run_ok: "(consumer_step g w)\<^sup>*\<^sup>* x x' \<Longrightarrow> consumer_ok (snd x) \<Longrightarrow> consumer_ok (snd x')"
  by (induction rule: rtranclp_induct) (auto intro: consumer_step_ok)

text \<open>An iteration of \<^verbatim>\<open>run\<close> is at most two steps.\<close>

lemma iteration_steps:
  assumes "consumer_iteration g w bytes ev x = Some x'" and "no_control w (fst x @ bytes)"
    and "\<And>rest m. recvCallback g w (fst x @ bytes) (snd x) = Some (rest, m) \<Longrightarrow> tcp_plain w ev m"
  shows "(consumer_step g w)\<^sup>*\<^sup>* x x'"
proof -
  from assms(1) obtain rest m m' where r: "recvCallback g w (fst x @ bytes) (snd x) = Some (rest, m)"
    and m': "(if md_in_recovery m then readSnapshotTcp g w ev m else Some m) = Some m'" "x' = (rest, m')"
    by (auto simp: consumer_iteration_def bind_eq_Some_conv)
  from receive [OF assms(2) r] have "consumer_step g w x (rest, m)" by simp
  moreover have "(consumer_step g w)\<^sup>*\<^sup>* (rest, m) x'"
    using m' tcp [OF _ assms(3) [OF r]] by (cases "md_in_recovery m") auto
  ultimately show ?thesis by (rule converse_rtranclp_into_rtranclp)
qed

end
