(* ===== verification/Market_Streams.thy ===== *)
theory Market_Streams
  imports Market_Properties
begin

text \<open>
  The market-data consumer and the byte streams: the receive callback does not depend on how the feed is cut into
  datagrams, and the recovery streams are read to their end however TCP cuts them.
\<close>

subsection \<open>Pieces of a stream\<close>

lemma decode_flags: "decode g w wire out (d\<lparr>de_last_size := a, de_need_more := b\<rparr>) = decode g w wire out d"
  by (simp add: decode_def Let_def)

lemma decode_append_unless:
  assumes "decode g w wire out d = Some (r, d')" and "\<not> de_need_more d'"
  shows "decode g w (wire @ rest) out d = Some (r, d')"
proof -
  from assms have l: "sizeof_SeqNum + 1 \<le> length wire" by (auto simp: decode_def Let_def split: if_splits)
  show ?thesis
  proof (cases "iw_type w (wire ! sizeof_SeqNum)")
    case None
    with l assms(1) show ?thesis by (simp add: decode_def Let_def nth_append)
  next
    case (Some mt)
    with assms l have "sizeof_SeqNum + iw_sizeof w mt \<le> length wire" by (auto simp: decode_def Let_def split: if_splits)
    with decode_append [of w wire "sizeof_SeqNum + iw_sizeof w mt" g rest out d] assms(1) l Some show ?thesis
      by (simp add: frame_size_def)
  qed
qed

lemma decode_append_None:
  assumes "decode g w wire out d = None"
  shows "decode g w (wire @ rest) out d = None"
proof -
  from assms obtain mt where "sizeof_SeqNum + 1 \<le> length wire" "iw_type w (wire ! sizeof_SeqNum) = Some mt"
      "sizeof_SeqNum + iw_sizeof w mt \<le> length wire"
    by (auto simp: decode_def Let_def split: if_splits option.splits)
  with decode_append [of w wire "sizeof_SeqNum + iw_sizeof w mt" g rest out d] assms show ?thesis by (simp add: frame_size_def)
qed

lemma decode_waits:
  assumes "decode g w wire out d = Some (r, d')" and "de_need_more d'"
  shows "r = None \<and> d' = d\<lparr>de_last_size := 0, de_need_more := True\<rparr>"
  using assms by (auto simp: decode_def Let_def dest: message_keeps_flags split: if_splits option.splits)

lemma recv_loop_flags:
  assumes "sizeof_SeqNum + 1 \<le> length bytes" and "take kRegistrationMagicLen bytes \<noteq> kRegistrationMagic"
  shows "recv_loop g w bytes (m\<lparr>md_decoder := (md_decoder m)\<lparr>de_last_size := a, de_need_more := b\<rparr>\<rparr>) = recv_loop g w bytes m"
  using assms unfolding recv_loop.simps [of g w bytes] by (simp add: decode_flags split: option.split)

text \<open>The step of the induction below, on a buffer that starts with neither too few bytes nor the token.\<close>

lemma recv_append_step:
  assumes long: "sizeof_SeqNum + 1 \<le> length xs" and no_magic: "take kRegistrationMagicLen xs \<noteq> kRegistrationMagic"
    and IH: "\<And>xs' m. length xs' < length xs \<Longrightarrow>
      recv_loop g w (xs' @ ys) m = Option.bind (recv_loop g w xs' m) (\<lambda>(rest, m'). recv_loop g w (rest @ ys) m')"
    and d: "decode g w xs MarketUpdate_init (md_decoder m) = Some (r, d)"
  shows "recv_loop g w (xs @ ys) m = Option.bind (recv_loop g w xs m) (\<lambda>(rest, m'). recv_loop g w (rest @ ys) m')"
proof (cases "de_need_more d")
  case True
  from long have app: "kRegistrationMagicLen \<le> length xs" by (simp add: sizeof_SeqNum_def kRegistrationMagicLen_def)
  from decode_waits [OF d True] have "recv_loop g w xs m = Some (xs, m\<lparr>md_decoder := (md_decoder m)\<lparr>de_last_size := 0, de_need_more := True\<rparr>\<rparr>)"
    using d no_magic long by (simp add: recv_loop.simps [of g w xs m])
  with recv_loop_flags [of "xs @ ys" g w True 0 m] no_magic app long show ?thesis by simp
next
  case False
  from long have app: "kRegistrationMagicLen \<le> length xs" "1 \<le> length xs" by (simp_all add: sizeof_SeqNum_def kRegistrationMagicLen_def)
  note unfold = recv_loop.simps [of g w "xs @ ys" m] recv_loop.simps [of g w xs m]
  note d' = decode_append_unless [OF d False, of ys]
  show ?thesis
  proof (cases r)
    case None
    from IH [of "drop 1 xs"] d d' None False no_magic long app show ?thesis by (simp add: unfold)
  next
    case (Some u)
    let ?n = "sizeof_SeqNum + de_last_size d"
    have "?n \<le> length xs" using decode_true(2) d Some by blast
    then have "drop ?n (xs @ ys) = drop ?n xs @ ys" by simp
    moreover have "length (drop ?n xs) < length xs" using long by (simp add: sizeof_SeqNum_def)
    ultimately show ?thesis using IH [of "drop ?n xs"] d d' Some no_magic long app
      by (cases "processIncremental u (m\<lparr>md_decoder := d\<rparr>)") (simp_all add: unfold)
  qed
qed

lemma recv_loop_append:
  "recv_loop g w (xs @ ys) m = Option.bind (recv_loop g w xs m) (\<lambda>(rest, m'). recv_loop g w (rest @ ys) m')"
proof (induction "length xs" arbitrary: xs m rule: less_induct)
  case less
  note unfold = recv_loop.simps [of g w "xs @ ys" m] recv_loop.simps [of g w xs m]
  consider "length xs < sizeof_SeqNum + 1"
    | "sizeof_SeqNum + 1 \<le> length xs" "take kRegistrationMagicLen xs = kRegistrationMagic"
    | "sizeof_SeqNum + 1 \<le> length xs" "take kRegistrationMagicLen xs \<noteq> kRegistrationMagic" by linarith
  then show ?case
  proof cases
    case 1
    then show ?thesis by (simp add: recv_loop.simps [of g w xs m])
  next
    case 2
    then have "kRegistrationMagicLen \<le> length xs" "length (drop kRegistrationMagicLen xs) < length xs"
      by (simp_all add: sizeof_SeqNum_def kRegistrationMagicLen_def)
    with less [of "drop kRegistrationMagicLen xs"] 2 show ?thesis by (simp add: unfold)
  next
    case 3
    show ?thesis
    proof (cases "decode g w xs MarketUpdate_init (md_decoder m)")
      case None
      have "kRegistrationMagicLen \<le> length xs" using 3(1) by (simp add: sizeof_SeqNum_def kRegistrationMagicLen_def)
      with decode_append_None [OF None, of ys] None 3 show ?thesis by (simp add: unfold)
    next
      case (Some x)
      then have d: "decode g w xs MarketUpdate_init (md_decoder m) = Some (fst x, snd x)" by simp
      show ?thesis
        by (rule recv_append_step [where r = "fst x" and d = "snd x", OF 3 _ d]) (rule less)
    qed
  qed
qed

subsection \<open>A replay that completes\<close>

text \<open>The updates of a sequence of whole frames, and the decoder after them.\<close>

fun decode_frames :: "growth \<Rightarrow> ItchWire \<Rightarrow> byte list list \<Rightarrow> ItchDecoder \<Rightarrow> (MarketUpdate list \<times> ItchDecoder) option" where
  "decode_frames g w [] d = Some ([], d)"
| "decode_frames g w (f # fs) d = (case decode g w f MarketUpdate_init d of
     Some (Some u, d') \<Rightarrow>
       if length f = sizeof_SeqNum + de_last_size d' then map_option (\<lambda>(us, d''). (u # us, d'')) (decode_frames g w fs d') else None
   | _ \<Rightarrow> None)"

lemma decode_frames_Cons:
  assumes "decode_frames g w (f # fs) d = Some (us, d2)"
  obtains u d1 us' where "decode g w f MarketUpdate_init d = Some (Some u, d1)" "length f = sizeof_SeqNum + de_last_size d1"
    "decode_frames g w fs d1 = Some (us', d2)" "us = u # us'"
  using assms by (auto split: option.splits if_splits)

lemma decode_frames_flags:
  "fs \<noteq> [] \<Longrightarrow> decode_frames g w fs (d\<lparr>de_last_size := a, de_need_more := b\<rparr>) = decode_frames g w fs d"
  by (cases fs) (simp_all add: decode_flags)

lemma decode_cut_frame:
  assumes f: "decode g w (xs @ ys) out d = Some (Some u, d1)" and l: "length (xs @ ys) = sizeof_SeqNum + de_last_size d1" and "ys \<noteq> []"
  shows "decode g w xs out d = Some (None, d\<lparr>de_last_size := 0, de_need_more := True\<rparr>)"
proof (cases "length xs < sizeof_SeqNum + 1")
  case False
  then have nth: "(xs @ ys) ! sizeof_SeqNum = xs ! sizeof_SeqNum" by (simp add: nth_append)
  from decode_true(1) [OF f] False nth obtain mt where "iw_type w (xs ! sizeof_SeqNum) = Some mt" "iw_sizeof w mt = de_last_size d1"
    by (auto simp: frame_size_def split: if_splits)
  moreover from l \<open>ys \<noteq> []\<close> have "length xs < sizeof_SeqNum + de_last_size d1" by (cases ys) auto
  ultimately show ?thesis using False by (simp add: decode_def Let_def)
qed (simp add: decode_def Let_def)

text \<open>The part of the frames still to come after some bytes have been processed.\<close>

definition replay_rest ::
    "growth \<Rightarrow> ItchWire \<Rightarrow> byte list \<Rightarrow> MarketUpdate list \<Rightarrow> MarketDataConsumer \<Rightarrow> bool" where
  "replay_rest g w S us m \<longleftrightarrow> (\<exists>fs d. md_tcp_buffer m @ S = concat fs \<and> (fs \<noteq> [] \<longrightarrow> length (md_tcp_buffer m) < length (hd fs)) \<and>
     decode_frames g w fs (md_decoder m) = Some (us, d) \<and> chain (md_last_applied m + 1) us)"

definition replay_advance :: "MarketUpdate list \<Rightarrow> MarketDataConsumer \<Rightarrow> MarketDataConsumer \<Rightarrow> bool" where
  "replay_advance us m m' \<longleftrightarrow> (\<exists>d b. m' = m\<lparr>md_decoder := d, md_last_applied := md_last_applied m + word_of_nat (length us),
     md_snap_queue := md_snap_queue m @ us, md_tcp_buffer := b\<rparr>)"

lemma replay_advance_Nil: "replay_advance [] m (m\<lparr>md_decoder := d, md_tcp_buffer := b\<rparr>)"
  unfolding replay_advance_def by (rule exI [of _ d], rule exI [of _ b]) (cases m, simp)

lemma replay_advance_stay: "replay_advance [] m (m\<lparr>md_tcp_buffer := b\<rparr>)"
  using replay_advance_Nil [of m b "md_decoder m"] by (cases m) simp

lemma replay_advance_Cons:
  "replay_advance us (m\<lparr>md_decoder := d, md_last_applied := md_last_applied m + 1, md_snap_queue := md_snap_queue m @ [u]\<rparr>) m' \<Longrightarrow>
    replay_advance (u # us) m m'"
  by (auto simp: replay_advance_def algebra_simps)

text \<open>The bytes end inside the first frame.\<close>

lemma replay_cut:
  assumes frames: "decode_frames g w (f # fs) (md_decoder m) = Some (us, d)" and ch: "chain (md_last_applied m + 1) us"
    and bytes: "bytes @ S = concat (f # fs)" "length bytes < length f"
  shows "\<exists>m'. replay_loop g w bytes m = Some m' \<and> replay_advance [] m m' \<and> replay_rest g w S us m'"
proof -
  from frames obtain u d1 us' where f: "decode g w f MarketUpdate_init (md_decoder m) = Some (Some u, d1)"
    "length f = sizeof_SeqNum + de_last_size d1" by (rule decode_frames_Cons)
  from bytes obtain ys where ys: "f = bytes @ ys" "ys \<noteq> []" by (auto simp: append_eq_append_conv2)
  let ?d = "(md_decoder m)\<lparr>de_last_size := 0, de_need_more := True\<rparr>"
  have cut: "decode g w bytes MarketUpdate_init (md_decoder m) = Some (None, ?d)"
    using decode_cut_frame [of g w bytes ys] f ys by simp
  have rest: "replay_rest g w S us (m\<lparr>md_decoder := d', md_tcp_buffer := bytes\<rparr>)" if "d' = md_decoder m \<or> d' = ?d" for d'
    unfolding replay_rest_def using that frames ch bytes
    by (intro exI [of _ "f # fs"] exI [of _ d]) (auto simp del: decode_frames.simps simp: decode_frames_flags)
  show ?thesis
  proof (cases "bytes = []")
    case True
    have same: "m\<lparr>md_decoder := md_decoder m, md_tcp_buffer := []\<rparr> = m\<lparr>md_tcp_buffer := []\<rparr>" by (cases m) simp
    have "replay_rest g w S us (m\<lparr>md_tcp_buffer := []\<rparr>)" using rest [of "md_decoder m"] True same by simp
    moreover have "replay_loop g w bytes m = Some (m\<lparr>md_tcp_buffer := []\<rparr>)" using True by (subst replay_loop.simps) simp
    ultimately show ?thesis using replay_advance_stay [of m "[]"] by blast
  next
    case False
    with cut have "replay_loop g w bytes m = Some (m\<lparr>md_decoder := ?d, md_tcp_buffer := bytes\<rparr>)" by (subst replay_loop.simps) simp
    with rest [of ?d] replay_advance_Nil [of m bytes ?d] show ?thesis by blast
  qed
qed

lemma replay_prefix:
  assumes "decode_frames g w fs (md_decoder m) = Some (us, d)" and "chain (md_last_applied m + 1) us" and "bytes @ S = concat fs"
  shows "\<exists>m' us1 us2. replay_loop g w bytes m = Some m' \<and> us = us1 @ us2 \<and> replay_advance us1 m m' \<and> replay_rest g w S us2 m'"
  using assms
proof (induction fs arbitrary: m us bytes)
  case Nil
  then have "bytes = []" "S = []" "us = []" by simp_all
  moreover have "replay_rest g w [] [] (m\<lparr>md_tcp_buffer := []\<rparr>)" by (auto simp: replay_rest_def intro!: exI [of _ "[]"])
  ultimately show ?case using replay_advance_stay [of m "[]"] by (auto simp: replay_loop.simps [of g w "[]"])
next
  case (Cons f fs)
  from Cons.prems(1) obtain u d1 us' where f: "decode g w f MarketUpdate_init (md_decoder m) = Some (Some u, d1)"
    "length f = sizeof_SeqNum + de_last_size d1" "decode_frames g w fs d1 = Some (us', d)" "us = u # us'" by (rule decode_frames_Cons)
  have seq: "mu_seq_num u = md_last_applied m + 1" "chain (md_last_applied m + 1 + 1) us'" using Cons.prems(2) f(4) by simp_all
  show ?case
  proof (cases "length f \<le> length bytes")
    case True
    with Cons.prems(3) obtain bytes' where b: "bytes = f @ bytes'" "bytes' @ S = concat fs" by (auto simp: append_eq_append_conv2)
    let ?m = "m\<lparr>md_decoder := d1, md_last_applied := md_last_applied m + 1, md_snap_queue := md_snap_queue m @ [u]\<rparr>"
    from Cons.IH [of ?m us' bytes'] f(3) seq(2) b(2) obtain m' us1 us2 where
      IH: "replay_loop g w bytes' ?m = Some m'" "us' = us1 @ us2" "replay_advance us1 ?m m'" "replay_rest g w S us2 m'" by auto
    have "f \<noteq> []" using f(2) by (auto simp: sizeof_SeqNum_def)
    moreover have "decode g w bytes MarketUpdate_init (md_decoder m) = Some (Some u, d1)"
      using decode_append_unless [OF f(1) decode_true(3) [OF f(1)]] b(1) by simp
    moreover have "drop (sizeof_SeqNum + de_last_size d1) bytes = bytes'" using b(1) f(2) by simp
    ultimately have "replay_loop g w bytes m = Some m'" using b(1) seq(1) IH(1) by (subst replay_loop.simps) simp
    with IH(2-4) f(4) replay_advance_Cons [OF IH(3)] show ?thesis by (intro exI [of _ m'] exI [of _ "u # us1"] exI [of _ us2]) simp
  next
    case False
    with replay_cut [OF Cons.prems] show ?thesis by (metis append_Nil not_le)
  qed
qed

text \<open>The reads of consecutive iterations, each only while in recovery.\<close>

fun read_all :: "growth \<Rightarrow> ItchWire \<Rightarrow> TcpEvent list \<Rightarrow> MarketDataConsumer \<Rightarrow> MarketDataConsumer option" where
  "read_all g w [] m = Some m"
| "read_all g w (ev # evs) m = Option.bind (if md_in_recovery m then readSnapshotTcp g w ev m else Some m) (read_all g w evs)"

lemma read_all_append: "read_all g w (xs @ ys) m = Option.bind (read_all g w xs m) (read_all g w ys)"
  by (induction xs arbitrary: m) (simp_all split: Option.bind_split)

lemma replay_advance_trans:
  assumes "replay_advance us1 m m1" and "replay_advance us2 m1 m2"
  shows "replay_advance (us1 @ us2) m m2"
proof -
  from assms(2) obtain d b where "m2 = m1\<lparr>md_decoder := d, md_last_applied := md_last_applied m1 + word_of_nat (length us2),
     md_snap_queue := md_snap_queue m1 @ us2, md_tcp_buffer := b\<rparr>" by (auto simp: replay_advance_def)
  with assms(1) show ?thesis unfolding replay_advance_def by (intro exI [of _ d] exI [of _ b]) (auto simp: algebra_simps)
qed

lemma replay_advance_refl: "replay_advance [] m m"
  unfolding replay_advance_def by (intro exI [of _ "md_decoder m"] exI [of _ "md_tcp_buffer m"]) (cases m, simp)

lemma replay_advance_same: "replay_advance us (m\<lparr>md_tcp_buffer := b\<rparr>) m' \<Longrightarrow> replay_advance us m m'"
  by (auto simp: replay_advance_def)

lemma replay_advance_keeps:
  assumes "replay_advance us m m'"
  shows "md_mode m' = md_mode m" "md_in_recovery m' = md_in_recovery m" "md_status_read m' = md_status_read m" "md_queue m' = md_queue m"
    "md_inc_queue m' = md_inc_queue m" "md_snap_queue m' = md_snap_queue m @ us"
    "md_last_applied m' = md_last_applied m + word_of_nat (length us)"
  using assms by (auto simp: replay_advance_def)

lemma replay_chunk:
  assumes rest: "replay_rest g w (c @ S) us m" and st: "md_mode m = RecoveryReplay" "md_status_read m"
  shows "\<exists>m' us1 us2. readSnapshotTcp g w (TcpData c) m = Some m' \<and> us = us1 @ us2 \<and> replay_advance us1 m m' \<and> replay_rest g w S us2 m'"
proof -
  let ?m = "m\<lparr>md_tcp_buffer := md_tcp_buffer m @ c\<rparr>"
  from rest obtain fs d where fs: "(md_tcp_buffer m @ c) @ S = concat fs" "decode_frames g w fs (md_decoder ?m) = Some (us, d)"
    "chain (md_last_applied ?m + 1) us" by (auto simp: replay_rest_def)
  from replay_prefix [OF fs(2,3,1)] obtain m' us1 us2 where
    "replay_loop g w (md_tcp_buffer m @ c) ?m = Some m'" "us = us1 @ us2" "replay_advance us1 ?m m'" "replay_rest g w S us2 m'" by blast
  moreover from this(1) st have "readSnapshotTcp g w (TcpData c) m = Some m'" by (simp add: readSnapshotTcp_def processReplay_def)
  ultimately show ?thesis using replay_advance_same by blast
qed

lemma replay_rest_end:
  assumes "replay_rest g w [] us m"
  shows "us = [] \<and> md_tcp_buffer m = []"
proof -
  from assms obtain fs d where fs: "md_tcp_buffer m = concat fs" "fs \<noteq> [] \<longrightarrow> length (md_tcp_buffer m) < length (hd fs)"
    "decode_frames g w fs (md_decoder m) = Some (us, d)" by (auto simp: replay_rest_def)
  then have "fs = []" by (cases fs) auto
  with fs show ?thesis by simp
qed

lemma replay_chunks:
  assumes "replay_rest g w (concat cs) us m" and "md_mode m = RecoveryReplay" "md_status_read m" "md_in_recovery m"
  shows "\<exists>m'. read_all g w (map TcpData cs) m = Some m' \<and> replay_advance us m m' \<and> md_tcp_buffer m' = []"
  using assms
proof (induction cs arbitrary: us m)
  case Nil
  then have "us = []" "md_tcp_buffer m = []" using replay_rest_end [of g w us m] by simp_all
  then show ?case using replay_advance_refl [of m] by simp
next
  case (Cons c cs)
  from replay_chunk [of g w c "concat cs" us m] Cons.prems obtain m1 us1 us2 where
    m1: "readSnapshotTcp g w (TcpData c) m = Some m1" "us = us1 @ us2" "replay_advance us1 m m1" "replay_rest g w (concat cs) us2 m1" by auto
  note keeps = replay_advance_keeps [OF m1(3)]
  from Cons.IH [OF m1(4)] keeps Cons.prems obtain m' where
    "read_all g w (map TcpData cs) m1 = Some m'" "replay_advance us2 m1 m'" "md_tcp_buffer m' = []" by auto
  with m1 Cons.prems(4) replay_advance_trans [OF m1(3)] show ?case by auto
qed

lemma replay_stream:
  assumes "concat cs = 0x52 # concat fs" and "decode_frames g w fs (md_decoder m) = Some (us, d)" and "chain (md_last_applied m + 1) us"
    and st: "md_mode m = RecoveryReplay" "\<not> md_status_read m" "md_in_recovery m" "md_tcp_buffer m = []"
  shows "\<exists>m'. read_all g w (map TcpData cs) m = Some m' \<and> replay_advance us (m\<lparr>md_status_read := True\<rparr>) m' \<and> md_tcp_buffer m' = []"
  using assms(1)
proof (induction cs)
  case (Cons c cs)
  show ?case
  proof (cases c)
    case Nil
    have "readSnapshotTcp g w (TcpData []) m = Some m"
      using st by (cases m) (simp add: readSnapshotTcp_def processReplay_def)
    with st(3) Nil Cons show ?thesis by simp
  next
    case (Cons b c')
    let ?m = "m\<lparr>md_tcp_buffer := c', md_status_read := True\<rparr>"
    have c: "b = 0x52" "c' @ concat cs = concat fs" using Cons Cons.prems by simp_all
    from replay_prefix [of g w fs ?m us d, OF _ _ c(2)] assms(2,3) obtain m1 us1 us2 where
      m1: "replay_loop g w c' ?m = Some m1" "us = us1 @ us2" "replay_advance us1 ?m m1" "replay_rest g w (concat cs) us2 m1" by auto
    have read: "readSnapshotTcp g w (TcpData c) m = Some m1"
      using m1(1) st Cons c(1) by (simp add: readSnapshotTcp_def processReplay_def)
    note keeps = replay_advance_keeps [OF m1(3)]
    from replay_chunks [OF m1(4)] keeps st obtain m' where
      m': "read_all g w (map TcpData cs) m1 = Some m'" "replay_advance us2 m1 m'" "md_tcp_buffer m' = []" by auto
    have "m\<lparr>md_tcp_buffer := c', md_status_read := True\<rparr> = m\<lparr>md_status_read := True, md_tcp_buffer := c'\<rparr>" by simp
    with m1(3) have "replay_advance us1 (m\<lparr>md_status_read := True\<rparr>) m1" by (metis replay_advance_same)
    from replay_advance_trans [OF this m'(2)] m1(2) m' read st(3) show ?thesis by simp
  qed
qed simp

lemma deliver_all_total:
  "\<forall>k. q_accepts (md_queue m) k \<Longrightarrow> \<exists>q. deliver_all us m = Some (m\<lparr>md_queue := q\<rparr>) \<and> q_pushed q = delivered m @ us \<and> (\<forall>k. q_accepts q k)"
proof (induction us arbitrary: m)
  case Nil
  have "m\<lparr>md_queue := md_queue m\<rparr> = m" by (cases m) simp
  with Nil show ?case by (metis append_Nil2 deliver_all.simps(1))
next
  case (Cons u us)
  let ?q = "(md_queue m)\<lparr>q_attempts := Suc (q_attempts (md_queue m)), q_pushed := delivered m @ [u]\<rparr>"
  have "deliver u m = Some (m\<lparr>md_queue := ?q\<rparr>)" using Cons.prems by (simp add: deliver_def push_def)
  with Cons.IH [of "m\<lparr>md_queue := ?q\<rparr>"] Cons.prems show ?case by auto
qed


subsection \<open>A snapshot that completes\<close>

lemma decodeSnapshot_true:
  assumes "decodeSnapshot g w wire out d = Some (Some u, d1)"
  shows "wire \<noteq> []" and "map_option (iw_sizeof w) (iw_type w (wire ! 0)) = Some (de_last_size d1)" and "de_last_size d1 \<le> length wire"
  using assms by (auto simp: decodeSnapshot_def Let_def dest: message_keeps_flags split: if_splits option.splits)

lemma decodeSnapshot_append:
  assumes "decodeSnapshot g w wire out d = Some (Some u, d1)"
  shows "decodeSnapshot g w (wire @ rest) out d = Some (Some u, d1)"
proof -
  note t = decodeSnapshot_true [OF assms]
  then obtain mt where mt: "iw_type w (wire ! 0) = Some mt" "iw_sizeof w mt = de_last_size d1" by auto
  moreover have "(wire @ rest) ! 0 = wire ! 0" using t(1) by (simp add: nth_append)
  ultimately show ?thesis using assms t by (simp add: decodeSnapshot_def Let_def)
qed

lemma decodeSnapshot_cut:
  assumes "decodeSnapshot g w (xs @ ys) out d = Some (Some u, d1)" and "length (xs @ ys) = de_last_size d1" and "xs \<noteq> []" and "ys \<noteq> []"
  shows "decodeSnapshot g w xs out d = Some (None, d\<lparr>de_last_size := 0\<rparr>)"
proof -
  from decodeSnapshot_true(2) [OF assms(1)] obtain mt where "iw_type w ((xs @ ys) ! 0) = Some mt" "iw_sizeof w mt = de_last_size d1" by auto
  moreover have "(xs @ ys) ! 0 = xs ! 0" using assms(3) by (simp add: nth_append)
  moreover have "length xs < de_last_size d1" using assms(2,4) by (cases ys) auto
  ultimately show ?thesis using assms(3) by (simp add: decodeSnapshot_def Let_def)
qed

lemma decodeSnapshot_flags: "decodeSnapshot g w wire out (d\<lparr>de_last_size := a\<rparr>) = decodeSnapshot g w wire out d"
  by (simp add: decodeSnapshot_def Let_def)

text \<open>The updates of the whole frames of a snapshot; its start makes the decoder forget the orders.\<close>

definition start_resets :: "MarketUpdate \<Rightarrow> ItchDecoder \<Rightarrow> ItchDecoder" where
  "start_resets u d = (if mu_type u = SNAPSHOT_START then decoder_reset d else d)"

fun snapshot_frames :: "growth \<Rightarrow> ItchWire \<Rightarrow> byte list list \<Rightarrow> ItchDecoder \<Rightarrow> (MarketUpdate list \<times> ItchDecoder) option" where
  "snapshot_frames g w [] d = Some ([], d)"
| "snapshot_frames g w (f # fs) d = (case decodeSnapshot g w f MarketUpdate_init d of
     Some (Some u, d1) \<Rightarrow>
       if length f = de_last_size d1 then map_option (\<lambda>(us, d2). (u # us, d2)) (snapshot_frames g w fs (start_resets u d1)) else None
   | _ \<Rightarrow> None)"

lemma snapshot_frames_Cons:
  assumes "snapshot_frames g w (f # fs) d = Some (us, d2)"
  obtains u d1 us' where "decodeSnapshot g w f MarketUpdate_init d = Some (Some u, d1)" "length f = de_last_size d1"
    "snapshot_frames g w fs (start_resets u d1) = Some (us', d2)" "us = u # us'"
  using assms by (auto split: option.splits if_splits)

lemma snapshot_frames_flags: "fs \<noteq> [] \<Longrightarrow> snapshot_frames g w fs (d\<lparr>de_last_size := a\<rparr>) = snapshot_frames g w fs d"
  by (cases fs) (simp_all add: decodeSnapshot_flags)

text \<open>The handling of updates looks at neither the decoder nor the byte buffer.\<close>

definition framed :: "ItchDecoder \<Rightarrow> byte list \<Rightarrow> MarketDataConsumer \<Rightarrow> MarketDataConsumer" where
  "framed d b m = m\<lparr>md_decoder := d, md_tcp_buffer := b\<rparr>"

lemma framed_simps [simp]:
  "framed d b (framed d' b' m) = framed d b m" "md_in_recovery (framed d b m) = md_in_recovery m" "md_mode (framed d b m) = md_mode m"
  "md_decoder (framed d b m) = d" "md_tcp_buffer (framed d b m) = b" "md_queue (framed d b m) = md_queue m"
  "md_synchronized (framed d b m) = md_synchronized m" "md_next_exp (framed d b m) = md_next_exp m"
  by (simp_all add: framed_def)

lemma framed_same: "framed (md_decoder m) (md_tcp_buffer m) m = m"
  by (cases m) (simp add: framed_def)

lemma framed_updates: "m\<lparr>md_decoder := d\<rparr> = framed d (md_tcp_buffer m) m" "m\<lparr>md_tcp_buffer := b\<rparr> = framed (md_decoder m) b m"
  by (cases m, simp add: framed_def)+

lemma deliver_framed: "deliver u (framed d b m) = map_option (framed d b) (deliver u m)"
  by (auto simp: deliver_def framed_def split: prod.splits bool.splits)

lemma deliver_all_framed: "deliver_all us (framed d b m) = map_option (framed d b) (deliver_all us m)"
proof (induction us arbitrary: m)
  case (Cons u us)
  then show ?case by (cases "deliver u m") (simp_all add: deliver_framed)
qed simp

lemma finishSnapshot_framed: "finishSnapshotSync n (framed d b m) = map_option (framed d b) (finishSnapshotSync n m)"
proof (cases "scan_queue n (md_inc_queue m)")
  case None
  then show ?thesis by (simp add: finishSnapshotSync_def framed_def)
next
  case (Some e)
  have inc: "md_inc_queue (framed d b m') = md_inc_queue m'" "md_snap_queue (framed d b m') = md_snap_queue m'" for m'
    by (simp_all add: framed_def)
  show ?thesis
  proof (cases "deliver_all (md_snap_queue m) m")
    case m1: (Some m1)
    show ?thesis using Some m1
      by (cases "deliver_all (waiting_from n (md_inc_queue m1)) m1") (simp_all add: finishSnapshotSync_def deliver_all_framed inc, simp add: framed_def)
  qed (simp add: finishSnapshotSync_def deliver_all_framed inc Some)
qed

lemma processSnapshot_framed:
  assumes "md_in_recovery m"
  shows "processSnapshot u (framed d b m) = map_option (framed (start_resets u d) b) (processSnapshot u m)"
proof -
  let ?fin = "m\<lparr>md_snap_queue := md_snap_queue m @ [u], md_have_start := False\<rparr>"
  have "m\<lparr>md_decoder := d, md_tcp_buffer := b, md_snap_queue := md_snap_queue m @ [u], md_have_start := False\<rparr> = framed d b ?fin"
    by (simp add: framed_def)
  then have fin: "finishSnapshotSync (mu_order_ref u + 1)
      (m\<lparr>md_decoder := d, md_tcp_buffer := b, md_snap_queue := md_snap_queue m @ [u], md_have_start := False\<rparr>)
    = map_option (framed d b) (finishSnapshotSync (mu_order_ref u + 1) ?fin)"
    by (simp only: finishSnapshot_framed)
  show ?thesis using assms
    by (auto simp: processSnapshot_def start_resets_def framed_def Let_def fin)
qed


text \<open>The handling of a list of updates, and that the consumer is still in recovery before each of them.\<close>

fun handle_all :: "MarketUpdate list \<Rightarrow> MarketDataConsumer \<Rightarrow> MarketDataConsumer option" where
  "handle_all [] m = Some m"
| "handle_all (u # us) m = Option.bind (processSnapshot u m) (handle_all us)"

fun recovering :: "MarketUpdate list \<Rightarrow> MarketDataConsumer \<Rightarrow> bool" where
  "recovering [] m = True"
| "recovering (u # us) m = (md_in_recovery m \<and> (case processSnapshot u m of None \<Rightarrow> False | Some m1 \<Rightarrow> recovering us m1))"

lemma recovering_framed: "recovering us (framed d b m) = recovering us m"
proof (induction us arbitrary: d m)
  case (Cons u us)
  then show ?case by (cases "md_in_recovery m"; cases "processSnapshot u m") (simp_all add: processSnapshot_framed)
qed simp

lemma handle_all_framed: "recovering us m \<Longrightarrow> \<exists>d'. handle_all us (framed d b m) = map_option (framed d' b) (handle_all us m)"
proof (induction us arbitrary: d m)
  case (Cons u us)
  then obtain m1 where "md_in_recovery m" "processSnapshot u m = Some m1" "recovering us m1" by (auto split: option.splits)
  with Cons.IH [of m1 "start_resets u d"] show ?case by (simp add: processSnapshot_framed)
qed auto

lemma processSnapshot_mode: "processSnapshot u m = Some m1 \<Longrightarrow> md_in_recovery m1 \<Longrightarrow> md_mode m1 = md_mode m"
  by (auto simp: processSnapshot_def finishSnapshotSync_def Let_def bind_eq_Some_conv split: if_splits option.splits)

lemma handle_all_mode: "recovering us m \<Longrightarrow> handle_all us m = Some m1 \<Longrightarrow> md_in_recovery m1 \<Longrightarrow> md_mode m1 = md_mode m"
proof (induction us arbitrary: m)
  case (Cons u us)
  then obtain m2 where m2: "processSnapshot u m = Some m2" "recovering us m2" "handle_all us m2 = Some m1" by (auto split: option.splits)
  have "md_in_recovery m2" using m2 Cons.prems(3) by (cases us) auto
  with m2 Cons show ?case using processSnapshot_mode by metis
qed simp

lemma handle_all_append: "handle_all (xs @ ys) m = Option.bind (handle_all xs m) (handle_all ys)"
  by (induction xs arbitrary: m) (simp_all split: Option.bind_split)

text \<open>What is left to read: the bytes kept and the bytes to come are whole frames, and the bytes kept are less than one.\<close>

definition snapshot_rest :: "growth \<Rightarrow> ItchWire \<Rightarrow> byte list \<Rightarrow> MarketUpdate list \<Rightarrow> byte list \<Rightarrow> ItchDecoder \<Rightarrow> bool" where
  "snapshot_rest g w S us b d0 = (\<exists>fs d. b @ S = concat fs \<and> (fs \<noteq> [] \<longrightarrow> length b < length (hd fs)) \<and> snapshot_frames g w fs d0 = Some (us, d))"

lemma snapshot_loop_stops:
  assumes "snapshot_frames g w (f # fs) (md_decoder m) = Some (us, d)" and "bytes @ S = f @ concat fs" and "length bytes < length f"
  shows "\<exists>dec. snapshot_loop g w bytes m = Some (bytes, m\<lparr>md_decoder := dec\<rparr>) \<and> snapshot_rest g w S us bytes dec"
proof (cases "bytes = []")
  case True
  have "m\<lparr>md_decoder := md_decoder m\<rparr> = m" by (cases m) simp
  moreover have "snapshot_rest g w S us bytes (md_decoder m)" unfolding snapshot_rest_def using assms
    by (intro exI [of _ "f # fs"] exI [of _ d]) (simp del: snapshot_frames.simps)
  ultimately show ?thesis using True by (metis snapshot_loop.simps)
next
  case False
  from snapshot_frames_Cons [OF assms(1)] obtain u d1 where
    u: "decodeSnapshot g w f MarketUpdate_init (md_decoder m) = Some (Some u, d1)" "length f = de_last_size d1" by blast
  have f: "f = bytes @ drop (length bytes) f" using assms(2,3) by (metis append_eq_append_conv_if append_take_drop_id nat_less_le)
  let ?d = "(md_decoder m)\<lparr>de_last_size := 0\<rparr>"
  have "decodeSnapshot g w bytes MarketUpdate_init (md_decoder m) = Some (None, ?d)"
    by (rule decodeSnapshot_cut [of g w bytes "drop (length bytes) f" _ _ u d1]) (use u f assms(3) False in auto)
  with False have "snapshot_loop g w bytes m = Some (bytes, m\<lparr>md_decoder := ?d\<rparr>)" by (subst snapshot_loop.simps) simp
  moreover have "snapshot_rest g w S us bytes ?d" unfolding snapshot_rest_def using assms snapshot_frames_flags [of "f # fs" g w 0 "md_decoder m"]
    by (intro exI [of _ "f # fs"] exI [of _ d]) (simp del: snapshot_frames.simps)
  ultimately show ?thesis by blast
qed

lemma snapshot_loop_step:
  assumes "decodeSnapshot g w f MarketUpdate_init (md_decoder m) = Some (Some u, d1)" and "length f = de_last_size d1"
    and "md_in_recovery m" and "processSnapshot u m = Some m1"
  shows "snapshot_loop g w (f @ bytes) m = snapshot_loop g w bytes (framed (start_resets u d1) (md_tcp_buffer m) m1)"
proof -
  have "f \<noteq> []" using decodeSnapshot_true(1) [OF assms(1)] .
  with decodeSnapshot_append [OF assms(1), of bytes] assms(2-4) show ?thesis
    by (subst snapshot_loop.simps) (simp add: framed_updates(1) processSnapshot_framed)
qed

lemma snapshot_loop_prefix:
  assumes "snapshot_frames g w fs (md_decoder m) = Some (us, d)" and "bytes @ S = concat fs" and "recovering us m"
  shows "\<exists>us1 us2 m1 dec buf. us = us1 @ us2 \<and> handle_all us1 m = Some m1 \<and> recovering us1 m \<and> recovering us2 m1 \<and>
    snapshot_loop g w bytes m = Some (buf, framed dec (md_tcp_buffer m) m1) \<and> snapshot_rest g w S us2 buf dec"
  using assms
proof (induction fs arbitrary: m us bytes)
  case Nil
  then have "snapshot_rest g w S [] [] (md_decoder m)" by (auto simp: snapshot_rest_def intro!: exI [of _ "[]"])
  moreover have "snapshot_loop g w bytes m = Some ([], framed (md_decoder m) (md_tcp_buffer m) m)"
    using Nil(2) by (subst framed_same, subst snapshot_loop.simps) simp
  moreover have "us = []" using Nil by simp
  ultimately show ?case by (intro exI [of _ "[]"] exI [of _ m] exI [of _ "md_decoder m"]) simp
next
  case (Cons f fs)
  show ?case
  proof (cases "length bytes < length f")
    case True
    from snapshot_loop_stops [OF Cons.prems(1) _ True, of S] Cons.prems(2) obtain dec where
      "snapshot_loop g w bytes m = Some (bytes, m\<lparr>md_decoder := dec\<rparr>)" "snapshot_rest g w S us bytes dec" by auto
    with Cons.prems(3) show ?thesis
      by (intro exI [of _ "[]"] exI [of _ us] exI [of _ m] exI [of _ dec] exI [of _ bytes]) (simp add: framed_updates(1))
  next
    case False
    then obtain bs where bs: "bytes = f @ bs" using Cons.prems(2)
      by (metis append_eq_append_conv_if append_take_drop_id concat.simps(2) not_less)
    from snapshot_frames_Cons [OF Cons.prems(1)] obtain u d1 us' where
      u: "decodeSnapshot g w f MarketUpdate_init (md_decoder m) = Some (Some u, d1)" "length f = de_last_size d1"
        "snapshot_frames g w fs (start_resets u d1) = Some (us', d)" "us = u # us'" .
    from Cons.prems(3) u(4) obtain m0 where m0: "md_in_recovery m" "processSnapshot u m = Some m0" "recovering us' m0"
      by (auto split: option.splits)
    let ?m = "framed (start_resets u d1) (md_tcp_buffer m) m0"
    note step = snapshot_loop_step [OF u(1,2) m0(1,2), of bs]
    have "snapshot_frames g w fs (md_decoder ?m) = Some (us', d)" "bs @ S = concat fs" "recovering us' ?m"
      using u(3) m0(3) bs Cons.prems(2) by (simp_all add: recovering_framed)
    from Cons.IH [OF this] obtain us1 us2 m1 dec buf where
      ih: "us' = us1 @ us2" "handle_all us1 ?m = Some m1" "recovering us1 ?m" "recovering us2 m1"
        "snapshot_loop g w bs ?m = Some (buf, framed dec (md_tcp_buffer ?m) m1)" "snapshot_rest g w S us2 buf dec" by blast
    from ih(3) have r1: "recovering us1 m0" by (simp add: recovering_framed)
    from handle_all_framed [OF r1] ih(2) obtain m2 d' where m2: "handle_all us1 m0 = Some m2" "m1 = framed d' (md_tcp_buffer m) m2"
      by (metis map_option_eq_Some)
    have "recovering us2 m2" using ih(4) m2(2) by (simp add: recovering_framed)
    with u(4) ih m2 m0 r1 bs step show ?thesis
      by (intro exI [of _ "u # us1"] exI [of _ us2] exI [of _ m2] exI [of _ dec] exI [of _ buf]) simp
  qed
qed


lemma snapshot_read:
  assumes "snapshot_rest g w (c @ S) us (md_tcp_buffer m) (md_decoder m)" and "recovering us m" and "md_mode m \<noteq> RecoveryReplay"
  shows "\<exists>us1 us2 m1 dec buf. us = us1 @ us2 \<and> handle_all us1 m = Some m1 \<and> recovering us1 m \<and> recovering us2 m1 \<and>
    readSnapshotTcp g w (TcpData c) m = Some (framed dec buf m1) \<and> snapshot_rest g w S us2 buf dec"
proof -
  let ?m = "framed (md_decoder m) (md_tcp_buffer m @ c) m"
  from assms(1) obtain fs d where "snapshot_frames g w fs (md_decoder ?m) = Some (us, d)" "(md_tcp_buffer m @ c) @ S = concat fs"
    by (auto simp: snapshot_rest_def)
  from snapshot_loop_prefix [OF this] assms(2) obtain us1 us2 m1 dec buf where
    l: "us = us1 @ us2" "handle_all us1 ?m = Some m1" "recovering us1 ?m" "recovering us2 m1"
      "snapshot_loop g w (md_tcp_buffer m @ c) ?m = Some (buf, framed dec (md_tcp_buffer ?m) m1)" "snapshot_rest g w S us2 buf dec"
    by (auto simp: recovering_framed)
  from l(3) have r1: "recovering us1 m" by (simp add: recovering_framed)
  from handle_all_framed [OF r1] l(2) obtain m2 d' where m2: "handle_all us1 m = Some m2" "m1 = framed d' (md_tcp_buffer m @ c) m2"
    by (metis map_option_eq_Some)
  have "recovering us2 m2" using l(4) m2(2) by (simp add: recovering_framed)
  moreover have "readSnapshotTcp g w (TcpData c) m = Some (framed dec buf m2)"
    using l(5) m2(2) assms(3) by (simp add: readSnapshotTcp_def Let_def framed_updates(2))
  ultimately show ?thesis using l(1,6) m2(1) r1 by blast
qed

lemma read_all_idle: "\<not> md_in_recovery m \<Longrightarrow> read_all g w evs m = Some m"
  by (induction evs) simp_all

lemma snapshot_rest_end: "snapshot_rest g w [] us b d \<Longrightarrow> us = []"
proof -
  assume "snapshot_rest g w [] us b d"
  then obtain fs d2 where fs: "b = concat fs" "fs \<noteq> [] \<longrightarrow> length b < length (hd fs)" "snapshot_frames g w fs d = Some (us, d2)"
    by (auto simp: snapshot_rest_def)
  then have "fs = []" by (cases fs) auto
  with fs(3) show ?thesis by simp
qed

lemma snapshot_reads:
  assumes "snapshot_rest g w (concat cs) us (md_tcp_buffer m) (md_decoder m)" and "recovering us m"
    and "md_in_recovery m \<longrightarrow> md_mode m \<noteq> RecoveryReplay" and "handle_all us m = Some m'" and "\<not> md_in_recovery m'"
  shows "\<exists>d b. read_all g w (map TcpData cs) m = Some (framed d b m')"
  using assms
proof (induction cs arbitrary: us m m')
  case Nil
  then have "us = []" using snapshot_rest_end [of g w us "md_tcp_buffer m" "md_decoder m"] by simp
  with Nil.prems(4) have "m = m'" by simp
  then show ?case by (metis framed_same list.map(1) read_all.simps(1))
next
  case (Cons c cs)
  show ?case
  proof (cases us)
    case Nil
    with Cons.prems have "read_all g w (map TcpData (c # cs)) m = Some m'" by (simp add: read_all_idle)
    then show ?thesis by (metis framed_same)
  next
    case (Cons u us')
    with Cons.prems(2,3) have rec: "md_in_recovery m" "md_mode m \<noteq> RecoveryReplay" by auto
    from snapshot_read [OF _ Cons.prems(2) rec(2), of g w c "concat cs"] Cons.prems(1) obtain us1 us2 m1 dec buf where
      m1: "us = us1 @ us2" "handle_all us1 m = Some m1" "recovering us1 m" "recovering us2 m1"
        "readSnapshotTcp g w (TcpData c) m = Some (framed dec buf m1)" "snapshot_rest g w (concat cs) us2 buf dec" by auto
    have "handle_all us2 m1 = Some m'" using Cons.prems(4) m1(1,2) by (simp add: handle_all_append)
    with handle_all_framed [OF m1(4), of dec buf] obtain d' where h: "handle_all us2 (framed dec buf m1) = Some (framed d' buf m')" by auto
    have "md_in_recovery m1 \<longrightarrow> md_mode m1 \<noteq> RecoveryReplay" using handle_all_mode [OF m1(3,2)] rec(2) by simp
    with Cons.IH [of us2 "framed dec buf m1" "framed d' buf m'"] h m1 Cons.prems(5) rec(1) show ?thesis
      by (simp add: recovering_framed)
  qed
qed

text \<open>The updates between the start and the end of a snapshot are collected.\<close>

definition snapshot_body :: "MarketUpdate list \<Rightarrow> bool" where
  "snapshot_body us = list_all (\<lambda>u. mu_type u \<noteq> SNAPSHOT_START \<and> mu_type u \<noteq> SNAPSHOT_END) us"

lemma body_collected:
  assumes "snapshot_body us" and "md_in_recovery m" and "md_have_start m"
  shows "handle_all (us @ vs) m = handle_all vs (m\<lparr>md_snap_queue := md_snap_queue m @ us\<rparr>)
    \<and> recovering (us @ vs) m = recovering vs (m\<lparr>md_snap_queue := md_snap_queue m @ us\<rparr>)"
  using assms
proof (induction us arbitrary: m)
  case Nil
  have "m\<lparr>md_snap_queue := md_snap_queue m\<rparr> = m" by (cases m) simp
  then show ?case by simp
next
  case (Cons u us)
  from Cons.IH [of "m\<lparr>md_snap_queue := md_snap_queue m @ [u]\<rparr>"] Cons.prems show ?case
    by (simp add: processSnapshot_def snapshot_body_def)
qed

lemma snapshot_handled:
  assumes "md_in_recovery m" and "mu_type s = SNAPSHOT_START" and "snapshot_body us" and "mu_type e = SNAPSHOT_END"
    and "scan_queue (mu_order_ref e + 1) (md_inc_queue m) = Some x" and "\<forall>k. q_accepts (md_queue m) k"
  shows "\<exists>m'. handle_all (s # us @ [e]) m = Some m' \<and> recovering (s # us @ [e]) m \<and> md_synchronized m' \<and> \<not> md_in_recovery m' \<and>
    md_next_exp m' = x \<and> md_inc_queue m' = [] \<and>
    q_pushed (md_queue m') = q_pushed (md_queue m) @ s # us @ e # waiting_from (mu_order_ref e + 1) (md_inc_queue m)"
proof -
  let ?m1 = "m\<lparr>md_have_start := True, md_decoder := decoder_reset (md_decoder m), md_snap_queue := [s]\<rparr>"
  let ?m2 = "?m1\<lparr>md_snap_queue := s # us @ [e], md_have_start := False\<rparr>"
  let ?ws = "waiting_from (mu_order_ref e + 1) (md_inc_queue m)"
  have start: "processSnapshot s m = Some ?m1" using assms(1,2) by (simp add: processSnapshot_def)
  from deliver_all_total [of ?m2 "s # us @ [e]"] assms(6) obtain q1 where
    q1: "deliver_all (s # us @ [e]) ?m2 = Some (?m2\<lparr>md_queue := q1\<rparr>)" "q_pushed q1 = q_pushed (md_queue m) @ s # us @ [e]" "\<forall>k. q_accepts q1 k"
    by auto
  from deliver_all_total [of "?m2\<lparr>md_queue := q1\<rparr>" ?ws] q1(3) obtain q2 where
    q2: "deliver_all ?ws (?m2\<lparr>md_queue := q1\<rparr>) = Some (?m2\<lparr>md_queue := q2\<rparr>)" "q_pushed q2 = q_pushed q1 @ ?ws" by auto
  let ?m' = "?m2\<lparr>md_queue := q2, md_inc_queue := [], md_next_exp := x, md_in_recovery := False, md_synchronized := True,
    md_mode := RecoveryNone, md_snap_queue := [], md_tcp_open := False\<rparr>"
  have fin: "finishSnapshotSync (mu_order_ref e + 1) ?m2 = Some ?m'"
    using assms(5) q1(1) q2(1) by (simp add: finishSnapshotSync_def del: deliver_all.simps)
  have last: "processSnapshot e (?m1\<lparr>md_snap_queue := s # us\<rparr>) = Some ?m'"
    using assms(1,4) fin by (simp add: processSnapshot_def)
  from body_collected [OF assms(3), of ?m1 "[e]"] assms(1) last start show ?thesis
    using q1(2) q2(2) by (intro exI [of _ ?m']) simp
qed

lemma frames_rest:
  assumes "concat cs = concat fs" and "snapshot_frames g w fs d0 = Some (us, d)" and "b = []"
  shows "snapshot_rest g w (concat cs) us b d0"
proof -
  have "fs \<noteq> [] \<longrightarrow> hd fs \<noteq> []"
    using assms(2) by (cases fs) (auto dest: decodeSnapshot_true(1) split: option.splits)
  with assms show ?thesis unfolding snapshot_rest_def by auto
qed

end
