(* ===== verification/Market_Registration.thy ===== *)
theory Market_Registration
  imports Market_Streams
begin

text \<open>
  The registration of \<^verbatim>\<open>src/market_data/market_data_consumer.cpp\<close> with the feed gateway of the exchange: the
  datagram sent by the constructor and repeated on a timer by \<^verbatim>\<open>run\<close>, the test that keeps the consumer from
  registering with itself, and the group it joins when the feed is a multicast one.

  The network of the host is a parameter: \<open>hn_addr\<close> is \<^verbatim>\<open>ntohl(inet_addr(ip))\<close>, \<open>hn_iface_ip\<close> is
  \<^verbatim>\<open>quantlink::getIfaceIP\<close>.  Addresses and ports are in host byte order.  Clock readings are arguments; nanoseconds
  since the epoch fit \<^verbatim>\<open>int64_t\<close> until the year 2262 and are integers here.
\<close>

record HostNet =
  hn_addr :: "string \<Rightarrow> 32 word"
  hn_iface_ip :: "string \<Rightarrow> string"

record Datagram =
  dg_addr :: "32 word"
  dg_port :: "16 word"
  dg_payload :: "byte list"

record Registration =
  rg_iface :: string
  rg_incremental_ip :: string
  rg_incremental_port :: "32 word"
  rg_receive_port :: "32 word"
  rg_last_ns :: int
  rg_sent :: "Datagram list"

definition kRegistrationIntervalNs :: int where
  "kRegistrationIntervalNs = 1000 * 1000 * 1000"

definition isOwnAddress :: "HostNet \<Rightarrow> string \<Rightarrow> Registration \<Rightarrow> bool" where
  "isOwnAddress net ip r \<longleftrightarrow> hn_addr net ip AND 0xFF000000 = 0x7F000000 \<or> ip = hn_iface_ip net (rg_iface r)"

definition sendRegistration :: "HostNet \<Rightarrow> int \<Rightarrow> Registration \<Rightarrow> Registration" where
  "sendRegistration net now r =
     (let r = r\<lparr>rg_last_ns := now\<rparr> in
      if rg_incremental_port r = rg_receive_port r \<and> isOwnAddress net (rg_incremental_ip r) r then r
      else r\<lparr>rg_sent := rg_sent r @ [\<lparr>dg_addr = hn_addr net (rg_incremental_ip r), dg_port = ucast (rg_incremental_port r),
             dg_payload = kRegistrationMagic\<rparr>]\<rparr>)"

text \<open>The constructor: the first registration, and the address pair of the group membership if the feed is a multicast one.\<close>

definition group_membership :: "HostNet \<Rightarrow> Registration \<Rightarrow> (32 word \<times> 32 word) option" where
  "group_membership net r =
     (let addr = hn_addr net (rg_incremental_ip r) in
      if addr AND 0xF0000000 = 0xE0000000
      then let iface_ip = hn_iface_ip net (rg_iface r) in Some (addr, if iface_ip = [] then 0 else hn_addr net iface_ip)
      else None)"

definition register_consumer :: "HostNet \<Rightarrow> string \<Rightarrow> string \<Rightarrow> 32 word \<Rightarrow> 32 word \<Rightarrow> int \<Rightarrow> Registration \<times> (32 word \<times> 32 word) option" where
  "register_consumer net iface incremental_ip incremental_port receive_port now =
     (let r = sendRegistration net now \<lparr>rg_iface = iface, rg_incremental_ip = incremental_ip, rg_incremental_port = incremental_port,
                rg_receive_port = receive_port, rg_last_ns = 0, rg_sent = []\<rparr>
      in (r, group_membership net r))"

text \<open>The timer in the loop of \<^verbatim>\<open>run\<close>: the clock is read for the test and, if it is time, once more by \<^verbatim>\<open>sendRegistration\<close>.\<close>

definition registration_timer :: "HostNet \<Rightarrow> int \<times> int \<Rightarrow> Registration \<Rightarrow> Registration" where
  "registration_timer net clock r =
     (if fst clock - rg_last_ns r > kRegistrationIntervalNs then sendRegistration net (snd clock) r else r)"

text \<open>The body of the loop of \<^verbatim>\<open>run\<close>.\<close>

definition timed_iteration ::
    "HostNet \<Rightarrow> growth \<Rightarrow> ItchWire \<Rightarrow> int \<times> int \<Rightarrow> byte list \<Rightarrow> TcpEvent \<Rightarrow> Registration \<times> byte list \<times> MarketDataConsumer \<Rightarrow>
     (Registration \<times> byte list \<times> MarketDataConsumer) option" where
  "timed_iteration net g w clock bytes ev x =
     map_option (Pair (registration_timer net clock (fst x))) (consumer_iteration g w bytes ev (snd x))"


subsection \<open>The timer\<close>

text \<open>Clock readings that never go back, from a given time on, and the iterations that take them.\<close>

fun clock_ok :: "int \<Rightarrow> (int \<times> int) list \<Rightarrow> bool" where
  "clock_ok t [] = True"
| "clock_ok t (c # cs) = (t \<le> fst c \<and> fst c \<le> snd c \<and> clock_ok (snd c) cs)"

definition timer_run :: "HostNet \<Rightarrow> (int \<times> int) list \<Rightarrow> Registration \<Rightarrow> Registration" where
  "timer_run net cs r = fold (registration_timer net) cs r"

text \<open>The datagram to the feed gateway, and when the gateway is the consumer itself.\<close>

definition gateway_datagram :: "HostNet \<Rightarrow> Registration \<Rightarrow> Datagram" where
  "gateway_datagram net r = \<lparr>dg_addr = hn_addr net (rg_incremental_ip r), dg_port = ucast (rg_incremental_port r),
     dg_payload = kRegistrationMagic\<rparr>"

definition loops_back :: "HostNet \<Rightarrow> Registration \<Rightarrow> bool" where
  "loops_back net r \<longleftrightarrow> rg_incremental_port r = rg_receive_port r \<and> isOwnAddress net (rg_incremental_ip r) r"

lemma sendRegistration_eq:
  "sendRegistration net now r = r\<lparr>rg_last_ns := now, rg_sent := rg_sent r @ (if loops_back net r then [] else [gateway_datagram net r])\<rparr>"
  by (simp add: sendRegistration_def Let_def loops_back_def gateway_datagram_def isOwnAddress_def)

text \<open>What a run of the timer keeps: \<open>n\<close> registrations, more than an interval apart.\<close>

definition registered_times :: "HostNet \<Rightarrow> nat \<Rightarrow> Registration \<Rightarrow> Registration \<Rightarrow> bool" where
  "registered_times net n r r' \<longleftrightarrow>
     rg_sent r' = rg_sent r @ (if loops_back net r then [] else replicate n (gateway_datagram net r)) \<and>
     int n * kRegistrationIntervalNs \<le> rg_last_ns r' - rg_last_ns r \<and>
     loops_back net r' = loops_back net r \<and> gateway_datagram net r' = gateway_datagram net r"

lemma timer_once:
  assumes "rg_last_ns r \<le> fst c" and "fst c \<le> snd c"
  shows "\<exists>n. registered_times net n r (registration_timer net c r)" and "rg_last_ns (registration_timer net c r) \<le> snd c"
    and "fst c - rg_last_ns (registration_timer net c r) \<le> kRegistrationIntervalNs"
proof -
  have same: "loops_back net (r\<lparr>rg_last_ns := t, rg_sent := s\<rparr>) = loops_back net r"
    "gateway_datagram net (r\<lparr>rg_last_ns := t, rg_sent := s\<rparr>) = gateway_datagram net r" for t s
    by (simp_all add: loops_back_def gateway_datagram_def isOwnAddress_def)
  show "\<exists>n. registered_times net n r (registration_timer net c r)"
  proof (cases "fst c - rg_last_ns r > kRegistrationIntervalNs")
    case True
    with assms(2) show ?thesis
      by (intro exI [of _ 1]) (simp add: registration_timer_def registered_times_def sendRegistration_eq same)
  next
    case False
    then show ?thesis by (intro exI [of _ 0]) (simp add: registration_timer_def registered_times_def)
  qed
  show "rg_last_ns (registration_timer net c r) \<le> snd c" "fst c - rg_last_ns (registration_timer net c r) \<le> kRegistrationIntervalNs"
    using assms by (auto simp: registration_timer_def sendRegistration_eq kRegistrationIntervalNs_def)
qed

lemma registered_times_trans: "registered_times net n r r1 \<Longrightarrow> registered_times net k r1 r2 \<Longrightarrow> registered_times net (n + k) r r2"
  by (auto simp: registered_times_def replicate_add distrib_right)

lemma timer_run_times: "clock_ok (rg_last_ns r) cs \<Longrightarrow> \<exists>n. registered_times net n r (timer_run net cs r)"
proof (induction cs arbitrary: r)
  case Nil
  then show ?case by (intro exI [of _ 0]) (simp add: timer_run_def registered_times_def)
next
  case (Cons c cs)
  let ?r = "registration_timer net c r"
  from Cons.prems timer_once [of r c net] obtain n where n: "registered_times net n r ?r" "rg_last_ns ?r \<le> snd c" by auto
  have "clock_ok (rg_last_ns ?r) cs" using Cons.prems n(2) by (cases cs) auto
  from Cons.IH [OF this] registered_times_trans [OF n(1)] show ?case by (auto simp: timer_run_def)
qed

text \<open>An echo of the registration between whole frames changes nothing of what is received.\<close>

lemma echo_dropped:
  assumes "recvCallback g w xs m = Some ([], m1)" and "3 \<le> length ys"
  shows "recvCallback g w (xs @ kRegistrationMagic @ ys) m = recvCallback g w (xs @ ys) m"
proof -
  have "recv_loop g w (kRegistrationMagic @ ys) m1 = recv_loop g w ys m1"
    using assms(2) by (subst recv_loop.simps) (simp add: kRegistrationMagic_def kRegistrationMagicLen_def sizeof_SeqNum_def)
  with assms(1) recv_loop_append [of g w xs _ m] show ?thesis by (simp add: recvCallback_is_loop)
qed

subsection \<open>Properties\<close>

text \<open>
  C40.  The subscription is kept alive and not flooded: with a clock that never goes back, after every iteration of
  \<^verbatim>\<open>run\<close> the last registration is at most one interval old, all datagrams are the registration, sent to the feed
  gateway, none if the gateway is the consumer's own socket, and \<open>n\<close> of them take at least \<open>n\<close> intervals.
\<close>

theorem registration_timely:
  assumes "clock_ok (rg_last_ns r) (cs @ [c])"
  shows "fst c - rg_last_ns (timer_run net (cs @ [c]) r) \<le> kRegistrationIntervalNs \<and>
    (\<exists>n. rg_sent (timer_run net (cs @ [c]) r) = rg_sent r @ (if loops_back net r then [] else replicate n (gateway_datagram net r)) \<and>
      int n * kRegistrationIntervalNs \<le> snd c - rg_last_ns r)"
proof -
  have split: "clock_ok t (xs @ [y]) \<Longrightarrow> clock_ok t xs \<and> (if xs = [] then t else snd (last xs)) \<le> fst y \<and> fst y \<le> snd y" for t xs y
    by (induction t xs rule: clock_ok.induct) auto
  have le: "clock_ok (rg_last_ns r) xs \<Longrightarrow> rg_last_ns (timer_run net xs r) \<le> (if xs = [] then rg_last_ns r else snd (last xs))" for xs
  proof (induction xs rule: rev_induct)
    case (snoc y xs)
    with split [OF snoc.prems] timer_once(2) [of "timer_run net xs r" y net] show ?case by (simp add: timer_run_def)
  qed (simp add: timer_run_def)
  let ?r = "timer_run net cs r"
  have c: "rg_last_ns ?r \<le> fst c" "fst c \<le> snd c" using split [OF assms] le [of cs] by auto
  have run: "timer_run net (cs @ [c]) r = registration_timer net c ?r" by (simp add: timer_run_def)
  from timer_run_times [OF assms, of net] obtain n where "registered_times net n r (registration_timer net c ?r)" by (auto simp: run)
  with timer_once(2,3) [OF c, of net] show ?thesis unfolding run registered_times_def by (auto intro!: exI [of _ n])
qed

text \<open>A host with the loopback interface only, and the addresses of the shipped configuration.\<close>

definition loopback_net :: HostNet where
  "loopback_net = \<lparr>hn_addr = (\<lambda>ip. if ip = ''127.0.0.1'' then 0x7F000001 else 0xFFFFFFFF), hn_iface_ip = (\<lambda>_. ''127.0.0.1'')\<rparr>"

theorem registration_timely_witness:
  "\<exists>n. rg_sent (timer_run loopback_net [(5, 5), (1000000007, 1000000008), (1500000000, 1500000000)]
      (fst (register_consumer loopback_net ''lo'' ''127.0.0.1'' 21001 22001 3))) =
    rg_sent (fst (register_consumer loopback_net ''lo'' ''127.0.0.1'' 21001 22001 3)) @
      replicate n (gateway_datagram loopback_net (fst (register_consumer loopback_net ''lo'' ''127.0.0.1'' 21001 22001 3)))
    \<and> int n * kRegistrationIntervalNs \<le> 1499999997"
proof -
  let ?r = "fst (register_consumer loopback_net ''lo'' ''127.0.0.1'' 21001 22001 3)"
  have r: "rg_last_ns ?r = 3" "\<not> loops_back loopback_net ?r" by code_simp+
  have "clock_ok (rg_last_ns ?r) ([(5, 5), (1000000007, 1000000008)] @ [(1500000000, 1500000000)])" by code_simp
  from registration_timely [OF this, of loopback_net] r show ?thesis by simp
qed

end
