(* ===== verification/Order_Gateway.thy ===== *)
theory Order_Gateway
  imports Types Spsc_Queue
begin

text \<open>
  The order gateway of \<^verbatim>\<open>src/order_gateway/order_gateway.h\<close> and \<^verbatim>\<open>order_gateway.cpp\<close>: it turns the requests of the
  trade engine into OUCH messages and the bytes of the session into responses.

  The message structs and byte swaps of \<^verbatim>\<open>quantlink::ouch\<close> are not under \<^verbatim>\<open>src/\<close>: they are the parameter \<open>OuchWire\<close>.
  An outgoing message is the record of the fields the code assigns, with the byte that fills the others; the
  socket is the list of the messages handed to \<^verbatim>\<open>send\<close>.  A failed \<^verbatim>\<open>ASSERT\<close> ends the process and is the result
  \<open>None\<close>.  \<^verbatim>\<open>memcpy\<close> of an integer follows the byte order of the x86-64 machines the program is built for.
\<close>

datatype OuchType = ORDER_ACCEPTED | OUCH_EXECUTED | ORDER_CANCELED | OUCH_REPLACED | OUCH_CANCEL_REJECTED

record OuchWire =
  ow_swap32 :: "32 word \<Rightarrow> 32 word"
  ow_swap64 :: "64 word \<Rightarrow> 64 word"
  ow_type :: "byte \<Rightarrow> OuchType option"
  ow_sizeof :: "OuchType \<Rightarrow> nat"
  ow_token :: "OuchType \<Rightarrow> byte list \<Rightarrow> byte list"   \<comment> \<open>\<^verbatim>\<open>order_token\<close>, \<^verbatim>\<open>replacement_order_token\<close>\<close>
  ow_ref :: "OuchType \<Rightarrow> byte list \<Rightarrow> 64 word"      \<comment> \<open>\<^verbatim>\<open>order_reference_number\<close>, \<^verbatim>\<open>match_number\<close>\<close>
  ow_side :: "OuchType \<Rightarrow> byte list \<Rightarrow> Side"        \<comment> \<open>\<^verbatim>\<open>buy_sell_indicator\<close>\<close>
  ow_price :: "OuchType \<Rightarrow> byte list \<Rightarrow> 32 word"    \<comment> \<open>\<^verbatim>\<open>price\<close>, \<^verbatim>\<open>execution_price\<close>\<close>
  ow_shares :: "OuchType \<Rightarrow> byte list \<Rightarrow> 32 word"   \<comment> \<open>\<^verbatim>\<open>shares\<close>, \<^verbatim>\<open>executed_shares\<close>, \<^verbatim>\<open>decrement_shares\<close>\<close>

definition toWire32 :: "OuchWire \<Rightarrow> 32 word \<Rightarrow> 32 word" where
  "toWire32 w v = ow_swap32 w v"

definition toWire64 :: "OuchWire \<Rightarrow> 64 word \<Rightarrow> 64 word" where
  "toWire64 w v = ow_swap64 w v"

subsection \<open>Tokens\<close>

text \<open>The eight bytes that \<^verbatim>\<open>memcpy\<close> reads from and writes to a \<^verbatim>\<open>uint64_t\<close>.\<close>

definition bytes_of :: "64 word \<Rightarrow> byte list" where
  "bytes_of v = map (\<lambda>i. ucast (drop_bit (8 * i) v)) [0..<8]"

fun of_bytes :: "byte list \<Rightarrow> 64 word" where
  "of_bytes [] = 0"
| "of_bytes (b # bs) = ucast b OR push_bit 8 (of_bytes bs)"

definition makeToken :: "OuchWire \<Rightarrow> OrderId \<Rightarrow> byte list" where
  "makeToken w client_order_id = bytes_of (toWire64 w client_order_id) @ replicate 6 0"

definition parseToken :: "OuchWire \<Rightarrow> byte list \<Rightarrow> OrderId" where
  "parseToken w token = toWire64 w (of_bytes (take 8 token))"

definition writeTicker :: "OuchWire \<Rightarrow> TickerId \<Rightarrow> byte list" where
  "writeTicker w ticker_id = bytes_of (toWire64 w (ucast ticker_id))"

subsection \<open>Requests\<close>

record EnterOrder =
  eo_fill :: byte
  eo_order_token :: "byte list"
  eo_buy_sell_indicator :: byte
  eo_shares :: "32 word"
  eo_stock :: "byte list"
  eo_price :: "32 word"
  eo_time_in_force :: "32 word"
  eo_firm :: "byte list"
  eo_display :: byte
  eo_capacity :: byte
  eo_intermarket_sweep :: byte
  eo_cross_type :: byte
  eo_customer_type :: byte

record CancelOrder =
  co_fill :: byte
  co_order_token :: "byte list"
  co_shares :: "32 word"

record ReplaceOrder =
  ro_fill :: byte
  ro_existing_order_token :: "byte list"
  ro_replacement_order_token :: "byte list"
  ro_shares :: "32 word"
  ro_price :: "32 word"
  ro_time_in_force :: "32 word"
  ro_display :: byte
  ro_intermarket_sweep :: byte

datatype OuchMessage = ENTER_ORDER EnterOrder | CANCEL_ORDER CancelOrder | REPLACE_ORDER ReplaceOrder

fun side_char :: "Side \<Rightarrow> byte" where
  "side_char BUY = 0x42"
| "side_char SELL = 0x53"

definition time_in_force :: "OuchWire \<Rightarrow> bool \<Rightarrow> 32 word" where
  "time_in_force w ioc = toWire32 w (if ioc then 0 else 99998)"

record OrderGateway =
  gw_run :: bool
  gw_sent :: "OuchMessage list"
  gw_incoming :: "OrderResponse SPSCQueue"

definition OrderGateway_init :: "OrderResponse SPSCQueue \<Rightarrow> OrderGateway" where
  "OrderGateway_init incoming = \<lparr>gw_run = False, gw_sent = [], gw_incoming = incoming\<rparr>"

definition tcp_send :: "OuchMessage \<Rightarrow> OrderGateway \<Rightarrow> OrderGateway" where
  "tcp_send msg gw = gw\<lparr>gw_sent := gw_sent gw @ [msg]\<rparr>"

definition sendEnter :: "OuchWire \<Rightarrow> OrderRequest \<Rightarrow> OrderGateway \<Rightarrow> OrderGateway option" where
  "sendEnter w req gw =
     (if rq_ticker_id req = TickerId_INVALID then None
      else if sint (rq_price req) < 0 then None
      else Some (tcp_send (ENTER_ORDER
        \<lparr>eo_fill = 0x20, eo_order_token = makeToken w (rq_client_order_id req), eo_buy_sell_indicator = side_char (rq_side req),
         eo_shares = toWire32 w (rq_qty req), eo_stock = writeTicker w (rq_ticker_id req), eo_price = toWire32 w (rq_price req),
         eo_time_in_force = time_in_force w (rq_ioc req), eo_firm = [0x41, 0x4C, 0x50, 0x48], eo_display = 0x59, eo_capacity = 0x41,
         eo_intermarket_sweep = 0x4E, eo_cross_type = 0x4E, eo_customer_type = 0x52\<rparr>) gw))"

definition gw_sendCancel :: "OuchWire \<Rightarrow> OrderRequest \<Rightarrow> OrderGateway \<Rightarrow> OrderGateway option" where
  "gw_sendCancel w req gw = Some (tcp_send (CANCEL_ORDER
     \<lparr>co_fill = 0, co_order_token = makeToken w (rq_client_order_id req), co_shares = toWire32 w (rq_qty req)\<rparr>) gw)"

definition gw_sendReplace :: "OuchWire \<Rightarrow> OrderRequest \<Rightarrow> OrderGateway \<Rightarrow> OrderGateway option" where
  "gw_sendReplace w req gw =
     (if rq_new_client_order_id req = 0 then None
      else if sint (rq_price req) < 0 then None
      else Some (tcp_send (REPLACE_ORDER
        \<lparr>ro_fill = 0x20, ro_existing_order_token = makeToken w (rq_client_order_id req),
         ro_replacement_order_token = makeToken w (rq_new_client_order_id req), ro_shares = toWire32 w (rq_qty req),
         ro_price = toWire32 w (rq_price req), ro_time_in_force = time_in_force w (rq_ioc req), ro_display = 0x59,
         ro_intermarket_sweep = 0x4E\<rparr>) gw))"

text \<open>The body of the loop over the request queue, and the loop over what \<^verbatim>\<open>pop\<close> returns.\<close>

definition dispatch :: "OuchWire \<Rightarrow> OrderRequest \<Rightarrow> OrderGateway \<Rightarrow> OrderGateway option" where
  "dispatch w req gw = (case rq_type req of
     RQ_NEW \<Rightarrow> sendEnter w req gw
   | RQ_CANCEL \<Rightarrow> gw_sendCancel w req gw
   | RQ_REPLACE \<Rightarrow> gw_sendReplace w req gw)"

fun drainRequests :: "OuchWire \<Rightarrow> OrderRequest list \<Rightarrow> OrderGateway \<Rightarrow> OrderGateway option" where
  "drainRequests w [] gw = Some gw"
| "drainRequests w (req # reqs) gw = Option.bind (dispatch w req gw) (drainRequests w reqs)"

subsection \<open>Responses\<close>

definition messageSize :: "OuchWire \<Rightarrow> byte \<Rightarrow> nat" where
  "messageSize w b = (case ow_type w b of None \<Rightarrow> 0 | Some t \<Rightarrow> ow_sizeof w t)"

definition parse_response :: "OuchWire \<Rightarrow> OuchType \<Rightarrow> byte list \<Rightarrow> OrderResponse" where
  "parse_response w t msg =
     (let r = OrderResponse_init\<lparr>rs_status := REJECTED, rs_client_order_id := parseToken w (ow_token w t msg)\<rparr>;
          book = r\<lparr>rs_market_order_id := toWire64 w (ow_ref w t msg), rs_side := ow_side w t msg,
                   rs_price := toWire32 w (ow_price w t msg), rs_qty := toWire32 w (ow_shares w t msg), rs_status := ACCEPTED\<rparr>
      in case t of
           ORDER_ACCEPTED \<Rightarrow> book
         | OUCH_EXECUTED \<Rightarrow> r\<lparr>rs_market_order_id := toWire64 w (ow_ref w t msg), rs_executed_qty := toWire32 w (ow_shares w t msg),
             rs_execution_price := toWire32 w (ow_price w t msg), rs_status := EXECUTED\<rparr>
         | ORDER_CANCELED \<Rightarrow> r\<lparr>rs_canceled_qty := toWire32 w (ow_shares w t msg), rs_status := CANCELED\<rparr>
         | OUCH_REPLACED \<Rightarrow> book
         | OUCH_CANCEL_REJECTED \<Rightarrow> r\<lparr>rs_status := CANCEL_REJECTED\<rparr>)"

function response_loop :: "OuchWire \<Rightarrow> byte list \<Rightarrow> OrderGateway \<Rightarrow> byte list \<times> OrderGateway" where
  "response_loop w data gw = (case data of
     [] \<Rightarrow> ([], gw)
   | b # _ \<Rightarrow>
       let size = messageSize w b in
       if size = 0 then response_loop w (drop 1 data) gw
       else if length data < size then (data, gw)
       else response_loop w (drop size data)
              (gw\<lparr>gw_incoming := snd (push (parse_response w (the (ow_type w b)) (take size data)) (gw_incoming gw))\<rparr>))"
  by pat_completeness auto
termination
  by (relation "measure (\<lambda>(w, data, gw). length data)") auto

declare response_loop.simps [simp del]

text \<open>\<^verbatim>\<open>recvCallback\<close> on the valid bytes of the socket buffer; the result holds what it leaves there.\<close>

definition gw_recvCallback :: "OuchWire \<Rightarrow> byte list \<Rightarrow> OrderGateway \<Rightarrow> byte list \<times> OrderGateway" where
  "gw_recvCallback w data gw = response_loop w data gw"

text \<open>One iteration of \<^verbatim>\<open>run\<close>: the bytes received, then the requests in the queue.\<close>

definition gateway_iteration ::
    "OuchWire \<Rightarrow> byte list \<Rightarrow> OrderRequest list \<Rightarrow> byte list \<times> OrderGateway \<Rightarrow> (byte list \<times> OrderGateway) option" where
  "gateway_iteration w bytes reqs x =
     (let (rest, gw) = gw_recvCallback w (fst x @ bytes) (snd x) in map_option (Pair rest) (drainRequests w reqs gw))"

text \<open>\<^verbatim>\<open>start\<close> with the outcome of \<^verbatim>\<open>connect\<close>, and \<^verbatim>\<open>stop\<close>, as far as the run flag goes.\<close>

definition gateway_start :: "bool \<Rightarrow> OrderGateway \<Rightarrow> OrderGateway" where
  "gateway_start connected gw = (if gw_run gw then gw else gw\<lparr>gw_run := connected\<rparr>)"

definition gateway_stop :: "OrderGateway \<Rightarrow> OrderGateway" where
  "gateway_stop gw = gw\<lparr>gw_run := False\<rparr>"

end
