(* ===== verification/Program.thy ===== *)
theory Program
  imports Main_Config Market_Registration Order_Gateway
begin

text \<open>
  The whole program of \<^verbatim>\<open>src/main.cpp\<close>: the consumer, engine and gateway threads with the queues between them, the
  main thread with its wait for the feed and its shutdown, and the summary it prints.

  A step of \<open>program_step\<close> is one action of one thread, and any thread may act next.  The consumer acts in iterations
  of its \<^verbatim>\<open>run\<close> loop.  The engine loads the synchronisation flag and drains its queues in two actions, the gateway
  receives and sends in two, so that a response can arrive and its follow-up request leave while the gateway is
  between them.  A drain takes any number of the elements that are in the queue, since its loop runs against a
  producer.  A \<^verbatim>\<open>stop\<close> is complete when the thread has finished its iteration: it is the store to the run flag
  together with the join.
\<close>

subsection \<open>The session summary\<close>

record SessionSummary =
  ss_orders_sent :: nat
  ss_replaces :: nat
  ss_cancels :: nat
  ss_risk_rejected :: nat
  ss_fills :: nat
  ss_filled_qty :: "64 word"
  ss_live_slots :: nat
  ss_positions :: "(TickerId \<times> Position) list"
  ss_total_pnl :: "int option"

text \<open>The values of slot 0 that are printed; the result is \<open>None\<close> if the engine has no slot.\<close>

definition session_summary :: "Config \<Rightarrow> 'p main_engine \<Rightarrow> SessionSummary option" where
  "session_summary cfg e = do {
     om \<leftarrow> engine_orders e 0;
     pnl \<leftarrow> engine_pnl e 0;
     Some \<lparr>ss_orders_sent = newOrderCount om, ss_replaces = replaceCount om, ss_cancels = cancelCount om,
       ss_risk_rejected = rejectCount om, ss_fills = fillCount om, ss_filled_qty = filledQty om, ss_live_slots = orderCount om,
       ss_positions = List.map_filter (\<lambda>t. map_option (Pair t) (pnl_get pnl t)) (tickers cfg), ss_total_pnl = totalPnL pnl\<rparr>
   }"

subsection \<open>The state\<close>

text \<open>Where the main thread is: the polls made so far, with both the message printed and the engine started, then each \<^verbatim>\<open>stop\<close>.\<close>

datatype MainPhase = Polling nat | Trading bool | ConsumerStopped | EngineStopped | Finished "SessionSummary option"

record 'p Program =
  pg_config :: Config
  pg_shutdown :: bool                       \<comment> \<open>\<^verbatim>\<open>g_shutdown\<close>\<close>
  pg_main :: MainPhase
  pg_consumer_run :: bool
  pg_registration :: Registration
  pg_consumer :: "byte list \<times> MarketDataConsumer"
  pg_engine_run :: bool
  pg_draining :: bool                       \<comment> \<open>the engine has passed the gate of its loop\<close>
  pg_engine :: "'p main_engine"
  pg_gateway :: "byte list \<times> OrderGateway"
  pg_updates_popped :: nat
  pg_requests_popped :: nat
  pg_responses_popped :: nat

text \<open>The elements that a consumer of each queue has not popped yet.\<close>

definition updates_left :: "'p Program \<Rightarrow> MarketUpdate list" where
  "updates_left p = drop (pg_updates_popped p) (q_pushed (md_queue (snd (pg_consumer p))))"

definition requests_left :: "'p Program \<Rightarrow> OrderRequest list" where
  "requests_left p = drop (pg_requests_popped p) (q_pushed (te_requests (pg_engine p)))"

definition responses_left :: "'p Program \<Rightarrow> OrderResponse list" where
  "responses_left p = drop (pg_responses_popped p) (q_pushed (gw_incoming (snd (pg_gateway p))))"

text \<open>The program once \<^verbatim>\<open>gateway.start\<close> and \<^verbatim>\<open>consumer.start\<close> have returned, in front of the wait loop.\<close>

definition program_init ::
    "HostNet \<Rightarrow> int \<Rightarrow> bool \<Rightarrow> MarketUpdate SPSCQueue \<Rightarrow> OrderResponse SPSCQueue \<Rightarrow> Config \<Rightarrow> 'p main_engine \<Rightarrow> 'p Program" where
  "program_init net now connected mdq rsq cfg e =
     \<lparr>pg_config = cfg, pg_shutdown = False, pg_main = Polling 0, pg_consumer_run = True,
      pg_registration = fst (register_consumer net (mcast_iface cfg) (incremental_ip cfg) (incremental_port cfg) (receive_port cfg) now),
      pg_consumer = ([], consumer_start (MarketDataConsumer_init mdq)), pg_engine_run = False, pg_draining = False, pg_engine = e,
      pg_gateway = ([], gateway_start connected (OrderGateway_init rsq)),
      pg_updates_popped = 0, pg_requests_popped = 0, pg_responses_popped = 0\<rparr>"

definition program_boot ::
    "HostNet \<Rightarrow> int \<Rightarrow> bool \<Rightarrow> MarketUpdate SPSCQueue \<Rightarrow> OrderRequest SPSCQueue \<Rightarrow> OrderResponse SPSCQueue \<Rightarrow> 'p \<Rightarrow> string list \<Rightarrow>
     'p Program option" where
  "program_boot net now connected mdq rqq rsq pool args =
     (case main_start args rqq pool of
        Running cfg e \<Rightarrow> Some (program_init net now connected mdq rsq cfg e)
      | _ \<Rightarrow> None)"

subsection \<open>Actions of the threads\<close>

definition handleSignal :: "'p Program \<Rightarrow> 'p Program" where
  "handleSignal p = p\<lparr>pg_shutdown := True\<rparr>"

definition consumer_acts ::
    "HostNet \<Rightarrow> growth \<Rightarrow> ItchWire \<Rightarrow> int \<times> int \<Rightarrow> byte list \<Rightarrow> TcpEvent \<Rightarrow> 'p Program \<Rightarrow> 'p Program option" where
  "consumer_acts net g w clock bytes ev p =
     map_option (\<lambda>(r, x). p\<lparr>pg_registration := r, pg_consumer := x\<rparr>)
       (timed_iteration net g w clock bytes ev (pg_registration p, pg_consumer p))"

text \<open>The head of the engine's loop: the gate is the flag of the consumer.\<close>

definition gate_open :: "'p Program \<Rightarrow> bool" where
  "gate_open p \<longleftrightarrow> te_has_gate (pg_engine p) \<longrightarrow> md_synchronized (snd (pg_consumer p))"

definition engine_drains :: "'p PoolOps \<Rightarrow> nat \<Rightarrow> nat \<Rightarrow> 'p Program \<Rightarrow> 'p Program option" where
  "engine_drains pops j k p =
     map_option (\<lambda>(e, r). p\<lparr>pg_engine := e, pg_draining := False, pg_responses_popped := pg_responses_popped p + j,
         pg_updates_popped := pg_updates_popped p + k\<rparr>)
       (runOnce LiquidityTaker_ops TradingFeatures_ops pops (take j (responses_left p)) (take k (updates_left p)) (pg_engine p))"

definition gateway_receives :: "OuchWire \<Rightarrow> byte list \<Rightarrow> 'p Program \<Rightarrow> 'p Program" where
  "gateway_receives ow bytes p =
     p\<lparr>pg_gateway := gw_recvCallback ow (fst (pg_gateway p) @ bytes) (snd (pg_gateway p))\<rparr>"

definition gateway_sends :: "OuchWire \<Rightarrow> nat \<Rightarrow> 'p Program \<Rightarrow> 'p Program option" where
  "gateway_sends ow k p =
     map_option (\<lambda>gw. p\<lparr>pg_gateway := (fst (pg_gateway p), gw), pg_requests_popped := pg_requests_popped p + k\<rparr>)
       (drainRequests ow (take k (requests_left p)) (snd (pg_gateway p)))"

text \<open>Starting and stopping the threads, as far as their run flags go; a stopped engine is at the head of its loop.\<close>

definition consumer_stop :: "'p Program \<Rightarrow> 'p Program" where
  [simp]: "consumer_stop p = p\<lparr>pg_consumer_run := False\<rparr>"

definition engine_start :: "'p Program \<Rightarrow> 'p Program" where
  [simp]: "engine_start p = p\<lparr>pg_engine_run := True\<rparr>"

definition engine_stop :: "'p Program \<Rightarrow> 'p Program option" where
  [simp]: "engine_stop p = (if pg_draining p then None else Some (p\<lparr>pg_engine_run := False\<rparr>))"

text \<open>
  The main thread: one poll of the wait loop, and the start of the engine when the loop is left; the argument of
  \<open>Trading\<close> is \<^verbatim>\<open>synced\<close>.  Then the three \<^verbatim>\<open>stop\<close>s in their order and the summary.
\<close>

definition main_acts :: "'p Program \<Rightarrow> 'p Program option" where
  "main_acts p = (case pg_main p of
     Polling i \<Rightarrow>
       if i < 100 \<and> \<not> pg_shutdown p
       then if md_synchronized (snd (pg_consumer p)) then Some (engine_start (p\<lparr>pg_main := Trading True\<rparr>))
            else Some (p\<lparr>pg_main := Polling (Suc i)\<rparr>)
       else Some (engine_start (p\<lparr>pg_main := Trading False\<rparr>))
   | Trading synced \<Rightarrow>
       if pg_shutdown p then Some (consumer_stop (p\<lparr>pg_main := ConsumerStopped\<rparr>)) else None
   | ConsumerStopped \<Rightarrow>
       engine_stop (p\<lparr>pg_main := EngineStopped\<rparr>)
   | EngineStopped \<Rightarrow>
       Some (p\<lparr>pg_main := Finished (session_summary (pg_config p) (pg_engine p)),
               pg_gateway := (fst (pg_gateway p), gateway_stop (snd (pg_gateway p)))\<rparr>)
   | Finished s \<Rightarrow> None)"

subsection \<open>The program\<close>

inductive program_step :: "HostNet \<Rightarrow> growth \<Rightarrow> ItchWire \<Rightarrow> OuchWire \<Rightarrow> 'p PoolOps \<Rightarrow> 'p Program \<Rightarrow> 'p Program \<Rightarrow> bool"
  for net g w ow pops where
  ps_signal: "program_step net g w ow pops p (handleSignal p)"
| ps_main: "main_acts p = Some p' \<Longrightarrow> program_step net g w ow pops p p'"
| ps_consumer: "pg_consumer_run p \<Longrightarrow> consumer_acts net g w clock bytes ev p = Some p' \<Longrightarrow> program_step net g w ow pops p p'"
| ps_gate: "pg_engine_run p \<Longrightarrow> \<not> pg_draining p \<Longrightarrow> gate_open p \<Longrightarrow> program_step net g w ow pops p (p\<lparr>pg_draining := True\<rparr>)"
| ps_engine: "pg_draining p \<Longrightarrow> j \<le> length (responses_left p) \<Longrightarrow> k \<le> length (updates_left p) \<Longrightarrow>
    engine_drains pops j k p = Some p' \<Longrightarrow> program_step net g w ow pops p p'"
| ps_receive: "gw_run (snd (pg_gateway p)) \<Longrightarrow> program_step net g w ow pops p (gateway_receives ow bytes p)"
| ps_send: "gw_run (snd (pg_gateway p)) \<Longrightarrow> k \<le> length (requests_left p) \<Longrightarrow> gateway_sends ow k p = Some p' \<Longrightarrow>
    program_step net g w ow pops p p'"

inductive_cases program_stepE: "program_step net g w ow pops p p'"

end
