(* ===== verification/Engine_Invariant.thy ===== *)
theory Engine_Invariant
  imports Trade_Engine
begin

text \<open>
  The invariant of the trade engine and its steps.  Every slot's orders agree with its reservations, every
  order id names its slot, every book is well formed and carries its own ticker, every entry points to the
  book of its ticker.  The lemmas about market updates hold for every strategy that meets
  \<open>strategy_contract\<close>.
\<close>

subsection \<open>What the order manager leaves alone\<close>

lemma put_order_frame [simp]:
  "cx_allocator (put_order i o' c) = cx_allocator c" "cx_outgoing (put_order i o' c) = cx_outgoing c"
  "cx_risk (put_order i o' c) = cx_risk c" "cx_pnl (put_order i o' c) = cx_pnl c"
  "om_slot (cx_om (put_order i o' c)) = om_slot (cx_om c)"
  "om_orders (cx_om (put_order i o' c)) = (om_orders (cx_om c))[i := o']"
  by (simp_all add: put_order_def)

lemma map_same_at: "i < length xs \<Longrightarrow> f y = f (xs ! i) \<Longrightarrow> map f (xs[i := y]) = map f xs"
  by (simp add: map_update) (metis list_update_id nth_map)

definition same_ids :: "('r, 'p) OmCtx \<Rightarrow> ('r, 'p) OmCtx \<Rightarrow> bool" where
  "same_ids c c' \<longleftrightarrow> cx_allocator c' = cx_allocator c \<and> om_slot (cx_om c') = om_slot (cx_om c) \<and>
     map oid_of (om_orders (cx_om c')) = map oid_of (om_orders (cx_om c))"

lemma same_ids_put:
  assumes "om_find (cx_om c) oid = Some i" and "oid_of o' = oid_of (om_orders (cx_om c) ! i)"
    and "cx_allocator d = cx_allocator c" "om_slot (cx_om d) = om_slot (cx_om c)" "om_orders (cx_om d) = om_orders (cx_om c)"
  shows "same_ids c (put_order i o' d)" and "same_ids c (notify o2 (put_order i o' d))"
  using map_same_at [of i "om_orders (cx_om c)" oid_of o'] om_find_Some(1) [OF assms(1)] assms(2-5) by (simp_all add: same_ids_def)

lemma same_ids_cong:
  "cx_allocator d = cx_allocator c \<Longrightarrow> cx_om d = cx_om c \<Longrightarrow> same_ids c d"
  by (simp add: same_ids_def)

lemma response_keeps_ids:
  assumes "om_onOrderResponse ops rs c = (ok, c')"
  shows "same_ids c c' \<and> cx_outgoing c' = cx_outgoing c"
proof (cases "om_find (cx_om c) (rs_client_order_id rs)")
  case None
  then show ?thesis using assms by (simp add: om_onOrderResponse_def same_ids_def Let_def)
next
  case (Some i)
  obtain b r t where rr: "ro_onOrderResponse ops rs (cx_risk c) (cx_pnl c) = (b, r, t)" by (metis prod_cases3)
  note puts = same_ids_put [OF Some] and defs = om_onOrderResponse_def Some rr Let_def
  have refl: "same_ids c c" by (simp add: same_ids_def)
  show ?thesis
  proof (cases "rs_status rs")
    case ACCEPTED
    with assms puts refl show ?thesis by (auto simp: defs same_ids_cong split: if_splits)
  next
    case EXECUTED
    with assms puts refl show ?thesis by (auto simp: defs fill_order_def split: if_splits bool.splits)
  next
    case CANCELED
    with assms puts refl show ?thesis by (auto simp: defs same_ids_cong split: if_splits bool.splits)
  next
    case REJECTED
    with assms puts refl show ?thesis by (auto simp: defs same_ids_cong split: if_splits bool.splits)
  next
    case CANCEL_REJECTED
    with assms puts refl show ?thesis by (auto simp: defs split: if_splits)
  qed
qed

subsection \<open>Ids name their slot\<close>

definition own_ids :: "nat \<Rightarrow> ('r, 'p) OmCtx \<Rightarrow> bool" where
  "own_ids k c \<longleftrightarrow> om_slot (cx_om c) = k \<and> k < 65536 \<and>
     (\<forall>o' \<in> set (om_orders (cx_om c)). drop_bit 48 (oid_of o') = word_of_nat k)"

lemma own_ids_same: "same_ids c c' \<Longrightarrow> own_ids k c \<Longrightarrow> own_ids k c'"
proof -
  have *: "own_ids k d \<longleftrightarrow> om_slot (cx_om d) = k \<and> k < 65536 \<and>
      (\<forall>i \<in> set (map oid_of (om_orders (cx_om d))). drop_bit 48 i = (word_of_nat k :: 64 word))" for d :: "('a, 'b) OmCtx"
    by (simp add: own_ids_def)
  show "own_ids k c'" if "same_ids c c'" "own_ids k c" using that unfolding * same_ids_def by simp
qed

lemma own_ids_place:
  assumes "own_ids k c" and "drop_bit 48 (oid_of o') = (word_of_nat (om_slot (cx_om c)) :: 64 word)"
    and "om_slot (cx_om c') = om_slot (cx_om c)" and "set (om_orders (cx_om c')) \<subseteq> insert o' (set (om_orders (cx_om c)))"
  shows "own_ids k c'"
  using assms by (auto simp: own_ids_def)

lemma own_ids_new:
  assumes own: "own_ids k c"
  shows "own_ids k (snd (sendNewOrder ops rq pos c))"
proof -
  obtain ok c' where s: "sendNewOrder ops rq pos c = (ok, c')" by fastforce
  have slot: "om_slot (cx_om c) < 65536" using own by (simp add: own_ids_def)
  have "own_ids k c'"
    using s
  proof (cases rule: sendNewOrder_cases)
    case (sent rq' q b r)
    have "drop_bit 48 (oid_of (new_order rq')) = (word_of_nat (om_slot (cx_om c)) :: 64 word)"
      by (simp add: sent(1) drop_bit_alloc_next [OF slot])
    moreover have "set (place j (new_order rq') os) \<subseteq> insert (new_order rq') (set os)" for j os
      using set_update_subset_insert [of os j "new_order rq'"] by (auto simp: place_def)
    ultimately have "b \<Longrightarrow> own_ids k c'" using sent(8) by (intro own_ids_place [OF own, of "new_order rq'"]) simp_all
    moreover have "\<not> b \<Longrightarrow> own_ids k c'" using own sent(7) by (simp add: own_ids_def)
    ultimately show ?thesis by blast
  qed (use own in \<open>simp_all add: own_ids_def\<close>)
  with s show ?thesis by simp
qed

lemma own_ids_cancel: "own_ids k c \<Longrightarrow> own_ids k (snd (sendCancel oid q c))"
proof -
  assume own: "own_ids k c"
  obtain ok c' where s: "sendCancel oid q c = (ok, c')" by fastforce
  have "same_ids c c'"
  proof (cases "om_find (cx_om c) oid")
    case None
    then show ?thesis using s by (simp add: sendCancel_def same_ids_def)
  next
    case (Some i)
    then show ?thesis using s same_ids_put [OF Some]
      by (auto simp: sendCancel_def Let_def same_ids_cong split: if_splits prod.splits bool.splits)
  qed
  with own_ids_same [OF _ own] s show ?thesis by simp
qed

lemma own_ids_replace:
  assumes own: "own_ids k c"
  shows "own_ids k (snd (sendReplace ops oid p q c))"
proof (cases "om_find (cx_om c) oid")
  case None
  then show ?thesis using own by (simp add: sendReplace_def)
next
  case (Some i)
  have slot: "om_slot (cx_om c) < 65536" using own by (simp add: own_ids_def)
  obtain new al where n: "alloc_next (om_slot (cx_om c)) (cx_allocator c) = (new, al)" by fastforce
  have new: "drop_bit 48 new = (word_of_nat (om_slot (cx_om c)) :: 64 word)"
    using drop_bit_alloc_next [OF slot, of "cx_allocator c"] n by simp
  have put: "own_ids k (put_order i o' d)" if "oid_of o' = new" "om_slot (cx_om d) = om_slot (cx_om c)" "om_orders (cx_om d) = om_orders (cx_om c)" for o' d
    using that new set_update_subset_insert [of "om_orders (cx_om c)" i o'] by (intro own_ids_place [OF own, of o']) simp_all
  have stay: "own_ids k d" if "om_slot (cx_om d) = om_slot (cx_om c)" "om_orders (cx_om d) = om_orders (cx_om c)" for d :: "('a, 'b) OmCtx"
    using own that by (simp add: own_ids_def)
  show ?thesis using Some n own
    by (auto simp: sendReplace_def Let_def split: prod.splits bool.splits) ((rule put, simp, simp, simp) | (rule stay, simp, simp))+
qed

lemma own_ids_step: "om_step ops c c' \<Longrightarrow> own_ids k c \<Longrightarrow> own_ids k c'"
proof (induction rule: om_step.induct)
  case (step_response rs c)
  obtain ok c' where s: "om_onOrderResponse ops rs c = (ok, c')" by fastforce
  with step_response own_ids_same [of c c'] response_keeps_ids [OF s] show ?case by simp
qed (simp_all add: own_ids_new own_ids_cancel own_ids_replace, simp_all add: own_ids_def)

lemma own_ids_steps: "om_steps ops c c' \<Longrightarrow> own_ids k c \<Longrightarrow> own_ids k c'"
  by (induction rule: rtranclp_induct) (auto intro: own_ids_step)

subsection \<open>The invariant\<close>

abbreviation slot_at :: "('s, 'f, 'p) TradeEngine \<Rightarrow> nat \<Rightarrow> slot_ctx" where
  "slot_at e i \<equiv> open_slot (te_slots e ! i) e"

definition slots_ok :: "('s, 'f, 'p) TradeEngine \<Rightarrow> bool" where
  "slots_ok e \<longleftrightarrow> slotCount e \<le> te_MaxSlots e \<and> slotCount e \<le> slot_count (te_allocator e) \<and>
     (\<forall>i < slotCount e. om_inv risk_inv reservations (slot_at e i) \<and> own_ids i (slot_at e i))"

definition books_ok :: "('p \<Rightarrow> addr set) \<Rightarrow> ('s, 'f, 'p) TradeEngine \<Rightarrow> bool" where
  "books_ok live e \<longleftrightarrow> distinct (map tb_ticker_id (te_tickers e)) \<and> live (te_book_pool e) = {} \<and>
     (\<forall>tb \<in> set (te_tickers e). bk_ticker_id (tb_book tb) = tb_ticker_id tb \<and> (\<exists>ch. book_ok live ch (tb_book tb)))"

definition entries_for :: "'p TickerBook list \<Rightarrow> 'f Entry list \<Rightarrow> bool" where
  "entries_for tbs ens \<longleftrightarrow> distinct (map en_ticker_id ens) \<and>
     (\<forall>en \<in> set ens. en_book en < length tbs \<and> tb_ticker_id (tbs ! en_book en) = en_ticker_id en)"

definition entries_ok :: "('s, 'f, 'p) TradeEngine \<Rightarrow> bool" where
  "entries_ok e \<longleftrightarrow> (\<forall>sl \<in> set (te_slots e). entries_for (te_tickers e) (sl_entries sl))"

definition engine_ok :: "('p \<Rightarrow> addr set) \<Rightarrow> ('s, 'f, 'p) TradeEngine \<Rightarrow> bool" where
  "engine_ok live e \<longleftrightarrow> slots_ok e \<and> books_ok live e \<and> entries_ok e"

subsection \<open>Writing a slot back\<close>

lemma used_ids_trans: "used_ids a b m \<Longrightarrow> used_ids b c n \<Longrightarrow> used_ids a c (m + n)"
  by (simp add: used_ids_def)

lemma used_ids_mono: "used_ids a b m \<Longrightarrow> m \<le> n \<Longrightarrow> used_ids a b n"
  by (simp add: used_ids_def)

lemma ids_for_used: "ids_for (m + n) a \<Longrightarrow> used_ids a b m \<Longrightarrow> ids_for n b"
  by (auto simp: ids_for_def used_ids_def)

lemma ids_for_mono: "ids_for n a \<Longrightarrow> m \<le> n \<Longrightarrow> ids_for m a"
  by (auto simp: ids_for_def)

lemma om_inv_shared:
  assumes "om_inv rinv resv c" and "used_ids (cx_allocator c) a n" and "ids_for n (cx_allocator c)"
  shows "om_inv rinv resv (c\<lparr>cx_allocator := a, cx_outgoing := q\<rparr>)"
proof -
  have "counter_ok a" using assms(2,3) by (auto simp: counter_ok_def used_ids_def ids_for_def)
  moreover have "issued (cx_allocator c) i \<Longrightarrow> issued a i" for i using assms(2) by (simp add: issued_def used_ids_def)
  ultimately show ?thesis using assms(1) by (auto simp: om_inv_def om_core_def)
qed

lemma om_inv_log [simp]: "om_inv rinv resv (c\<lparr>cx_notified := l\<rparr>) = om_inv rinv resv c" "own_ids k (c\<lparr>cx_notified := l\<rparr>) = own_ids k c"
  by (simp_all add: om_inv_def own_ids_def)

lemma slotCount_simps [simp]:
  "slotCount (put_slot i sl e) = slotCount e" "slotCount (close_slot ops i sl c e) = slotCount e"
  "slotCount (e\<lparr>te_tickers := tbs\<rparr>) = slotCount e"
  by (simp_all add: slotCount_def put_slot_def close_slot_def)

lemma put_slot_simps [simp]:
  "te_tickers (put_slot i sl e) = te_tickers e" "te_allocator (put_slot i sl e) = te_allocator e"
  "te_requests (put_slot i sl e) = te_requests e" "te_book_pool (put_slot i sl e) = te_book_pool e"
  "te_MaxSlots (put_slot i sl e) = te_MaxSlots e" "te_MaxTickers (put_slot i sl e) = te_MaxTickers e"
  "te_slots (put_slot i sl e) = (te_slots e)[i := sl]" "te_has_gate (put_slot i sl e) = te_has_gate e"
  by (simp_all add: put_slot_def)

lemma close_slot_simps [simp]:
  "te_tickers (close_slot ops i sl c e) = te_tickers e" "te_allocator (close_slot ops i sl c e) = cx_allocator c"
  "te_requests (close_slot ops i sl c e) = cx_outgoing c" "te_book_pool (close_slot ops i sl c e) = te_book_pool e"
  "te_MaxSlots (close_slot ops i sl c e) = te_MaxSlots e" "te_MaxTickers (close_slot ops i sl c e) = te_MaxTickers e"
  "te_has_gate (close_slot ops i sl c e) = te_has_gate e"
  by (simp_all add: close_slot_def)

lemma close_slot_other: "j \<noteq> i \<Longrightarrow> te_slots (close_slot ops i sl c e) ! j = te_slots e ! j"
  by (simp add: close_slot_def)

lemma slot_at_close_self:
  "i < slotCount e \<Longrightarrow> slot_at (close_slot ops i sl c e) i = c\<lparr>cx_notified := []\<rparr>"
  by (simp add: close_slot_def open_slot_def slotCount_def)

lemma slot_at_close_other:
  "j \<noteq> i \<Longrightarrow> slot_at (close_slot ops i sl c e) j = (slot_at e j)\<lparr>cx_allocator := cx_allocator c, cx_outgoing := cx_outgoing c\<rparr>"
  by (simp add: close_slot_def open_slot_def)

lemma own_ids_shared [simp]: "own_ids k (c\<lparr>cx_allocator := a, cx_outgoing := q\<rparr>) = own_ids k c"
  by (simp add: own_ids_def)

lemma slots_ok_close:
  assumes ok: "slots_ok e" and i: "i < slotCount e" and c: "om_inv risk_inv reservations c" "own_ids i c"
    and ids: "used_ids (te_allocator e) (cx_allocator c) n" "ids_for n (te_allocator e)"
  shows "slots_ok (close_slot ops i sl c e)"
proof -
  have "om_inv risk_inv reservations (slot_at (close_slot ops i sl c e) j) \<and> own_ids j (slot_at (close_slot ops i sl c e) j)"
    if "j < slotCount e" for j
  proof (cases "j = i")
    case True
    with i c show ?thesis by (simp add: slot_at_close_self)
  next
    case False
    have "om_inv risk_inv reservations (slot_at e j)" "own_ids j (slot_at e j)" using ok that by (simp_all add: slots_ok_def)
    with False ids om_inv_shared [of risk_inv reservations "slot_at e j" "cx_allocator c" n] show ?thesis
      by (simp add: slot_at_close_other) (simp add: open_slot_def)
  qed
  moreover have "slot_count (cx_allocator c) = slot_count (te_allocator e)" using ids(1) by (simp add: used_ids_def)
  ultimately show ?thesis using ok by (simp add: slots_ok_def)
qed

lemma entries_ok_set:
  assumes "entries_ok e" and "entries_for (te_tickers e) (sl_entries sl)" and "te_tickers e' = te_tickers e"
    and "te_slots e' = (te_slots e)[i := sl]"
  shows "entries_ok e'"
  using assms set_update_subset_insert [of "te_slots e" i sl] by (auto simp: entries_ok_def)

lemma engine_ok_close:
  assumes ok: "engine_ok live e" and i: "i < slotCount e" and c: "om_inv risk_inv reservations c" "own_ids i c"
    and ids: "used_ids (te_allocator e) (cx_allocator c) n" "ids_for n (te_allocator e)"
    and ens: "entries_for (te_tickers e) (sl_entries sl)"
  shows "engine_ok live (close_slot ops i sl c e)"
proof -
  have "slots_ok (close_slot ops i sl c e)" using slots_ok_close [OF _ i c ids] ok by (simp add: engine_ok_def)
  moreover have "entries_ok (close_slot ops i sl c e)"
    by (rule entries_ok_set [of e "sl\<lparr>sl_om := cx_om c, sl_risk := cx_risk c, sl_pnl := cx_pnl c,
         sl_strategy := fold (st_onOrderUpdate ops) (cx_notified c) (sl_strategy sl)\<rparr>"])
      (use ok ens in \<open>simp_all add: engine_ok_def\<close>, simp add: close_slot_def put_slot_def)
  ultimately show ?thesis using ok by (simp add: engine_ok_def books_ok_def)
qed

text \<open>Storing a slot whose order and risk manager are unchanged (marks and features).\<close>

lemma engine_ok_put:
  assumes ok: "engine_ok live e" and i: "i < slotCount e"
    and sl: "sl_om sl = sl_om (te_slots e ! i)" "sl_risk sl = sl_risk (te_slots e ! i)" "entries_for (te_tickers e) (sl_entries sl)"
  shows "engine_ok live (put_slot i sl e)"
proof -
  have *: "om_inv risk_inv reservations (slot_at (put_slot i sl e) j) = om_inv risk_inv reservations (slot_at e j)"
    "own_ids j (slot_at (put_slot i sl e) j) = own_ids j (slot_at e j)" if "j < slotCount e" for j
    using that i sl by (cases "j = i"; simp add: om_inv_def own_ids_def open_slot_def slotCount_def)+
  have "entries_ok (put_slot i sl e)"
    by (rule entries_ok_set [of e sl]) (use ok sl in \<open>simp_all add: engine_ok_def\<close>)
  then show ?thesis using ok * by (simp add: engine_ok_def slots_ok_def books_ok_def)
qed

subsection \<open>Responses\<close>

definition response_ok :: "OrderResponse \<Rightarrow> ('s, 'f, 'p) TradeEngine \<Rightarrow> bool" where
  "response_ok rs e \<longleftrightarrow> (let i = ownerOf (te_allocator e) (rs_client_order_id rs) in
     i < slotCount e \<longrightarrow> consistent_response RiskManager_ops rs (slot_at e i))"

lemma entries_ok_nth: "entries_ok e \<Longrightarrow> i < slotCount e \<Longrightarrow> entries_for (te_tickers e) (sl_entries (te_slots e ! i))"
  by (simp add: entries_ok_def slotCount_def)

lemma handleResponse_ok:
  assumes ok: "engine_ok live e" and rs: "response_ok rs e"
  shows "engine_ok live (fst (handleResponse ops rs (e, r)))"
proof (cases "ownerOf (te_allocator e) (rs_client_order_id rs) < slotCount e")
  case False
  then show ?thesis using ok by (simp add: handleResponse_def Let_def)
next
  case True
  let ?i = "ownerOf (te_allocator e) (rs_client_order_id rs)"
  obtain b c where c: "om_onOrderResponse RiskManager_ops rs (slot_at e ?i) = (b, c)" by fastforce
  have step: "om_step RiskManager_ops (slot_at e ?i) c"
    using om_step.step_response [of RiskManager_ops rs "slot_at e ?i"] rs True c by (simp add: response_ok_def Let_def)
  have inv: "om_inv risk_inv reservations (slot_at e ?i)" "own_ids ?i (slot_at e ?i)"
    using ok True by (simp_all add: engine_ok_def slots_ok_def)
  have al: "cx_allocator c = te_allocator e"
    using response_keeps_ids [OF c] by (simp add: same_ids_def open_slot_def)
  have counter: "counter_ok (te_allocator e)" using inv(1) by (simp add: om_inv_def om_core_def open_slot_def)
  have "engine_ok live (close_slot ops ?i (te_slots e ! ?i) c e)"
  proof (rule engine_ok_close [OF ok True, where n = 0])
    show "om_inv risk_inv reservations c" by (rule rm.om_inv_step [OF step inv(1)])
    show "own_ids ?i c" by (rule own_ids_step [OF step inv(2)])
    show "ids_for 0 (te_allocator e)" using counter by (simp add: ids_for_def counter_ok_def)
    show "entries_for (te_tickers e) (sl_entries (te_slots e ! ?i))" using ok True by (simp add: engine_ok_def entries_ok_nth)
  qed (simp add: al)
  then show ?thesis using True c by (simp add: handleResponse_def Let_def)
qed

subsection \<open>Market updates\<close>

text \<open>What a slot or book update may do besides keeping the invariant: draw ids and send requests, which it counts.\<close>

definition progress :: "nat \<Rightarrow> ('s, 'f, 'p) TradeEngine \<times> StrategyRunResult \<Rightarrow> ('s, 'f, 'p) TradeEngine \<times> StrategyRunResult \<Rightarrow> bool" where
  "progress n x y \<longleftrightarrow> slotCount (fst y) = slotCount (fst x) \<and> length (te_tickers (fst y)) = length (te_tickers (fst x)) \<and>
     map tb_ticker_id (te_tickers (fst y)) = map tb_ticker_id (te_tickers (fst x)) \<and>
     used_ids (te_allocator (fst x)) (te_allocator (fst y)) n \<and>
     (\<exists>rqs. q_pushed (te_requests (fst y)) = q_pushed (te_requests (fst x)) @ rqs \<and>
       rr_orders_submitted (snd y) = rr_orders_submitted (snd x) + length rqs)"

lemma progress_trans: "progress m x y \<Longrightarrow> progress n y z \<Longrightarrow> progress (m + n) x z"
  unfolding progress_def using used_ids_trans by fastforce

lemma progress_refl: "progress n x x"
  by (simp add: progress_def)

context strategy_contract
begin

lemma slot_update_ok:
  assumes ok: "engine_ok live e" and i: "i < slotCount e" and ids: "ids_for budget (te_allocator e)"
    and run: "processSlotUpdate ops fops t u sn i (e, r) = y"
  shows "engine_ok live (fst y) \<and> progress budget (e, r) y \<and> te_tickers (fst y) = te_tickers e \<and>
    (sn \<longrightarrow> te_requests (fst y) = te_requests e)"
proof (cases "findEntry (te_slots e ! i) t")
  case None
  then show ?thesis using ok run by (auto simp: processSlotUpdate_def progress_refl)
next
  case (Some k)
  have k: "k < length (sl_entries (te_slots e ! i))" using find_index_length [OF Some [unfolded findEntry_def]] .
  define book where "book = tb_book (te_tickers e ! en_book (sl_entries (te_slots e ! i) ! k))"
  define en where "en = (sl_entries (te_slots e ! i) ! k)\<lparr>en_features := fo_onMarketUpdate fops u book (en_features (sl_entries (te_slots e ! i) ! k))\<rparr>"
  define sl1 where "sl1 = (te_slots e ! i)\<lparr>sl_entries := (sl_entries (te_slots e ! i))[k := en]\<rparr>"
  define sl where "sl = (if fo_mkt_price fops (en_features en) \<noteq> Price_INVALID
    then sl1\<lparr>sl_pnl := snd (pnl_onMark t (fo_mkt_price fops (en_features en)) (sl_pnl sl1))\<rparr> else sl1)"
  have keep: "sl_om sl = sl_om (te_slots e ! i)" "sl_risk sl = sl_risk (te_slots e ! i)" "sl_entries sl = (sl_entries (te_slots e ! i))[k := en]"
    by (simp_all add: sl_def sl1_def)
  have "entries_for (te_tickers e) (sl_entries (te_slots e ! i))" using ok i by (simp add: engine_ok_def entries_ok_nth)
  then have ens: "entries_for (te_tickers e) (sl_entries sl)"
    using k set_update_subset_insert [of "sl_entries (te_slots e ! i)" k en] map_same_at [OF k, of en_ticker_id en]
    by (auto simp: entries_for_def keep(3) en_def)
  have run': "y = (if sn then (put_slot i sl e, r) else
      let (n, s, c) = (if mu_type u = EXECUTE then st_onTrade ops else st_onBookUpdate ops) en book u (open_slot sl e) (sl_strategy sl)
      in (close_slot ops i (sl\<lparr>sl_strategy := s\<rparr>) c e, r\<lparr>rr_orders_submitted := rr_orders_submitted r + n\<rparr>))"
    unfolding run [symmetric] processSlotUpdate_def Let_def prod.case Some option.case
      book_def [symmetric] en_def [symmetric] sl1_def [symmetric] sl_def [symmetric] ..
  show ?thesis
  proof (cases sn)
    case True
    then show ?thesis using run' engine_ok_put [OF ok i keep(1,2) ens] by (simp add: progress_def)
  next
    case False
    obtain n s c where h: "(if mu_type u = EXECUTE then st_onTrade ops else st_onBookUpdate ops) en book u (open_slot sl e) (sl_strategy sl) = (n, s, c)"
      by (metis prod_cases3)
    have inv: "om_inv risk_inv reservations (open_slot sl e)" "own_ids i (open_slot sl e)"
      using ok i by (simp_all add: engine_ok_def slots_ok_def om_inv_def own_ids_def open_slot_def keep)
    have "hook_effect budget n (open_slot sl e) c"
      using h book_update [OF inv(1)] trade [OF inv(1)] ids by (cases "mu_type u = EXECUTE") (simp_all add: open_slot_def)
    then have eff: "om_steps RiskManager_ops (open_slot sl e) c" "used_ids (te_allocator e) (cx_allocator c) budget"
      "\<exists>rqs. q_pushed (cx_outgoing c) = q_pushed (te_requests e) @ rqs \<and> length rqs = n"
      by (simp_all add: hook_effect_def open_slot_def)
    have "engine_ok live (close_slot ops i (sl\<lparr>sl_strategy := s\<rparr>) c e)"
      using rm.om_inv_steps [OF eff(1) inv(1)] own_ids_steps [OF eff(1) inv(2)] eff(2) ids ens by (intro engine_ok_close [OF ok i]) simp_all
    then show ?thesis using False run' h eff(2,3) by (auto simp: progress_def)
  qed
qed

end

text \<open>The updates a book can take: pool room for an added order, the side condition of a replacement.\<close>

definition feed_safe :: "'p PoolOps \<Rightarrow> MarketUpdate \<Rightarrow> ('s, 'f, 'p) TradeEngine \<Rightarrow> bool" where
  "feed_safe pops u e \<longleftrightarrow> (case engine_findTicker e (mu_ticker_id u) of
     None \<Rightarrow> True | Some i \<Rightarrow> safe_update pops u (tb_book (te_tickers e ! i)))"

abbreviation is_snapshot :: "MarketUpdate \<Rightarrow> bool" where
  "is_snapshot u \<equiv> mu_type u = SNAPSHOT_START \<or> mu_type u = SNAPSHOT_CLEAR \<or> mu_type u = SNAPSHOT_END"

lemma snapshot_safe: "is_snapshot u \<Longrightarrow> safe_update pops u b"
  by (auto simp: safe_update_def)

lemma engine_ok_book:
  assumes ok: "engine_ok live e" and i: "i < length (te_tickers e)"
    and b: "book_ok live ch b" "bk_ticker_id b = bk_ticker_id (tb_book (te_tickers e ! i))"
  shows "engine_ok live (e\<lparr>te_tickers := (te_tickers e)[i := (te_tickers e ! i)\<lparr>tb_book := b\<rparr>]\<rparr>)"
proof -
  let ?tb = "(te_tickers e ! i)\<lparr>tb_book := b\<rparr>" and ?e = "e\<lparr>te_tickers := (te_tickers e)[i := (te_tickers e ! i)\<lparr>tb_book := b\<rparr>]\<rparr>"
  have ids: "map tb_ticker_id ((te_tickers e)[i := ?tb]) = map tb_ticker_id (te_tickers e)" by (rule map_same_at [OF i]) simp
  have nth: "tb_ticker_id ((te_tickers e)[i := ?tb] ! j) = tb_ticker_id (te_tickers e ! j)" if "j < length (te_tickers e)" for j
    using that by (cases "j = i") simp_all
  have "slots_ok ?e" using ok by (simp add: engine_ok_def slots_ok_def open_slot_def slotCount_def)
  moreover have "books_ok live ?e"
  proof -
    have "bk_ticker_id (tb_book tb) = tb_ticker_id tb \<and> (\<exists>ch. book_ok live ch (tb_book tb))" if "tb \<in> set ((te_tickers e)[i := ?tb])" for tb
    proof (cases "tb = ?tb")
      case True
      then show ?thesis using b ok i by (auto simp: engine_ok_def books_ok_def)
    next
      case False
      then have "tb \<in> set (te_tickers e)" using that set_update_subset_insert [of "te_tickers e" i ?tb] by auto
      then show ?thesis using ok by (simp add: engine_ok_def books_ok_def)
    qed
    then show ?thesis using ok ids by (simp add: engine_ok_def books_ok_def)
  qed
  moreover have "entries_ok ?e" using ok nth by (simp add: engine_ok_def entries_ok_def entries_for_def)
  ultimately show ?thesis by (simp add: engine_ok_def)
qed

context strategy_contract
begin

lemma slots_update_ok:
  assumes "engine_ok live e" and "set is \<subseteq> {..<slotCount e}" and "ids_for (length is * budget) (te_allocator e)"
  shows "engine_ok live (fst (fold (processSlotUpdate ops fops t u sn) is (e, r))) \<and>
    progress (length is * budget) (e, r) (fold (processSlotUpdate ops fops t u sn) is (e, r)) \<and>
    te_tickers (fst (fold (processSlotUpdate ops fops t u sn) is (e, r))) = te_tickers e \<and>
    (sn \<longrightarrow> te_requests (fst (fold (processSlotUpdate ops fops t u sn) is (e, r))) = te_requests e)"
  using assms
proof (induction "is" arbitrary: e r)
  case Nil
  then show ?case by (simp add: progress_refl)
next
  case (Cons i "is")
  obtain e' r' where y: "processSlotUpdate ops fops t u sn i (e, r) = (e', r')" by fastforce
  have "ids_for budget (te_allocator e)" using Cons.prems(3) by (rule ids_for_mono) simp
  from slot_update_ok [OF Cons.prems(1) _ this y] Cons.prems(2)
  have 1: "engine_ok live e'" "progress budget (e, r) (e', r')" "te_tickers e' = te_tickers e" "sn \<longrightarrow> te_requests e' = te_requests e" by simp_all
  have n: "slotCount e' = slotCount e" and u: "used_ids (te_allocator e) (te_allocator e') budget" using 1(2) by (simp_all add: progress_def)
  have "ids_for (length is * budget) (te_allocator e')" by (rule ids_for_used [OF _ u]) (use Cons.prems(3) in simp)
  note IH = Cons.IH [OF 1(1) _ this, of r']
  have "fold (processSlotUpdate ops fops t u sn) (i # is) (e, r) = fold (processSlotUpdate ops fops t u sn) is (e', r')" by (simp add: y)
  with IH Cons.prems(2) n 1 progress_trans [OF 1(2), of "length is * budget"] show ?case by (cases sn) simp_all
qed

lemma book_update_ok:
  assumes ok: "engine_ok live e" and i: "i < length (te_tickers e)" and pool: "pool_ok pops live"
    and safe: "safe_update pops u (tb_book (te_tickers e ! i))" and ids: "ids_for (slotCount e * budget) (te_allocator e)"
  shows "\<exists>b y. applyUpdate pops u (tb_book (te_tickers e ! i)) = Some b \<and> processBookUpdate ops fops pops u i (e, r) = Some y \<and>
    engine_ok live (fst y) \<and> progress (slotCount e * budget) (e, r) y \<and>
    te_tickers (fst y) = (te_tickers e)[i := (te_tickers e ! i)\<lparr>tb_book := b\<rparr>] \<and>
    (bk_in_snapshot b \<longrightarrow> te_requests (fst y) = te_requests e)"
proof -
  let ?tb = "te_tickers e ! i"
  have "?tb \<in> set (te_tickers e)" using i by simp
  with ok obtain ch where ch: "book_ok live ch (tb_book ?tb)" by (auto simp: engine_ok_def books_ok_def)
  from applyUpdate_implements [OF ch pool safe] obtain b ch' where
    b: "applyUpdate pops u (tb_book ?tb) = Some b" "book_ok live ch' b" "bk_ticker_id b = bk_ticker_id (tb_book ?tb)"
    unfolding implements_def by blast
  define e1 where "e1 = e\<lparr>te_tickers := (te_tickers e)[i := ?tb\<lparr>tb_book := b\<rparr>]\<rparr>"
  have e1: "slotCount e1 = slotCount e" "te_allocator e1 = te_allocator e" "te_requests e1 = te_requests e"
    "te_tickers e1 = (te_tickers e)[i := ?tb\<lparr>tb_book := b\<rparr>]" by (simp_all add: e1_def)
  have ok1: "engine_ok live e1" unfolding e1_def by (rule engine_ok_book [OF ok i b(2,3)])
  have rng: "set [0..<slotCount e1] \<subseteq> {..<slotCount e1}" and ids1: "ids_for (length [0..<slotCount e1] * budget) (te_allocator e1)"
    using ids e1 by auto
  define y where "y = fold (processSlotUpdate ops fops (tb_ticker_id ?tb) u (bk_in_snapshot b)) [0..<slotCount e1] (e1, r)"
  have run: "processBookUpdate ops fops pops u i (e, r) = Some y"
    using b(1) by (simp add: processBookUpdate_def y_def e1_def Let_def)
  note y = slots_update_ok [OF ok1 rng ids1, of fops "tb_ticker_id ?tb" u "bk_in_snapshot b" r, folded y_def]
  have "map tb_ticker_id ((te_tickers e)[i := ?tb\<lparr>tb_book := b\<rparr>]) = map tb_ticker_id (te_tickers e)" by (rule map_same_at [OF i]) simp
  then have "progress (slotCount e * budget) (e, r) y" using y e1 by (simp add: progress_def)
  with run b(1) y e1 show ?thesis by auto
qed

end

subsection \<open>The ticker and the snapshot flag of a book\<close>

definition book_tag :: "'p MarketOrderBook \<Rightarrow> bool \<times> TickerId" where
  "book_tag b = (bk_in_snapshot b, bk_ticker_id b)"

lemma book_tag_simps [simp]:
  "book_tag (b\<lparr>bk_orders := x1\<rparr>) = book_tag b" "book_tag (b\<lparr>bk_levels := x2\<rparr>) = book_tag b"
  "book_tag (b\<lparr>bk_bids := x3\<rparr>) = book_tag b" "book_tag (b\<lparr>bk_asks := x4\<rparr>) = book_tag b"
  "book_tag (b\<lparr>bk_order_index := x5\<rparr>) = book_tag b" "book_tag (b\<lparr>bk_bbo := x6\<rparr>) = book_tag b"
  "book_tag (b\<lparr>bk_best_bid := x7\<rparr>) = book_tag b" "book_tag (b\<lparr>bk_best_ask := x8\<rparr>) = book_tag b"
  "book_tag (b\<lparr>bk_pool := x9\<rparr>) = book_tag b" "book_tag (b\<lparr>bk_fresh := x10\<rparr>) = book_tag b"
  "book_tag (set_side_levels s m b) = book_tag b"
  by (simp_all add: book_tag_def)

lemma modify_flag:
  "modify_order a f b = Some b' \<Longrightarrow> book_tag b' = book_tag b"
  "modify_level l g b = Some b' \<Longrightarrow> book_tag b' = book_tag b"
  by (auto simp: modify_order_def modify_level_def split: option.splits)

lemma level_flag [simp]:
  "book_tag (erase_level s p b) = book_tag b"
  "book_tag (snd (getOrCreateLevel s p b)) = book_tag b"
  by (simp_all add: erase_level_def getOrCreateLevel_def Let_def split: option.split)

lemma link_flag:
  "linkOrder l a b = Some b' \<Longrightarrow> book_tag b' = book_tag b"
  "unlinkOrder l a b = Some b' \<Longrightarrow> book_tag b' = book_tag b"
  "drop_if_empty s l b = Some b' \<Longrightarrow> book_tag b' = book_tag b"
  by (auto simp: linkOrder_def unlinkOrder_def drop_if_empty_def bind_eq_Some_conv dest!: modify_flag split: option.splits if_splits)

lemma updateBBO_flag: "updateBBO b = Some b' \<Longrightarrow> book_tag b' = book_tag b"
  by (cases "bk_bids b"; cases "bk_asks b") (auto simp: updateBBO_def Let_def bind_eq_Some_conv case_prod_unfold)

lemma erase_flag: "eraseOrder ops ref b = Some (x, b') \<Longrightarrow> book_tag b' = book_tag b"
  by (auto simp: eraseOrder_def deallocateOrder_def bind_eq_Some_conv dest!: link_flag split: option.splits)

lemma reduce_flag: "reduceOrder ops u b = Some (x, b') \<Longrightarrow> book_tag b' = book_tag b"
  by (auto simp: reduceOrder_def bind_eq_Some_conv dest!: modify_flag erase_flag split: option.splits if_splits)

lemma replace_flag: "replaceOrder u b = Some (x, b') \<Longrightarrow> book_tag b' = book_tag b"
  by (auto simp: replaceOrder_def bind_eq_Some_conv Let_def case_prod_unfold dest!: link_flag modify_flag split: option.splits if_splits)

lemma add_flag: "addOrder ops u b = Some b' \<Longrightarrow> book_tag b' = book_tag b"
  by (auto simp: addOrder_def allocateOrder_def bind_eq_Some_conv Let_def case_prod_unfold dest!: link_flag updateBBO_flag split: option.splits if_splits prod.splits)

lemma refresh_flag: "refresh r = Some b' \<Longrightarrow> (\<And>x b''. r = Some (x, b'') \<Longrightarrow> book_tag b'' = s) \<Longrightarrow> book_tag b' = s"
  by (auto simp: refresh_def bind_eq_Some_conv dest!: updateBBO_flag split: if_splits)

lemma free_chain_flag:
  assumes "free_chain ops x b = Some b'"
  shows "book_tag b' = book_tag b"
proof (rule free_chain.raw_induct [where P = "\<lambda>ops x b b'. book_tag b' = book_tag b" and xa = "((ops, x), b)" and y = b',
      unfolded prod.case])
  fix f :: "'a PoolOps \<Rightarrow> addr option \<Rightarrow> 'a MarketOrderBook \<Rightarrow> 'a MarketOrderBook option" and ops x b b'
  assume IH: "\<And>ops x b b'. f ops x b = Some b' \<Longrightarrow> book_tag b' = book_tag b"
    and run: "(case x of None \<Rightarrow> Some b | Some a \<Rightarrow> bk_orders b a \<bind> (\<lambda>o'. f ops (bo_next o') (deallocateOrder ops a b))) = Some b'"
  show "book_tag b' = book_tag b"
  proof (cases x)
    case (Some a)
    with run obtain o' :: BookOrder where "f ops (bo_next o') (deallocateOrder ops a b) = Some b'" by (auto simp: bind_eq_Some_conv)
    from IH [OF this] show ?thesis by (simp add: deallocateOrder_def)
  qed (use run in simp)
qed (rule assms)

lemma clear_flag: "clear ops b = Some b' \<Longrightarrow> book_tag b' = book_tag b"
proof -
  have lv: "free_levels ops m c = Some c' \<Longrightarrow> book_tag c' = book_tag c" for m and c c' :: "'a MarketOrderBook"
    by (induction ops m c rule: free_levels.induct) (auto simp: bind_eq_Some_conv dest: free_chain_flag)
  show "clear ops b = Some b' \<Longrightarrow> book_tag b' = book_tag b"
    by (auto simp: clear_def bind_eq_Some_conv dest!: lv)
qed

lemma applyUpdate_tag:
  assumes "applyUpdate ops u b = Some b'"
  shows "book_tag b' = (if mu_type u = SNAPSHOT_START then True else if mu_type u = SNAPSHOT_END then False else bk_in_snapshot b, bk_ticker_id b)"
proof -
  have tag: "book_tag (c\<lparr>bk_in_snapshot := x\<rparr>) = (x, snd (book_tag c))" "snd (book_tag c) = bk_ticker_id c"
    "book_tag c = (bk_in_snapshot c, bk_ticker_id c) \<longleftrightarrow> True" for c :: "'a MarketOrderBook" and x by (simp_all add: book_tag_def)
  have b: "book_tag b = (bk_in_snapshot b, bk_ticker_id b)" by (simp add: book_tag_def)
  show ?thesis using assms
    by (cases "mu_type u") (auto simp: b applyUpdate_def onSnapshotStart_def onSnapshotClear_def onSnapshotEnd_def tag
      dest!: add_flag clear_flag updateBBO_flag dest: erase_flag reduce_flag replace_flag elim!: refresh_flag split: if_splits)
qed

lemma applyUpdate_flag:
  assumes "applyUpdate ops u b = Some b'"
  shows "bk_in_snapshot b' = (if mu_type u = SNAPSHOT_START then True else if mu_type u = SNAPSHOT_END then False else bk_in_snapshot b)"
    and "bk_ticker_id b' = bk_ticker_id b"
  using applyUpdate_tag [OF assms] by (simp_all add: book_tag_def)

subsection \<open>The whole market update\<close>

text \<open>The ids that one market update can draw: each strategy runs at most once per ticker.\<close>

abbreviation update_ids :: "nat \<Rightarrow> ('s, 'f, 'p) TradeEngine \<Rightarrow> nat" where
  "update_ids k e \<equiv> length (te_tickers e) * (slotCount e * k)"

definition all_in_snapshot :: "('s, 'f, 'p) TradeEngine \<Rightarrow> bool" where
  "all_in_snapshot e \<longleftrightarrow> (\<forall>tb \<in> set (te_tickers e). bk_in_snapshot (tb_book tb))"

lemma findTicker_Some:
  assumes "engine_findTicker e t = Some i"
  shows "i < length (te_tickers e)" and "tb_ticker_id (te_tickers e ! i) = t"
  using find_index_length [OF assms [unfolded engine_findTicker_def]] find_index_holds [OF assms [unfolded engine_findTicker_def]] by simp_all

context strategy_contract
begin

lemma books_update_ok:
  assumes "engine_ok live e" and pool: "pool_ok pops live" and snap: "is_snapshot u"
    and "set is \<subseteq> {..<length (te_tickers e)}" and "ids_for (length is * (slotCount e * budget)) (te_allocator e)"
  shows "\<exists>y. fold (\<lambda>i x. Option.bind x (processBookUpdate ops fops pops u i)) is (Some (e, r)) = Some y \<and>
    engine_ok live (fst y) \<and> progress (length is * (slotCount e * budget)) (e, r) y \<and>
    (mu_type u \<noteq> SNAPSHOT_END \<and> all_in_snapshot e \<or> mu_type u = SNAPSHOT_START \<longrightarrow> te_requests (fst y) = te_requests e)"
  using assms(1,4,5)
proof (induction "is" arbitrary: e r)
  case Nil
  then show ?case by (simp add: progress_refl)
next
  case (Cons i "is")
  have i: "i < length (te_tickers e)" and ids: "ids_for (slotCount e * budget) (te_allocator e)"
    using Cons.prems(2) ids_for_mono [OF Cons.prems(3)] by simp_all
  from book_update_ok [OF Cons.prems(1) i pool snapshot_safe [OF snap] ids, of fops r] obtain b e' r' where
    b: "applyUpdate pops u (tb_book (te_tickers e ! i)) = Some b" and run: "processBookUpdate ops fops pops u i (e, r) = Some (e', r')"
    and 1: "engine_ok live e'" "progress (slotCount e * budget) (e, r) (e', r')"
      "te_tickers e' = (te_tickers e)[i := (te_tickers e ! i)\<lparr>tb_book := b\<rparr>]" "bk_in_snapshot b \<longrightarrow> te_requests e' = te_requests e"
    by auto
  have n: "slotCount e' = slotCount e" "length (te_tickers e') = length (te_tickers e)"
    and u: "used_ids (te_allocator e) (te_allocator e') (slotCount e * budget)" using 1(2) by (simp_all add: progress_def)
  have ids': "ids_for (length is * (slotCount e' * budget)) (te_allocator e')"
    unfolding n(1) by (rule ids_for_used [OF _ u]) (use Cons.prems(3) in simp)
  have rng: "set is \<subseteq> {..<length (te_tickers e')}" using Cons.prems(2) n by simp
  from Cons.IH [OF 1(1) rng ids', of r', unfolded n(1)] obtain y where
    y: "fold (\<lambda>i x. Option.bind x (processBookUpdate ops fops pops u i)) is (Some (e', r')) = Some y" "engine_ok live (fst y)"
      "progress (length is * (slotCount e * budget)) (e', r') y"
      "mu_type u \<noteq> SNAPSHOT_END \<and> all_in_snapshot e' \<or> mu_type u = SNAPSHOT_START \<longrightarrow> te_requests (fst y) = te_requests e'" by blast
  have quiet: "te_requests (fst y) = te_requests e"
    if "mu_type u \<noteq> SNAPSHOT_END \<and> all_in_snapshot e \<or> mu_type u = SNAPSHOT_START"
  proof -
    have "bk_in_snapshot b" using applyUpdate_flag(1) [OF b] that i by (auto simp: all_in_snapshot_def)
    moreover have "all_in_snapshot e' \<or> mu_type u = SNAPSHOT_START"
      using that \<open>bk_in_snapshot b\<close> set_update_subset_insert [of "te_tickers e" i "(te_tickers e ! i)\<lparr>tb_book := b\<rparr>"]
      by (auto simp: all_in_snapshot_def 1(3))
    ultimately show ?thesis using 1(4) y(4) that by auto
  qed
  have "fold (\<lambda>i x. Option.bind x (processBookUpdate ops fops pops u i)) (i # is) (Some (e, r)) = Some y" using run y(1) by simp
  then show ?case using y(2) progress_trans [OF 1(2) y(3)] quiet by auto
qed

lemma market_update_ok:
  assumes ok: "engine_ok live e" and pool: "pool_ok pops live" and safe: "feed_safe pops u e"
    and ids: "ids_for (update_ids budget e) (te_allocator e)"
  shows "\<exists>y. handleMarketUpdate ops fops pops u (e, r) = Some y \<and> engine_ok live (fst y) \<and> progress (update_ids budget e) (e, r) y \<and>
    (mu_type u \<noteq> SNAPSHOT_END \<and> all_in_snapshot e \<or> mu_type u = SNAPSHOT_START \<longrightarrow> te_requests (fst y) = te_requests e)"
proof (cases "is_snapshot u")
  case True
  let ?r = "r\<lparr>rr_market_updates := rr_market_updates r + 1\<rparr>"
  have "ids_for (length [0..<length (te_tickers e)] * (slotCount e * budget)) (te_allocator e)" using ids by simp
  from books_update_ok [OF ok pool True _ this, of fops ?r] show ?thesis
    using True by (simp add: handleMarketUpdate_def progress_def atLeast0LessThan)
next
  case False
  show ?thesis
  proof (cases "engine_findTicker e (mu_ticker_id u)")
    case None
    then show ?thesis using ok False by (simp add: handleMarketUpdate_def progress_def)
  next
    case (Some i)
    have i: "i < length (te_tickers e)" by (rule findTicker_Some(1) [OF Some])
    have le: "slotCount e * budget \<le> update_ids budget e" using i by (cases "length (te_tickers e)") simp_all
    have "safe_update pops u (tb_book (te_tickers e ! i))" using safe Some by (simp add: feed_safe_def)
    from book_update_ok [OF ok i pool this ids_for_mono [OF ids le], of fops "r\<lparr>rr_market_updates := rr_market_updates r + 1\<rparr>"]
    obtain b y where b: "applyUpdate pops u (tb_book (te_tickers e ! i)) = Some b"
      and run: "processBookUpdate ops fops pops u i (e, r\<lparr>rr_market_updates := rr_market_updates r + 1\<rparr>) = Some y" "engine_ok live (fst y)"
        "progress (slotCount e * budget) (e, r\<lparr>rr_market_updates := rr_market_updates r + 1\<rparr>) y" "bk_in_snapshot b \<longrightarrow> te_requests (fst y) = te_requests e"
      by blast
    have "progress (update_ids budget e) (e, r) y" using run(3) used_ids_mono [OF _ le] by (simp add: progress_def)
    moreover have "all_in_snapshot e \<longrightarrow> bk_in_snapshot b" using applyUpdate_flag(1) [OF b] i False by (auto simp: all_in_snapshot_def)
    ultimately show ?thesis using run Some False by (auto simp: handleMarketUpdate_def)
  qed
qed

end

subsection \<open>Registration\<close>

lemma reservations_register: "reservations (snd (risk_registerTicker t l r)) = reservations r"
  by (simp add: risk_registerTicker_def reservations_def)

text \<open>Storing a slot whose risk manager has the same reservations.\<close>

lemma engine_ok_configure:
  assumes ok: "engine_ok live e" and i: "i < slotCount e" and sl: "sl_om sl = sl_om (te_slots e ! i)"
    and risk: "risk_inv (sl_risk sl)" "reservations (sl_risk sl) = reservations (sl_risk (te_slots e ! i))"
    and ens: "entries_for (te_tickers e) (sl_entries sl)"
  shows "engine_ok live (put_slot i sl e)"
proof -
  have *: "om_inv risk_inv reservations (slot_at (put_slot i sl e) j)" "own_ids j (slot_at (put_slot i sl e) j)"
    if "j < slotCount e" for j
  proof -
    have "om_inv risk_inv reservations (slot_at e j)" "own_ids j (slot_at e j)" using ok that by (simp_all add: engine_ok_def slots_ok_def)
    then show "om_inv risk_inv reservations (slot_at (put_slot i sl e) j)" "own_ids j (slot_at (put_slot i sl e) j)"
      using that i sl risk by (cases "j = i"; simp add: om_inv_def om_core_def own_ids_def open_slot_def slotCount_def)+
  qed
  have "entries_ok (put_slot i sl e)"
    by (rule entries_ok_set [of e sl]) (use ok ens in \<open>simp_all add: engine_ok_def\<close>)
  then show ?thesis using ok * by (simp add: engine_ok_def slots_ok_def books_ok_def)
qed

lemma entries_for_append: "entries_for tbs ens \<Longrightarrow> entries_for (tbs @ [tb]) ens"
  by (auto simp: entries_for_def nth_append)

lemma findOrCreate_ok:
  assumes ok: "engine_ok live e" and run: "findOrCreateTicker t e = (Some i, e')"
  shows "engine_ok live e'" and "i < length (te_tickers e')" and "tb_ticker_id (te_tickers e' ! i) = t"
    and "te_slots e' = te_slots e"
proof -
  have "engine_ok live e' \<and> i < length (te_tickers e') \<and> tb_ticker_id (te_tickers e' ! i) = t \<and> te_slots e' = te_slots e"
  proof (cases "engine_findTicker e t")
    case (Some j)
    then show ?thesis using ok run findTicker_Some [OF Some] by (simp add: findOrCreateTicker_def)
  next
    case None
    let ?tb = "\<lparr>tb_ticker_id = t, tb_book = MarketOrderBook_init t (te_book_pool e)\<rparr>"
    have e': "e' = e\<lparr>te_tickers := te_tickers e @ [?tb]\<rparr>" and i: "i = length (te_tickers e)"
      using run None by (auto simp: findOrCreateTicker_def split: if_splits)
    have "t \<notin> tb_ticker_id ` set (te_tickers e)" using None by (auto simp: engine_findTicker_def find_index_None)
    moreover have "book_ok live (\<lambda>l. []) (MarketOrderBook_init t (te_book_pool e))"
      using ok init_book_ok(1) [of live "te_book_pool e"] by (simp add: engine_ok_def books_ok_def)
    ultimately have "books_ok live e'"
      using ok by (auto simp: engine_ok_def books_ok_def e' MarketOrderBook_init_def)
    moreover have "entries_ok e'" using ok by (auto simp: engine_ok_def entries_ok_def e' intro: entries_for_append)
    moreover have "slots_ok e'" using ok by (simp add: engine_ok_def slots_ok_def e' open_slot_def slotCount_def)
    ultimately show ?thesis by (simp add: engine_ok_def e' i)
  qed
  then show "engine_ok live e'" "i < length (te_tickers e')" "tb_ticker_id (te_tickers e' ! i) = t" "te_slots e' = te_slots e" by simp_all
qed

lemma register_ok:
  assumes ok: "engine_ok live e"
  shows "engine_ok live (snd (engine_registerTicker fops slot t limits e))"
proof (cases "slot \<ge> te_MaxSlots e \<or> slot \<ge> slotCount e \<or> findEntry (te_slots e ! slot) t \<noteq> None \<or>
    length (sl_entries (te_slots e ! slot)) = te_MaxTickers e")
  case True
  then show ?thesis using ok by (auto simp: engine_registerTicker_def)
next
  case False
  then have slot: "slot < slotCount e" and new: "findEntry (te_slots e ! slot) t = None" by auto
  obtain x e' where fc: "findOrCreateTicker t e = (x, e')" by fastforce
  show ?thesis
  proof (cases x)
    case None
    then have "e' = e" using fc by (auto simp: findOrCreateTicker_def split: option.splits if_splits)
    then show ?thesis using False fc None ok by (simp add: engine_registerTicker_def Let_def)
  next
    case (Some i)
    note e' = findOrCreate_ok [OF ok fc [unfolded Some]]
    let ?sl = "te_slots e ! slot"
    have slot': "slot < slotCount e'" and sl: "te_slots e' ! slot = ?sl" using slot e'(4) by (simp_all add: slotCount_def)
    have ens: "entries_for (te_tickers e') (sl_entries ?sl)" using e'(1) slot' sl entries_ok_nth [of e' slot] by (simp add: engine_ok_def)
    have "t \<notin> en_ticker_id ` set (sl_entries ?sl)" using new by (auto simp: findEntry_def find_index_None)
    then have ens': "entries_for (te_tickers e') (sl_entries ?sl @ [\<lparr>en_ticker_id = t, en_book = i, en_features = fo_init fops\<rparr>])"
      using ens e'(2,3) by (auto simp: entries_for_def)
    have inv: "risk_inv (sl_risk ?sl)" using ok slot by (simp add: engine_ok_def slots_ok_def om_inv_def om_core_def open_slot_def)
    note risk = risk_inv_register [OF inv, of t limits] reservations_register [of t limits "sl_risk ?sl"]
    note store = engine_ok_configure [OF e'(1) slot', unfolded sl]
    show ?thesis using False fc Some ens ens' inv risk
      by (auto simp: engine_registerTicker_def Let_def case_prod_unfold intro!: store)
  qed
qed

lemma setStrategy_ok:
  assumes ok: "engine_ok live e"
  shows "engine_ok live (setStrategy slot s e)"
proof (cases "slot < te_MaxSlots e \<and> slot < slotCount e")
  case True
  then have "engine_ok live (put_slot slot ((te_slots e ! slot)\<lparr>sl_strategy := s\<rparr>) e)"
    using ok entries_ok_nth [of e slot] by (intro engine_ok_put) (simp_all add: engine_ok_def)
  with True show ?thesis by (simp add: setStrategy_def)
next
  case False
  with ok show ?thesis by (auto simp: setStrategy_def)
qed

lemma init_ok:
  fixes live :: "'p \<Rightarrow> addr set" and s :: 's
  assumes "live pool = {}" and "MaxSlots \<le> 65536" and "MaxPending < 2147483648"
  shows "engine_ok live (TradeEngine_init MaxSlots MaxTickers MaxPending q s n gate pool :: ('s, 'f, 'p) TradeEngine)"
proof -
  let ?e = "TradeEngine_init MaxSlots MaxTickers MaxPending q s n gate pool :: ('s, 'f, 'p) TradeEngine"
  have cnt: "slotCount ?e = min n MaxSlots" by (simp add: TradeEngine_init_def slotCount_def min_def)
  have slot: "te_slots ?e ! i = new_slot MaxTickers MaxPending s i" if "i < slotCount ?e" for i
    using that by (simp add: TradeEngine_init_def slotCount_def)
  have "reservations (RiskManager_init MaxTickers MaxPending) = booked []"
    by (auto simp: reservations_def booked_def keyed_def RiskManager_init_def)
  moreover have "risk_inv (RiskManager_init MaxTickers MaxPending)" using assms(3) by (simp add: risk_inv_def RiskManager_init_def)
  moreover have "counter_ok (te_allocator ?e)" by (simp add: TradeEngine_init_def OrderIdAllocator_init_def counter_ok_def)
  ultimately have "om_inv risk_inv reservations (slot_at ?e i) \<and> own_ids i (slot_at ?e i)" if "i < slotCount ?e" for i
    using that assms(2) cnt by (simp add: slot om_inv_def om_core_def own_ids_def open_slot_def new_slot_def initialize_def OrderManager_init_def)
  moreover have "slotCount ?e \<le> te_MaxSlots ?e" "slotCount ?e \<le> slot_count (te_allocator ?e)"
    using cnt by (simp_all add: TradeEngine_init_def OrderIdAllocator_init_def)
  ultimately have "slots_ok ?e" by (simp add: slots_ok_def)
  moreover have "books_ok live ?e" "entries_ok ?e"
    using assms(1) by (auto simp: books_ok_def entries_ok_def entries_for_def TradeEngine_init_def new_slot_def)
  ultimately show ?thesis by (simp add: engine_ok_def)
qed

end
