(* ===== verification/Engine_Properties.thy ===== *)
theory Engine_Properties
  imports Engine_Invariant
begin

text \<open>
  What the trade engine promises: its invariant along every run, responses that reach the slot whose order they
  name, one book per ticker that evolves as if it saw the whole feed, and silence while a snapshot is loading.
\<close>

subsection \<open>Books evolve independently of the strategies\<close>

definition quiet :: "('s, 'f, 'p) TradeEngine \<times> StrategyRunResult \<Rightarrow> ('s, 'f, 'p) TradeEngine \<times> StrategyRunResult \<Rightarrow> bool" where
  "quiet x y \<longleftrightarrow> te_requests (fst y) = te_requests (fst x) \<and> te_allocator (fst y) = te_allocator (fst x) \<and>
     rr_orders_submitted (snd y) = rr_orders_submitted (snd x)"

lemma quiet_trans: "quiet x y \<Longrightarrow> quiet y z \<Longrightarrow> quiet x z"
  by (simp add: quiet_def)

lemma slot_update_frame:
  "te_tickers (fst (processSlotUpdate ops fops t u sn i x)) = te_tickers (fst x) \<and>
   (sn \<longrightarrow> quiet x (processSlotUpdate ops fops t u sn i x))"
  by (cases x) (auto simp: processSlotUpdate_def quiet_def Let_def split: option.splits prod.splits)

lemma slots_update_frame:
  "te_tickers (fst (fold (processSlotUpdate ops fops t u sn) is x)) = te_tickers (fst x) \<and>
   (sn \<longrightarrow> quiet x (fold (processSlotUpdate ops fops t u sn) is x))"
proof (induction "is" arbitrary: x)
  case Nil
  then show ?case by (simp add: quiet_def)
next
  case (Cons i "is")
  show ?case using Cons [of "processSlotUpdate ops fops t u sn i x"] slot_update_frame [of ops fops t u sn i x] quiet_trans
    by (cases sn) (simp_all, blast)
qed

lemma book_update_frame:
  assumes "processBookUpdate ops fops pops u i x = Some y"
  obtains b where "applyUpdate pops u (tb_book (te_tickers (fst x) ! i)) = Some b"
    and "te_tickers (fst y) = (te_tickers (fst x))[i := (te_tickers (fst x) ! i)\<lparr>tb_book := b\<rparr>]"
    and "bk_in_snapshot b \<longrightarrow> quiet x y"
proof -
  obtain e r where x: "x = (e, r)" by (cases x)
  from assms x obtain b where b: "applyUpdate pops u (tb_book (te_tickers e ! i)) = Some b"
    and y: "y = fold (processSlotUpdate ops fops (tb_ticker_id (te_tickers e ! i)) u (bk_in_snapshot b)) [0..<slotCount e]
      (e\<lparr>te_tickers := (te_tickers e)[i := (te_tickers e ! i)\<lparr>tb_book := b\<rparr>]\<rparr>, r)"
    by (auto simp: processBookUpdate_def bind_eq_Some_conv Let_def)
  let ?x = "(e\<lparr>te_tickers := (te_tickers e)[i := (te_tickers e ! i)\<lparr>tb_book := b\<rparr>]\<rparr>, r)"
  note f = slots_update_frame [of ops fops "tb_ticker_id (te_tickers e ! i)" u "bk_in_snapshot b" "[0..<slotCount e]" ?x, folded y]
  have "quiet ?x y \<Longrightarrow> quiet x y" by (simp add: quiet_def x)
  with f b x show thesis by (intro that [of b]) auto
qed

text \<open>\<open>books_step pops u S e e'\<close>: the books in \<open>S\<close> took the update, the others are untouched.\<close>

definition books_step :: "'p PoolOps \<Rightarrow> MarketUpdate \<Rightarrow> nat set \<Rightarrow> ('s, 'f, 'p) TradeEngine \<Rightarrow> ('s, 'f, 'p) TradeEngine \<Rightarrow> bool" where
  "books_step pops u S e e' \<longleftrightarrow> map tb_ticker_id (te_tickers e') = map tb_ticker_id (te_tickers e) \<and>
     (\<forall>i < length (te_tickers e). if i \<in> S then applyUpdate pops u (tb_book (te_tickers e ! i)) = Some (tb_book (te_tickers e' ! i))
       else te_tickers e' ! i = te_tickers e ! i)"

lemma books_step_one:
  assumes "processBookUpdate ops fops pops u i x = Some y" and "i < length (te_tickers (fst x))"
  shows "books_step pops u {i} (fst x) (fst y)"
  using assms(1)
proof (rule book_update_frame)
  fix b
  assume b: "applyUpdate pops u (tb_book (te_tickers (fst x) ! i)) = Some b"
    "te_tickers (fst y) = (te_tickers (fst x))[i := (te_tickers (fst x) ! i)\<lparr>tb_book := b\<rparr>]"
  have "map tb_ticker_id ((te_tickers (fst x))[i := (te_tickers (fst x) ! i)\<lparr>tb_book := b\<rparr>]) = map tb_ticker_id (te_tickers (fst x))"
    by (rule map_same_at [OF assms(2)]) simp
  with b assms(2) show ?thesis by (simp add: books_step_def)
qed

lemma books_step_length: "books_step pops u S e e' \<Longrightarrow> length (te_tickers e') = length (te_tickers e)"
  unfolding books_step_def by (metis length_map)

lemma books_step_trans:
  assumes "books_step pops u S e e1" and "books_step pops u T e1 e2" and "S \<inter> T = {}"
  shows "books_step pops u (S \<union> T) e e2"
  unfolding books_step_def
proof (intro conjI allI impI)
  show "map tb_ticker_id (te_tickers e2) = map tb_ticker_id (te_tickers e)" using assms(1,2) by (simp add: books_step_def)
  fix i
  assume i: "i < length (te_tickers e)"
  then have i1: "i < length (te_tickers e1)" using books_step_length [OF assms(1)] by simp
  have 1: "if i \<in> S then applyUpdate pops u (tb_book (te_tickers e ! i)) = Some (tb_book (te_tickers e1 ! i)) else te_tickers e1 ! i = te_tickers e ! i"
    using assms(1) i by (simp add: books_step_def)
  have 2: "if i \<in> T then applyUpdate pops u (tb_book (te_tickers e1 ! i)) = Some (tb_book (te_tickers e2 ! i)) else te_tickers e2 ! i = te_tickers e1 ! i"
    using assms(2) i1 by (simp add: books_step_def)
  show "if i \<in> S \<union> T then applyUpdate pops u (tb_book (te_tickers e ! i)) = Some (tb_book (te_tickers e2 ! i)) else te_tickers e2 ! i = te_tickers e ! i"
    using 1 2 assms(3) by (auto split: if_splits)
qed

lemma books_step_fold:
  assumes "fold (\<lambda>i z. Option.bind z (processBookUpdate ops fops pops u i)) is (Some x) = Some y"
    and "distinct is" and "set is \<subseteq> {..<length (te_tickers (fst x))}"
  shows "books_step pops u (set is) (fst x) (fst y)"
  using assms
proof (induction "is" arbitrary: x)
  case Nil
  then show ?case by (simp add: books_step_def)
next
  case (Cons i "is")
  have none: "fold (\<lambda>i z. Option.bind z (processBookUpdate ops fops pops u i)) is None = None" by (induction "is") simp_all
  with Cons.prems(1) obtain z where z: "processBookUpdate ops fops pops u i x = Some z"
    "fold (\<lambda>i z. Option.bind z (processBookUpdate ops fops pops u i)) is (Some z) = Some y"
    by (cases "processBookUpdate ops fops pops u i x") auto
  have 1: "books_step pops u {i} (fst x) (fst z)" by (rule books_step_one [OF z(1)]) (use Cons.prems(3) in simp)
  have "books_step pops u (set is) (fst z) (fst y)"
    by (rule Cons.IH [OF z(2)]) (use Cons.prems(2,3) books_step_length [OF 1] in simp_all)
  from books_step_trans [OF 1 this] Cons.prems(2) show ?case by simp
qed

lemma applyUpdate_other: "\<not> is_snapshot u \<Longrightarrow> mu_ticker_id u \<noteq> bk_ticker_id b \<Longrightarrow> applyUpdate pops u b = Some b"
  by (cases "mu_type u") (simp_all add: applyUpdate_def)

text \<open>What routing by ticker relies on: one book per ticker, which knows its ticker.\<close>

definition registry_ok :: "('s, 'f, 'p) TradeEngine \<Rightarrow> bool" where
  "registry_ok e \<longleftrightarrow> distinct (map tb_ticker_id (te_tickers e)) \<and>
     (\<forall>tb \<in> set (te_tickers e). bk_ticker_id (tb_book tb) = tb_ticker_id tb)"

lemma market_update_books:
  assumes run: "handleMarketUpdate ops fops pops u (e, r) = Some (e', r')" and ok: "registry_ok e" and i: "i < length (te_tickers e)"
  shows "applyUpdate pops u (tb_book (te_tickers e ! i)) = Some (tb_book (te_tickers e' ! i)) \<and>
    tb_ticker_id (te_tickers e' ! i) = tb_ticker_id (te_tickers e ! i) \<and> length (te_tickers e') = length (te_tickers e)"
proof -
  let ?r = "r\<lparr>rr_market_updates := rr_market_updates r + 1\<rparr>"
  obtain S where S: "books_step pops u S e e'" "i \<notin> S \<Longrightarrow> \<not> is_snapshot u \<and> mu_ticker_id u \<noteq> tb_ticker_id (te_tickers e ! i)"
  proof (cases "is_snapshot u")
    case True
    then have "books_step pops u (set [0..<length (te_tickers e)]) e e'"
      using run books_step_fold [of ops fops pops u "[0..<length (te_tickers e)]" "(e, ?r)" "(e', r')"]
      by (auto simp: handleMarketUpdate_def atLeast0LessThan)
    then show thesis by (rule that) (use i in simp)
  next
    case False
    show thesis
    proof (cases "engine_findTicker e (mu_ticker_id u)")
      case None
      then have "books_step pops u {} e e'" using run False by (auto simp: handleMarketUpdate_def books_step_def)
      moreover have "tb_ticker_id (te_tickers e ! i) \<noteq> mu_ticker_id u" using None i by (auto simp: engine_findTicker_def find_index_None)
      ultimately show thesis using False by (intro that [of "{}"]) auto
    next
      case (Some k)
      have k: "k < length (te_tickers e)" "tb_ticker_id (te_tickers e ! k) = mu_ticker_id u" using findTicker_Some [OF Some] .
      have "books_step pops u {k} e e'"
        using books_step_one [of ops fops pops u k "(e, ?r)" "(e', r')"] run False Some k(1) by (simp add: handleMarketUpdate_def)
      moreover have "tb_ticker_id (te_tickers e ! i) \<noteq> mu_ticker_id u" if "i \<noteq> k"
        using ok i k that nth_eq_iff_index_eq [of "map tb_ticker_id (te_tickers e)" i k] by (simp add: registry_ok_def)
      ultimately show thesis using False by (intro that [of "{k}"]) auto
    qed
  qed
  have same: "tb_ticker_id (te_tickers e' ! i) = tb_ticker_id (te_tickers e ! i)"
    using S(1) i unfolding books_step_def by (metis length_map nth_map)
  show ?thesis
  proof (cases "i \<in> S")
    case True
    then show ?thesis using S(1) i same books_step_length [OF S(1)] by (simp add: books_step_def)
  next
    case False
    have "te_tickers e' ! i = te_tickers e ! i" using S(1) i False by (simp add: books_step_def)
    moreover have "bk_ticker_id (tb_book (te_tickers e ! i)) = tb_ticker_id (te_tickers e ! i)" using ok i by (simp add: registry_ok_def)
    ultimately show ?thesis using applyUpdate_other [of u "tb_book (te_tickers e ! i)" pops] S(2) [OF False] books_step_length [OF S(1)] by simp
  qed
qed

lemma market_update_registry:
  assumes run: "handleMarketUpdate ops fops pops u (e, r) = Some (e', r')" and ok: "registry_ok e"
  shows "registry_ok e'" and "length (te_tickers e') = length (te_tickers e)"
proof -
  note step = market_update_books [OF run ok]
  show len: "length (te_tickers e') = length (te_tickers e)"
  proof (cases "te_tickers e")
    case Nil
    then have "e' = e"
      using run by (auto simp: handleMarketUpdate_def engine_findTicker_def Let_def split: if_splits)
    then show ?thesis by simp
  qed (use step [of 0] in simp)
  have "map tb_ticker_id (te_tickers e') = map tb_ticker_id (te_tickers e)"
    by (rule nth_equalityI) (use len step in simp_all)
  moreover have "bk_ticker_id (tb_book tb) = tb_ticker_id tb" if "tb \<in> set (te_tickers e')" for tb
  proof -
    from that obtain i where i: "i < length (te_tickers e)" "tb = te_tickers e' ! i" using len by (metis in_set_conv_nth)
    with step [OF i(1)] applyUpdate_flag(2) have "bk_ticker_id (tb_book tb) = bk_ticker_id (tb_book (te_tickers e ! i))" by metis
    also have "\<dots> = tb_ticker_id (te_tickers e ! i)" using ok i(1) by (simp add: registry_ok_def)
    finally show ?thesis using step [OF i(1)] i(2) by simp
  qed
  ultimately show "registry_ok e'" using ok by (simp add: registry_ok_def)
qed

lemma drain_Cons:
  "drainMarketUpdates ops fops pops (u # us) x = Option.bind (handleMarketUpdate ops fops pops u x) (drainMarketUpdates ops fops pops us)"
proof -
  have none: "fold (\<lambda>u x. Option.bind x (handleMarketUpdate ops fops pops u)) us None = None" by (induction us) simp_all
  show ?thesis by (cases "handleMarketUpdate ops fops pops u x") (simp_all add: drainMarketUpdates_def none)
qed

lemma drain_Nil [simp]: "drainMarketUpdates ops fops pops [] x = Some x"
  by (simp add: drainMarketUpdates_def)

lemma drain_books:
  "drainMarketUpdates ops fops pops us (e, r) = Some (e', r') \<Longrightarrow> registry_ok e \<Longrightarrow> i < length (te_tickers e) \<Longrightarrow>
    book_run pops us (tb_book (te_tickers e ! i)) = Some (tb_book (te_tickers e' ! i)) \<and>
    tb_ticker_id (te_tickers e' ! i) = tb_ticker_id (te_tickers e ! i)"
proof (induction us arbitrary: e r)
  case (Cons u us)
  from Cons.prems(1) obtain e1 r1 where 1: "handleMarketUpdate ops fops pops u (e, r) = Some (e1, r1)"
    and 2: "drainMarketUpdates ops fops pops us (e1, r1) = Some (e', r')" by (auto simp: drain_Cons bind_eq_Some_conv)
  note reg = market_update_registry [OF 1 Cons.prems(2)] and bk = market_update_books [OF 1 Cons.prems(2,3)]
  from Cons.IH [OF 2 reg(1)] Cons.prems(3) reg(2) bk show ?case by simp
qed simp

subsection \<open>Silence during a snapshot\<close>

definition loading :: "MarketUpdate \<Rightarrow> ('s, 'f, 'p) TradeEngine \<Rightarrow> bool" where
  "loading u e \<longleftrightarrow> mu_type u = SNAPSHOT_START \<or> mu_type u \<noteq> SNAPSHOT_END \<and> all_in_snapshot e"

lemma book_update_quiet:
  assumes "processBookUpdate ops fops pops u i x = Some y" and "i < length (te_tickers (fst x))" and "loading u (fst x)"
  shows "quiet x y \<and> loading u (fst y)"
  using assms(1)
proof (rule book_update_frame)
  fix b
  assume b: "applyUpdate pops u (tb_book (te_tickers (fst x) ! i)) = Some b"
    "te_tickers (fst y) = (te_tickers (fst x))[i := (te_tickers (fst x) ! i)\<lparr>tb_book := b\<rparr>]" "bk_in_snapshot b \<longrightarrow> quiet x y"
  have flag: "bk_in_snapshot b" using applyUpdate_flag(1) [OF b(1)] assms(2,3) by (auto simp: loading_def all_in_snapshot_def)
  have "loading u (fst y)"
    using assms(3) flag set_update_subset_insert [of "te_tickers (fst x)" i "(te_tickers (fst x) ! i)\<lparr>tb_book := b\<rparr>"]
    by (auto simp: loading_def all_in_snapshot_def b(2))
  with b(3) flag show ?thesis by simp
qed

lemma books_update_quiet:
  assumes "fold (\<lambda>i z. Option.bind z (processBookUpdate ops fops pops u i)) is (Some x) = Some y"
    and "set is \<subseteq> {..<length (te_tickers (fst x))}" and "loading u (fst x)"
  shows "quiet x y"
  using assms
proof (induction "is" arbitrary: x)
  case Nil
  then show ?case by (simp add: quiet_def)
next
  case (Cons i "is")
  have none: "fold (\<lambda>i z. Option.bind z (processBookUpdate ops fops pops u i)) is None = None" by (induction "is") simp_all
  with Cons.prems(1) obtain z where z: "processBookUpdate ops fops pops u i x = Some z"
    "fold (\<lambda>i z. Option.bind z (processBookUpdate ops fops pops u i)) is (Some z) = Some y"
    by (cases "processBookUpdate ops fops pops u i x") auto
  have i: "i < length (te_tickers (fst x))" using Cons.prems(2) by simp
  note q = book_update_quiet [OF z(1) i Cons.prems(3)]
  have "length (te_tickers (fst z)) = length (te_tickers (fst x))" by (rule books_step_length [OF books_step_one [OF z(1) i]])
  then have "quiet z y" using Cons.IH [OF z(2)] Cons.prems(2) q by simp
  then show ?case using q quiet_trans by blast
qed

lemma market_update_quiet:
  assumes run: "handleMarketUpdate ops fops pops u (e, r) = Some (e', r')" and ok: "registry_ok e" and load: "loading u e"
  shows "quiet (e, r) (e', r') \<and> all_in_snapshot e'"
proof -
  let ?x = "(e, r\<lparr>rr_market_updates := rr_market_updates r + 1\<rparr>)"
  have "quiet ?x (e', r')"
  proof (cases "is_snapshot u")
    case True
    then show ?thesis using run load books_update_quiet [of ops fops pops u "[0..<length (te_tickers e)]" ?x "(e', r')"]
      by (auto simp: handleMarketUpdate_def atLeast0LessThan)
  next
    case False
    show ?thesis
    proof (cases "engine_findTicker e (mu_ticker_id u)")
      case None
      then show ?thesis using run False by (simp add: handleMarketUpdate_def quiet_def)
    next
      case (Some i)
      then show ?thesis using run False load book_update_quiet [of ops fops pops u i ?x "(e', r')"] findTicker_Some(1) [OF Some]
        by (simp add: handleMarketUpdate_def)
    qed
  qed
  moreover have "bk_in_snapshot (tb_book tb)" if "tb \<in> set (te_tickers e')" for tb
  proof -
    from that obtain i where i: "i < length (te_tickers e)" "tb = te_tickers e' ! i"
      using market_update_registry(2) [OF run ok] by (metis in_set_conv_nth)
    have "te_tickers e ! i \<in> set (te_tickers e)" using i(1) by simp
    with applyUpdate_flag(1) market_update_books [OF run ok i(1)] load i(2) show ?thesis by (fastforce simp: loading_def all_in_snapshot_def)
  qed
  ultimately show ?thesis by (simp add: quiet_def all_in_snapshot_def)
qed

lemma drain_quiet:
  "drainMarketUpdates ops fops pops us (e, r) = Some (e', r') \<Longrightarrow> registry_ok e \<Longrightarrow> all_in_snapshot e \<Longrightarrow>
    (\<And>u. u \<in> set us \<Longrightarrow> mu_type u \<noteq> SNAPSHOT_END) \<Longrightarrow> quiet (e, r) (e', r')"
proof (induction us arbitrary: e r)
  case Nil
  then show ?case by (simp add: quiet_def)
next
  case (Cons u us)
  from Cons.prems(1) obtain e1 r1 where 1: "handleMarketUpdate ops fops pops u (e, r) = Some (e1, r1)"
    and 2: "drainMarketUpdates ops fops pops us (e1, r1) = Some (e', r')" by (auto simp: drain_Cons bind_eq_Some_conv)
  have "loading u e" using Cons.prems(3,4) by (simp add: loading_def)
  from market_update_quiet [OF 1 Cons.prems(2) this]
  have q: "quiet (e, r) (e1, r1)" "all_in_snapshot e1" by simp_all
  have "quiet (e1, r1) (e', r')"
    by (rule Cons.IH [OF 2 market_update_registry(1) [OF 1 Cons.prems(2)] q(2)]) (use Cons.prems(4) in simp)
  with q(1) quiet_trans show ?case by blast
qed

subsection \<open>Runs of the engine\<close>

text \<open>
  The steps of the engine of \<^verbatim>\<open>main.cpp\<close>: a consistent response, a market update that the book can take and
  that finds enough ids, a registration, a change of strategy.
\<close>

type_synonym 'p engine = "(LiquidityTaker, TradingFeatures, 'p) TradeEngine"

inductive engine_step :: "'p PoolOps \<Rightarrow> 'p engine \<Rightarrow> 'p engine \<Rightarrow> bool" for pops where
  es_response: "response_ok rs e \<Longrightarrow> engine_step pops e (fst (handleResponse LiquidityTaker_ops rs (e, r)))"
| es_update: "feed_safe pops u e \<Longrightarrow> ids_for (update_ids (Suc 0) e) (te_allocator e) \<Longrightarrow>
    handleMarketUpdate LiquidityTaker_ops TradingFeatures_ops pops u (e, r) = Some (e', r') \<Longrightarrow> engine_step pops e e'"
| es_register: "engine_step pops e (snd (engine_registerTicker TradingFeatures_ops slot t limits e))"
| es_strategy: "engine_step pops e (setStrategy slot s e)"

inductive_cases engine_stepE: "engine_step pops e e'"

lemma engine_step_ok:
  assumes "engine_step pops e e'" and pool: "pool_ok pops live" and ok: "engine_ok live e"
  shows "engine_ok live e'"
  using assms(1)
proof cases
  case (es_update u r r')
  from lt.market_update_ok [OF ok pool es_update(1,2), of TradingFeatures_ops r] es_update(3) show ?thesis by auto
qed (auto simp: ok handleResponse_ok register_ok setStrategy_ok)

lemma engine_steps_ok: "(engine_step pops)\<^sup>*\<^sup>* e e' \<Longrightarrow> pool_ok pops live \<Longrightarrow> engine_ok live e \<Longrightarrow> engine_ok live e'"
  by (induction rule: rtranclp_induct) (auto intro: engine_step_ok)

lemma engine_ok_registry: "engine_ok live e \<Longrightarrow> registry_ok e"
  by (auto simp: engine_ok_def books_ok_def registry_ok_def)

lemma owner_of_order:
  assumes ok: "engine_ok live e" and i: "i < slotCount e" and o': "o' \<in> set (om_orders (sl_om (te_slots e ! i)))"
  shows "ownerOf (te_allocator e) (oid_of o') = i"
proof -
  have own: "own_ids i (slot_at e i)" and n: "slotCount e \<le> slot_count (te_allocator e)" using ok i by (simp_all add: engine_ok_def slots_ok_def)
  then have d: "drop_bit 48 (oid_of o') = word_of_nat i" and le: "i < 65536" using o' by (simp_all add: own_ids_def open_slot_def)
  have "unat (word_of_nat i :: 64 word) = i" using le by (simp add: unat_of_nat)
  with d n i show ?thesis by (simp add: ownerOf_def Let_def)
qed

subsection \<open>A concrete engine\<close>

text \<open>The engine of \<^verbatim>\<open>main.cpp\<close> with one slot, ticker 7 registered and a pool of four orders.\<close>

definition demo_engine :: "addr list engine" where
  "demo_engine = snd (engine_registerTicker TradingFeatures_ops 0 7 default_limits
     (TradeEngine_init 4 16 64 roomy_queue shipped_taker 1 True []))"

lemma demo_engine_ok: "engine_ok set demo_engine"
  unfolding demo_engine_def by (intro register_ok init_ok) simp_all

definition demo_next :: "addr list engine \<times> StrategyRunResult" where
  "demo_next = the (handleMarketUpdate LiquidityTaker_ops TradingFeatures_ops (first_free 4) (upd ADD BUY 1 100 30 0)
     (demo_engine, StrategyRunResult_init))"

lemma demo_ids: "ids_for (update_ids (Suc 0) demo_engine) (te_allocator demo_engine)"
proof -
  have "counter (te_allocator demo_engine) = 1" "length (te_tickers demo_engine) = 1" "slotCount demo_engine = 1" by code_simp+
  then show ?thesis by (simp add: ids_for_def)
qed

text \<open>A bid and a smaller offer: the second update makes the taker buy.\<close>

definition demo_two :: "addr list engine \<times> StrategyRunResult" where
  "demo_two = the (handleMarketUpdate LiquidityTaker_ops TradingFeatures_ops (first_free 4) (upd ADD SELL 2 104 10 0) demo_next)"

lemma demo_next_ids: "ids_for (update_ids (Suc 0) (fst demo_next)) (te_allocator (fst demo_next))"
proof -
  have "counter (te_allocator (fst demo_next)) = 1" "length (te_tickers (fst demo_next)) = 1" "slotCount (fst demo_next) = 1" by code_simp+
  then show ?thesis by (simp add: ids_for_def)
qed

lemma demo_run:
  assumes "handleMarketUpdate LiquidityTaker_ops TradingFeatures_ops pops u x \<noteq> None" and "feed_safe pops u (fst x)"
    and "ids_for (update_ids (Suc 0) (fst x)) (te_allocator (fst x))"
  shows "engine_step pops (fst x) (fst (the (handleMarketUpdate LiquidityTaker_ops TradingFeatures_ops pops u x)))"
  using assms es_update [of pops u "fst x" "snd x"] by (cases "handleMarketUpdate LiquidityTaker_ops TradingFeatures_ops pops u x") auto

lemma demo_runs:
  "handleMarketUpdate LiquidityTaker_ops TradingFeatures_ops (first_free 4) (upd ADD BUY 1 100 30 0) (demo_engine, StrategyRunResult_init) \<noteq> None"
  "handleMarketUpdate LiquidityTaker_ops TradingFeatures_ops (first_free 4) (upd ADD SELL 2 104 10 0) demo_next \<noteq> None"
  by code_simp+

lemma demo_safe:
  "feed_safe (first_free 4) (upd ADD BUY 1 100 30 0) demo_engine" "feed_safe (first_free 4) (upd ADD SELL 2 104 10 0) (fst demo_next)"
  by code_simp+

lemma demo_step: "engine_step (first_free 4) demo_engine (fst demo_next)"
  using demo_run [OF demo_runs(1)] demo_safe(1) demo_ids by (simp add: demo_next_def)

lemma demo_step_two: "engine_step (first_free 4) (fst demo_next) (fst demo_two)"
  unfolding demo_two_def by (rule demo_run [OF demo_runs(2) demo_safe(2) demo_next_ids])

lemma demo_two_ok: "engine_ok set (fst demo_two)"
  by (rule engine_step_ok [OF demo_step_two first_free_ok engine_step_ok [OF demo_step first_free_ok demo_engine_ok]])

lemma demo_sends: "map rq_side (q_pushed (te_requests (fst demo_two))) = [BUY] \<and>
    map oid_of (om_orders (sl_om (te_slots (fst demo_two) ! 0))) = [1] \<and> slotCount (fst demo_two) = 1"
  by code_simp

subsection \<open>Properties\<close>





text \<open>
  C24.  A response reaches the slot whose order it names: it is handled by that slot's order manager, on that
  slot's own risk manager and positions, and leaves every other slot and all books as they were.
\<close>

theorem response_reaches_owner:
  assumes ok: "engine_ok live e" and i: "i < slotCount e" and o': "o' \<in> set (om_orders (sl_om (te_slots e ! i)))"
    and rs: "rs_client_order_id rs = oid_of o'"
  shows "slot_at (fst (handleResponse ops rs (e, r))) i = (snd (om_onOrderResponse RiskManager_ops rs (slot_at e i)))\<lparr>cx_notified := []\<rparr> \<and>
    (\<forall>j. j \<noteq> i \<longrightarrow> te_slots (fst (handleResponse ops rs (e, r))) ! j = te_slots e ! j) \<and>
    te_tickers (fst (handleResponse ops rs (e, r))) = te_tickers e \<and>
    rr_rejected_responses (snd (handleResponse ops rs (e, r))) =
      rr_rejected_responses r + (if fst (om_onOrderResponse RiskManager_ops rs (slot_at e i)) then 0 else 1)"
proof -
  have own: "ownerOf (te_allocator e) (rs_client_order_id rs) = i" using owner_of_order [OF ok i o'] rs by simp
  obtain b c where c: "om_onOrderResponse RiskManager_ops rs (slot_at e i) = (b, c)" by fastforce
  have run: "handleResponse ops rs (e, r) = (close_slot ops i (te_slots e ! i) c e,
      if b then r\<lparr>rr_responses := rr_responses r + 1\<rparr>
      else r\<lparr>rr_responses := rr_responses r + 1, rr_rejected_responses := rr_rejected_responses r + 1\<rparr>)"
    using own i c by (simp add: handleResponse_def Let_def)
  show ?thesis unfolding run c using i by (simp add: slot_at_close_self close_slot_other)
qed

theorem response_reaches_owner_witness:
  "slot_at (fst (handleResponse LiquidityTaker_ops (OrderResponse_init\<lparr>rs_client_order_id := 1, rs_status := ACCEPTED\<rparr>) demo_two)) 0 =
    (snd (om_onOrderResponse RiskManager_ops (OrderResponse_init\<lparr>rs_client_order_id := 1, rs_status := ACCEPTED\<rparr>) (slot_at (fst demo_two) 0)))\<lparr>cx_notified := []\<rparr>"
proof -
  obtain o' where o': "o' \<in> set (om_orders (sl_om (te_slots (fst demo_two) ! 0)))" "oid_of o' = 1" using demo_sends by auto
  from response_reaches_owner [OF demo_two_ok _ o'(1), of "OrderResponse_init\<lparr>rs_client_order_id := 1, rs_status := ACCEPTED\<rparr>" LiquidityTaker_ops "snd demo_two"]
    demo_sends o'(2) show ?thesis by simp
qed

text \<open>
  C19.  Dispatch by ticker loses nothing: draining any sequence of updates takes every registered book to the
  state that it reaches by applying the whole sequence to it alone, whatever the strategies do.
\<close>

theorem books_see_whole_feed:
  assumes "engine_ok live e" and "drainMarketUpdates ops fops pops us (e, r) = Some (e', r')" and "i < length (te_tickers e)"
  shows "book_run pops us (tb_book (te_tickers e ! i)) = Some (tb_book (te_tickers e' ! i))"
  using drain_books [OF assms(2) engine_ok_registry [OF assms(1)] assms(3)] by simp

theorem books_see_whole_feed_witness:
  "\<exists>e' r'. drainMarketUpdates LiquidityTaker_ops TradingFeatures_ops (first_free 4) session (demo_engine, StrategyRunResult_init) = Some (e', r') \<and>
    book_run (first_free 4) session (tb_book (te_tickers demo_engine ! 0)) = Some (tb_book (te_tickers e' ! 0))"
proof -
  have "drainMarketUpdates LiquidityTaker_ops TradingFeatures_ops (first_free 4) session (demo_engine, StrategyRunResult_init) \<noteq> None" by code_simp
  then obtain e' r' where run: "drainMarketUpdates LiquidityTaker_ops TradingFeatures_ops (first_free 4) session (demo_engine, StrategyRunResult_init) = Some (e', r')"
    by auto
  have "length (te_tickers demo_engine) = 1" by code_simp
  with books_see_whole_feed [OF demo_engine_ok run, of 0] run show ?thesis by simp
qed

text \<open>
  C25.  No order leaves during a snapshot: from SNAPSHOT_START on, until SNAPSHOT_END arrives, no update of the
  sequence makes any strategy send a request or draw an id.
\<close>

theorem snapshot_silences:
  assumes ok: "engine_ok live e" and u: "mu_type u = SNAPSHOT_START" and us: "\<forall>v \<in> set us. mu_type v \<noteq> SNAPSHOT_END"
    and run: "drainMarketUpdates ops fops pops (u # us) (e, r) = Some (e', r')"
  shows "te_requests e' = te_requests e \<and> te_allocator e' = te_allocator e \<and> rr_orders_submitted r' = rr_orders_submitted r"
proof -
  have reg: "registry_ok e" by (rule engine_ok_registry [OF ok])
  from run obtain e1 r1 where 1: "handleMarketUpdate ops fops pops u (e, r) = Some (e1, r1)"
    and 2: "drainMarketUpdates ops fops pops us (e1, r1) = Some (e', r')" by (auto simp: drain_Cons bind_eq_Some_conv)
  have q: "quiet (e, r) (e1, r1)" "all_in_snapshot e1" using market_update_quiet [OF 1 reg] u by (simp_all add: loading_def)
  have "quiet (e1, r1) (e', r')"
    by (rule drain_quiet [OF 2 market_update_registry(1) [OF 1 reg] q(2)]) (use us in auto)
  with q(1) show ?thesis by (simp add: quiet_def)
qed

theorem snapshot_silences_witness:
  "\<exists>e' r'. drainMarketUpdates LiquidityTaker_ops TradingFeatures_ops (first_free 4)
      (upd SNAPSHOT_START BUY 0 0 0 0 # session) (demo_engine, StrategyRunResult_init) = Some (e', r') \<and>
    te_requests e' = te_requests demo_engine \<and> rr_orders_submitted r' = 0"
proof -
  have "drainMarketUpdates LiquidityTaker_ops TradingFeatures_ops (first_free 4)
      (upd SNAPSHOT_START BUY 0 0 0 0 # session) (demo_engine, StrategyRunResult_init) \<noteq> None" by code_simp
  then obtain e' r' where run: "drainMarketUpdates LiquidityTaker_ops TradingFeatures_ops (first_free 4)
      (upd SNAPSHOT_START BUY 0 0 0 0 # session) (demo_engine, StrategyRunResult_init) = Some (e', r')" by auto
  have "\<forall>v \<in> set session. mu_type v \<noteq> SNAPSHOT_END" by code_simp
  from snapshot_silences [OF demo_engine_ok _ this run] run show ?thesis by (simp add: upd_def StrategyRunResult_init_def)
qed

end
