(* ===== verification/Main_Properties.thy ===== *)
theory Main_Properties
  imports Main_Config Engine_Properties
begin

text \<open>
  Correctness of the start of the program: the command line reaches the configuration unchanged, and the
  condition under which the engine comes up.
\<close>

subsection \<open>Decimal numbers\<close>

definition digit :: "nat \<Rightarrow> char" where
  "digit d = char_of (48 + d)"

fun show_nat :: "nat \<Rightarrow> string" where
  "show_nat n = (if n < 10 then [digit n] else show_nat (n div 10) @ [digit (n mod 10)])"

declare show_nat.simps [simp del]

definition show_int :: "int \<Rightarrow> string" where
  "show_int n = (if n < 0 then CHR ''-'' # show_nat (nat (- n)) else show_nat (nat n))"

lemma of_char_digit: "d < 10 \<Longrightarrow> of_char (digit d) = (48 + of_nat d :: 'a :: linordered_euclidean_semiring_bit_operations)"
proof -
  assume "d < 10"
  then have "(of_char (digit d) :: nat) = 48 + d" by (simp add: digit_def)
  moreover have "(of_char (digit d) :: 'a) = of_nat (of_char (digit d) :: nat)" by (simp only: of_nat_of_char)
  ultimately show ?thesis by simp
qed

lemma digit_simps: "d < 10 \<Longrightarrow> isdigit (digit d) \<and> digit_value (digit d) = int d"
  using of_char_digit [of d, where 'a = nat] of_char_digit [of d, where 'a = int] by (simp add: isdigit_def digit_value_def)

lemma show_nat_digits: "list_all isdigit (show_nat n)"
  by (induction n rule: show_nat.induct) (subst show_nat.simps, simp add: digit_simps)

lemma show_nat_not_Nil: "show_nat n \<noteq> []"
  by (subst show_nat.simps) simp

lemma scan_snoc: "list_all isdigit cs \<Longrightarrow> isdigit c \<Longrightarrow> scan_digits acc (cs @ [c]) = 10 * scan_digits acc cs + digit_value c"
  by (induction cs arbitrary: acc) auto

lemma scan_show_nat: "scan_digits 0 (show_nat n) = int n"
proof (induction n rule: show_nat.induct)
  case (1 n)
  show ?case
  proof (cases "n < 10")
    case True
    then show ?thesis by (subst show_nat.simps) (simp add: digit_simps)
  next
    case False
    with 1 have "scan_digits 0 (show_nat (n div 10) @ [digit (n mod 10)]) = 10 * int (n div 10) + int (n mod 10)"
      by (simp add: scan_snoc show_nat_digits digit_simps)
    also have "\<dots> = int n" by presburger
    finally show ?thesis using False by (subst show_nat.simps) simp
  qed
qed

lemma digit_first: "isdigit c \<Longrightarrow> \<not> isspace c \<and> c \<noteq> CHR ''-'' \<and> c \<noteq> CHR ''+''"
  by (auto simp: isdigit_def isspace_def)

lemma scan_show_int: "scan_number (show_int n) = n"
proof (cases "n < 0")
  case True
  have "\<not> isspace (CHR ''-'')" by (simp add: isspace_def)
  with True show ?thesis by (simp add: scan_number_def show_int_def scan_show_nat)
next
  case False
  obtain c cs where c: "show_nat (nat n) = c # cs" using show_nat_not_Nil [of "nat n"] by (cases "show_nat (nat n)") auto
  then have "isdigit c" using show_nat_digits [of "nat n"] by simp
  with digit_first [OF this] c False scan_show_nat [of "nat n"] show ?thesis by (simp add: scan_number_def show_int_def)
qed

lemma atoi_show: "atoi (show_int (sint v)) = Some v"
  using sint_ge [of v] sint_lt [of v] by (simp add: atoi_def scan_show_int)

lemma atoll_show: "atoll (show_int (sint v)) = Some v"
  using sint_ge [of v] sint_lt [of v] by (simp add: atoll_def scan_show_int)

subsection \<open>The command line of a configuration\<close>

definition int_option :: "string \<Rightarrow> 'a :: len word \<Rightarrow> string list" where
  "int_option name v = [name, show_int (sint v)]"

definition render :: "Config \<Rightarrow> string list" where
  "render c = [''--gateway-ip'', gateway_ip c] @ int_option ''--gateway-port'' (gateway_port c) @ [''--mcast-iface'', mcast_iface c] @
     [''--snapshot-ip'', snapshot_ip c] @ int_option ''--snapshot-port'' (snapshot_port c) @
     [''--incremental-ip'', incremental_ip c] @ int_option ''--incremental-port'' (incremental_port c) @
     int_option ''--receive-port'' (receive_port c) @ int_option ''--position-limit'' (max_abs_position (limits c)) @
     int_option ''--order-limit'' (max_order_qty (limits c)) @ int_option ''--notional-limit'' (max_order_notional (limits c)) @
     int_option ''--ioc-qty'' (sc_order_qty (signal c)) @ int_option ''--imbalance'' (sc_entry_imbalance (signal c)) @
     int_option ''--core-consumer'' (core_consumer c) @ int_option ''--core-engine'' (core_engine c) @
     int_option ''--core-gateway'' (core_gateway c) @ concat (map (int_option ''--ticker'') (tickers c))"

lemma option_actions:
  "option_action ''--gateway-ip'' = Some (\<lambda>v cfg. Some (cfg\<lparr>gateway_ip := v\<rparr>))"
  "option_action ''--gateway-port'' = Some (\<lambda>v cfg. map_option (\<lambda>n. cfg\<lparr>gateway_port := n\<rparr>) (atoi v))"
  "option_action ''--mcast-iface'' = Some (\<lambda>v cfg. Some (cfg\<lparr>mcast_iface := v\<rparr>))"
  "option_action ''--snapshot-ip'' = Some (\<lambda>v cfg. Some (cfg\<lparr>snapshot_ip := v\<rparr>))"
  "option_action ''--snapshot-port'' = Some (\<lambda>v cfg. map_option (\<lambda>n. cfg\<lparr>snapshot_port := n\<rparr>) (atoi v))"
  "option_action ''--incremental-ip'' = Some (\<lambda>v cfg. Some (cfg\<lparr>incremental_ip := v\<rparr>))"
  "option_action ''--incremental-port'' = Some (\<lambda>v cfg. map_option (\<lambda>n. cfg\<lparr>incremental_port := n\<rparr>) (atoi v))"
  "option_action ''--receive-port'' = Some (\<lambda>v cfg. map_option (\<lambda>n. cfg\<lparr>receive_port := n\<rparr>) (atoi v))"
  "option_action ''--ticker'' = Some (\<lambda>v cfg. map_option (\<lambda>n. cfg\<lparr>tickers := tickers cfg @ [n]\<rparr>) (atoi v))"
  "option_action ''--position-limit'' = Some (\<lambda>v cfg. map_option (\<lambda>n. cfg\<lparr>limits := (limits cfg)\<lparr>max_abs_position := n\<rparr>\<rparr>) (atoll v))"
  "option_action ''--order-limit'' = Some (\<lambda>v cfg. map_option (\<lambda>n. cfg\<lparr>limits := (limits cfg)\<lparr>max_order_qty := n\<rparr>\<rparr>) (atoi v))"
  "option_action ''--notional-limit'' = Some (\<lambda>v cfg. map_option (\<lambda>n. cfg\<lparr>limits := (limits cfg)\<lparr>max_order_notional := n\<rparr>\<rparr>) (atoll v))"
  "option_action ''--ioc-qty'' = Some (\<lambda>v cfg. map_option (\<lambda>n. cfg\<lparr>signal := (signal cfg)\<lparr>sc_order_qty := n\<rparr>\<rparr>) (atoi v))"
  "option_action ''--imbalance'' = Some (\<lambda>v cfg. map_option (\<lambda>n. cfg\<lparr>signal := (signal cfg)\<lparr>sc_entry_imbalance := n\<rparr>\<rparr>) (atoi v))"
  "option_action ''--core-consumer'' = Some (\<lambda>v cfg. map_option (\<lambda>n. cfg\<lparr>core_consumer := n\<rparr>) (atoi v))"
  "option_action ''--core-engine'' = Some (\<lambda>v cfg. map_option (\<lambda>n. cfg\<lparr>core_engine := n\<rparr>) (atoi v))"
  "option_action ''--core-gateway'' = Some (\<lambda>v cfg. map_option (\<lambda>n. cfg\<lparr>core_gateway := n\<rparr>) (atoi v))"
  by (simp_all add: option_action_def)

lemma parse_tickers:
  "parseArgs (concat (map (int_option ''--ticker'') ts)) cfg = Parsed (cfg\<lparr>tickers := tickers cfg @ ts\<rparr>)"
  by (induction ts arbitrary: cfg) (simp_all add: int_option_def option_actions atoi_show)

subsection \<open>Registration\<close>

text \<open>The engine after some registrations: every table of slot 0 holds the same tickers.\<close>

definition registered :: "TickerId list \<Rightarrow> 'p main_engine \<Rightarrow> bool" where
  "registered ts e \<longleftrightarrow> te_MaxSlots e = 4 \<and> te_MaxTickers e = 16 \<and> slotCount e = 1 \<and> map tb_ticker_id (te_tickers e) = ts \<and>
     map en_ticker_id (sl_entries (te_slots e ! 0)) = ts \<and>
     map Pnl_Tracker.en_ticker_id (pt_entries (sl_pnl (te_slots e ! 0))) = ts \<and> pt_MaxTickers (sl_pnl (te_slots e ! 0)) = 16 \<and>
     map tl_ticker_id (rm_tickers (sl_risk (te_slots e ! 0))) = ts \<and> rm_MaxTickers (sl_risk (te_slots e ! 0)) = 16"

definition limits_ok :: "RiskLimits \<Rightarrow> bool" where
  "limits_ok lim \<longleftrightarrow> 0 \<le> sint (max_abs_position lim) \<and> 0 \<le> sint (max_order_notional lim)"


lemma find_key_None: "find_index (\<lambda>x. k x = t) xs = None \<longleftrightarrow> t \<notin> set (map k xs)"
  by (auto simp: find_index_None)

lemma register_refused:
  assumes r: "registered ts e" and no: "t \<in> set ts \<or> length ts = 16 \<or> \<not> limits_ok lim"
  shows "\<not> fst (engine_registerTicker TradingFeatures_ops 0 t lim e)"
proof -
  have ent: "length (sl_entries (te_slots e ! 0)) = length ts" using r by (metis registered_def length_map)
  have lim: "\<not> fst (risk_registerTicker t lim rk)" if "\<not> limits_ok lim" for rk
    using that by (auto simp: risk_registerTicker_def limits_ok_def)
  show ?thesis
  proof (cases "t \<in> set ts \<or> length ts = 16")
    case True
    moreover have "findEntry (te_slots e ! 0) t \<noteq> None \<longleftrightarrow> t \<in> set ts" "te_MaxTickers e = 16"
      using r by (simp_all add: findEntry_def find_key_None registered_def del: set_map)
    ultimately show ?thesis using ent by (auto simp: engine_registerTicker_def Let_def)
  next
    case False
    with no lim show ?thesis
      by (auto simp: engine_registerTicker_def Let_def case_prod_unfold split: option.split)
  qed
qed

lemma find_created:
  assumes "registered ts e" and "t \<notin> set ts" and "length ts < 16"
  shows "findOrCreateTicker t e = (Some (length ts), e\<lparr>te_tickers := te_tickers e @
    [\<lparr>tb_ticker_id = t, tb_book = MarketOrderBook_init t (te_book_pool e)\<rparr>]\<rparr>)"
proof -
  have "length (te_tickers e) = length ts" "engine_findTicker e t = None"
    using assms by (auto simp: registered_def engine_findTicker_def find_key_None)
  with assms show ?thesis by (simp add: findOrCreateTicker_def registered_def)
qed

lemma register_accepted:
  assumes r: "registered ts e" and t: "t \<notin> set ts" "length ts < 16" "limits_ok lim"
  shows "\<exists>e'. engine_registerTicker TradingFeatures_ops 0 t lim e = (True, e') \<and> registered (ts @ [t]) e'"
proof -
  let ?s = "te_slots e ! 0"
  have len: "length (sl_entries ?s) = length ts" "length (pt_entries (sl_pnl ?s)) = length ts" "length (rm_tickers (sl_risk ?s)) = length ts"
    using r by (metis registered_def length_map)+
  have "findEntry ?s t = None" using r t by (simp add: registered_def findEntry_def find_key_None)
  moreover have "pnl_registerTicker t (sl_pnl ?s) =
      (True, (sl_pnl ?s)\<lparr>pt_entries := pt_entries (sl_pnl ?s) @ [\<lparr>Pnl_Tracker.Entry.en_ticker_id = t, en_position = Position_init\<rparr>]\<rparr>)"
    using r t len by (simp add: registered_def pnl_registerTicker_def pnl_get_def pnl_index_def find_key_None)
  moreover have "risk_registerTicker t lim (sl_risk ?s) =
      (True, (sl_risk ?s)\<lparr>rm_tickers := rm_tickers (sl_risk ?s) @ [\<lparr>tl_ticker_id = t, tl_limits = lim\<rparr>]\<rparr>)"
    using r t len by (simp add: registered_def risk_registerTicker_def findTicker_def find_key_None limits_ok_def)
  ultimately show ?thesis
    using r t len find_created [OF r t(1,2)]
    by (simp add: engine_registerTicker_def registered_def slotCount_def put_slot_def Let_def)
qed

lemma registerAll_iff:
  "registered ts e \<Longrightarrow> length ts \<le> 16 \<Longrightarrow> registerAll us lim e \<noteq> None \<longleftrightarrow>
    distinct us \<and> set us \<inter> set ts = {} \<and> length ts + length us \<le> 16 \<and> (us = [] \<or> limits_ok lim)"
proof (induction us arbitrary: ts e)
  case (Cons t us)
  show ?case
  proof (cases "t \<notin> set ts \<and> length ts < 16 \<and> limits_ok lim")
    case True
    from register_accepted [OF Cons.prems(1), of t lim] True obtain e' where
      e': "engine_registerTicker TradingFeatures_ops 0 t lim e = (True, e')" "registered (ts @ [t]) e'" by auto
    with Cons.IH [OF e'(2)] True show ?thesis by auto
  next
    case False
    with register_refused [OF Cons.prems(1), of t lim] Cons.prems(2) have "\<not> fst (engine_registerTicker TradingFeatures_ops 0 t lim e)" by auto
    with False Cons.prems(2) show ?thesis by (auto simp: case_prod_unfold)
  qed
qed simp

lemma new_engine_registered: "registered [] (new_engine cfg requests pool)"
  by (simp add: registered_def new_engine_def TradeEngine_init_def slotCount_def new_slot_def PnLTracker_init_def RiskManager_init_def)

lemma wait_synced_iff: "wait_synced n sync stop i \<longleftrightarrow> (\<exists>k \<in> {i..<i + n}. sync k \<and> (\<forall>j \<in> {i..k}. \<not> stop j))"
proof (induction n arbitrary: i)
  case (Suc n)
  have split: "{i..<i + Suc n} = insert i {Suc i..<Suc i + n}" by auto
  have tail: "{i..k} = insert i {Suc i..k}" if "k \<in> {Suc i..<Suc i + n}" for k using that by auto
  show ?case using Suc.IH [of "Suc i"] unfolding split by (auto simp: tail)
qed simp

text \<open>One option and its value, in front of the rest of the arguments.\<close>

lemma parse_int:
  "option_action name = Some (\<lambda>v cfg. map_option (f cfg) (atoi v)) \<Longrightarrow>
    parseArgs (int_option name v @ rest) cfg = parseArgs rest (f cfg v)"
  "option_action name = Some (\<lambda>v cfg. map_option (f' cfg) (atoll v)) \<Longrightarrow>
    parseArgs (int_option name v' @ rest) cfg = parseArgs rest (f' cfg v')"
  by (simp_all add: int_option_def atoi_show atoll_show)

subsection \<open>Properties\<close>

text \<open>
  C38.  The command line reaches the configuration: parsing the arguments that spell out a configuration gives that
  configuration in every field, every integer read back exactly over its whole range, except that the tickers
  come behind the default ticker 1, which no argument removes.
\<close>

theorem parse_render_roundtrip:
  "parseArgs (render c) Config_init = Parsed (c\<lparr>tickers := 1 # tickers c\<rparr>)"
  by (cases c, cases "limits c", cases "signal c")
    (simp add: render_def parse_int option_actions parse_tickers Config_init_def)

text \<open>
  C39.  When the program runs: it gets past the registration exactly if the command line parses, the tickers of the
  configuration are pairwise distinct and at most 16, and the position and notional limits are not negative.  In
  every other case it exits before any thread is started.
\<close>

theorem main_runs_iff:
  "(\<exists>e. main_start args requests pool = Running cfg e) \<longleftrightarrow>
    parseArgs args Config_init = Parsed cfg \<and> distinct (tickers cfg) \<and> length (tickers cfg) \<le> 16 \<and>
    (tickers cfg = [] \<or> limits_ok (limits cfg))"
  using registerAll_iff [OF new_engine_registered, of "tickers cfg" "limits cfg" cfg requests pool]
  by (auto simp: main_start_def split: ParseOutcome.splits option.splits)

text \<open>
  The example of the README cannot start: it passes \<^verbatim>\<open>--ticker 1\<close>, which is appended to the default ticker 1, and the
  second registration of the same ticker is refused.
\<close>

theorem ticker_1_exits: "main_start [''--ticker'', ''1''] requests pool = Exit 1"
proof -
  have p: "parseArgs [''--ticker'', ''1''] Config_init = Parsed (Config_init\<lparr>tickers := [1, 1]\<rparr>)" by code_simp
  have "registerAll [1, 1] lim (new_engine cfg requests pool) = None" for lim cfg
    using registerAll_iff [OF new_engine_registered, of "[1, 1]" lim cfg requests pool] by auto
  with p show ?thesis by (simp add: main_start_def)
qed

end
