(* ===== verification/Byte_Streams.thy ===== *)
theory Byte_Streams
  imports Types "HOL-Library.Monad_Syntax"
begin

text \<open>
  The contract that both receive callbacks keep with the sockets: a callback consumes what it can of the buffer
  and leaves the rest, to which the socket appends the next bytes.  A callback that gives the same result on two
  pieces at once as on one after the other gives the same result however a stream is cut.
\<close>

fun feed_pieces :: "(byte list \<Rightarrow> 's \<Rightarrow> (byte list \<times> 's) option) \<Rightarrow> byte list list \<Rightarrow> byte list \<times> 's \<Rightarrow> (byte list \<times> 's) option" where
  "feed_pieces f [] x = Some x"
| "feed_pieces f (p # ps) x = Option.bind (f (fst x @ p) (snd x)) (feed_pieces f ps)"

locale piecewise =
  fixes callback :: "byte list \<Rightarrow> 's \<Rightarrow> (byte list \<times> 's) option"
  assumes two_pieces: "callback (xs @ ys) s = Option.bind (callback xs s) (\<lambda>(rest, s'). callback (rest @ ys) s')"
begin

lemma all_pieces: "feed_pieces callback (p # ps) (rest, s) = callback (rest @ concat (p # ps)) s"
proof (induction ps arbitrary: p rest s)
  case Nil
  have "feed_pieces callback [] = Some" by (rule ext) simp
  then show ?case by simp
next
  case (Cons q ps)
  have "feed_pieces callback (p # q # ps) (rest, s) = Option.bind (callback (rest @ p) s) (\<lambda>(r, s'). callback (r @ concat (q # ps)) s')"
    using Cons.IH by (auto split: Option.bind_splits simp del: concat.simps)
  also have "\<dots> = callback ((rest @ p) @ concat (q # ps)) s" by (rule two_pieces [symmetric])
  finally show ?case by simp
qed

lemma same_stream:
  assumes "concat (p # ps) = concat (q # qs)"
  shows "feed_pieces callback (p # ps) x = feed_pieces callback (q # qs) x"
  using all_pieces [of p ps "fst x" "snd x"] all_pieces [of q qs "fst x" "snd x"] assms by (simp del: feed_pieces.simps)

end

end
