(* ===== verification/Gateway_Properties.thy ===== *)
theory Gateway_Properties
  imports Order_Gateway Byte_Streams
begin

text \<open>
  Correctness of the order gateway: tokens carry the client order id there and back, every request becomes one
  message or fails an assertion whose condition is stated, and responses do not depend on how TCP cuts the stream.
\<close>

subsection \<open>Integers as bytes\<close>

lemma length_bytes_of [simp]: "length (bytes_of v) = 8"
  by (simp add: bytes_of_def)

lemma bytes_of_nth: "i < 8 \<Longrightarrow> bytes_of v ! i = ucast (drop_bit (8 * i) v)"
  by (simp add: bytes_of_def)

lemma bit_bytes_of: "i < 8 \<Longrightarrow> j < 8 \<Longrightarrow> bit (bytes_of v ! i) j \<longleftrightarrow> bit v (8 * i + j)"
  by (simp add: bytes_of_nth bit_simps)

lemma bit_of_bytes: "bit (of_bytes bs) n \<longleftrightarrow> n < 64 \<and> n div 8 < length bs \<and> bit (bs ! (n div 8)) (n mod 8)"
proof (induction bs arbitrary: n)
  case (Cons b bs)
  show ?case
  proof (cases "n < 8")
    case True
    then show ?thesis by (auto simp: bit_simps)
  next
    case False
    then have "n div 8 = Suc ((n - 8) div 8)" "n mod 8 = (n - 8) mod 8" by (simp_all add: le_div_geq le_mod_geq)
    moreover have "\<not> bit b n" using False by (auto dest: bit_imp_le_length)
    ultimately show ?thesis using False Cons.IH [of "n - 8"] by (auto simp: bit_simps)
  qed
qed simp

lemma of_bytes_of: "of_bytes (bytes_of v) = v"
proof (rule bit_word_eqI)
  fix n
  assume "n < LENGTH(64)"
  moreover from this have "n div 8 < 8" by (simp add: less_mult_imp_div_less)
  ultimately show "bit (of_bytes (bytes_of v)) n = bit v n" by (simp add: bit_of_bytes bit_bytes_of)
qed

lemma bytes_of_of:
  assumes "length bs = 8"
  shows "bytes_of (of_bytes bs) = bs"
proof (rule nth_equalityI)
  fix i
  assume "i < length (bytes_of (of_bytes bs))"
  then have i: "i < 8" by simp
  show "bytes_of (of_bytes bs) ! i = bs ! i"
  proof (rule bit_word_eqI)
    fix j
    assume "j < LENGTH(8)"
    then have j: "j < 8" by simp
    then have "(8 * i + j) div 8 = i" "(8 * i + j) mod 8 = j" by simp_all
    with i j assms show "bit (bytes_of (of_bytes bs) ! i) j = bit (bs ! i) j" by (simp add: bit_bytes_of bit_of_bytes)
  qed
qed (simp add: assms)

text \<open>The byte swap that \<^verbatim>\<open>swap64\<close> is documented to be, for examples.\<close>

definition bswap64 :: "64 word \<Rightarrow> 64 word" where
  "bswap64 v = of_bytes (rev (bytes_of v))"

lemma bswap64_twice: "bswap64 (bswap64 v) = v"
  by (simp add: bswap64_def bytes_of_of of_bytes_of)

definition swaps_back :: "OuchWire \<Rightarrow> bool" where
  "swaps_back w \<longleftrightarrow> (\<forall>v. ow_swap64 w (ow_swap64 w v) = v)"

lemma token_id: "swaps_back w \<Longrightarrow> parseToken w (makeToken w i) = i"
  by (simp add: parseToken_def makeToken_def of_bytes_of toWire64_def swaps_back_def)

subsection \<open>Requests\<close>

text \<open>The requests that pass the assertions, and the message each becomes.\<close>

definition sendable :: "OrderRequest \<Rightarrow> bool" where
  "sendable req \<longleftrightarrow> (case rq_type req of
     RQ_NEW \<Rightarrow> rq_ticker_id req \<noteq> TickerId_INVALID \<and> 0 \<le> sint (rq_price req)
   | RQ_CANCEL \<Rightarrow> True
   | RQ_REPLACE \<Rightarrow> rq_new_client_order_id req \<noteq> 0 \<and> 0 \<le> sint (rq_price req))"

definition token_of :: "OuchMessage \<Rightarrow> byte list" where
  "token_of msg = (case msg of ENTER_ORDER m \<Rightarrow> eo_order_token m | CANCEL_ORDER m \<Rightarrow> co_order_token m | REPLACE_ORDER m \<Rightarrow> ro_existing_order_token m)"

definition kind_of :: "OuchMessage \<Rightarrow> OrderRequestType" where
  "kind_of msg = (case msg of ENTER_ORDER m \<Rightarrow> RQ_NEW | CANCEL_ORDER m \<Rightarrow> RQ_CANCEL | REPLACE_ORDER m \<Rightarrow> RQ_REPLACE)"

definition shares_of :: "OuchMessage \<Rightarrow> 32 word" where
  "shares_of msg = (case msg of ENTER_ORDER m \<Rightarrow> eo_shares m | CANCEL_ORDER m \<Rightarrow> co_shares m | REPLACE_ORDER m \<Rightarrow> ro_shares m)"

definition announces :: "OuchWire \<Rightarrow> OrderRequest \<Rightarrow> OuchMessage \<Rightarrow> bool" where
  "announces w req msg \<longleftrightarrow> kind_of msg = rq_type req \<and> token_of msg = makeToken w (rq_client_order_id req) \<and> shares_of msg = toWire32 w (rq_qty req)"

lemmas message_defs = announces_def kind_of_def token_of_def shares_of_def
lemmas send_defs = dispatch_def sendEnter_def gw_sendCancel_def gw_sendReplace_def tcp_send_def

lemma dispatch_None: "dispatch w req gw = None \<longleftrightarrow> \<not> sendable req"
  by (auto simp: send_defs sendable_def split: OrderRequestType.split)

lemma dispatch_Some:
  assumes "sendable req"
  shows "\<exists>msg. dispatch w req gw = Some (gw\<lparr>gw_sent := gw_sent gw @ [msg]\<rparr>) \<and> announces w req msg"
  using assms by (cases "rq_type req") (auto simp: send_defs sendable_def message_defs)

lemma drain_sendable:
  "\<forall>req \<in> set reqs. sendable req \<Longrightarrow>
    \<exists>msgs. drainRequests w reqs gw = Some (gw\<lparr>gw_sent := gw_sent gw @ msgs\<rparr>) \<and> list_all2 (announces w) reqs msgs"
proof (induction reqs arbitrary: gw)
  case Nil
  have "gw\<lparr>gw_sent := gw_sent gw @ []\<rparr> = gw" by (cases gw) simp
  then show ?case by (intro exI [of _ "[]"]) (simp del: append_Nil2)
next
  case (Cons req reqs)
  from dispatch_Some [of req w gw] Cons.prems obtain msg where
    m: "dispatch w req gw = Some (gw\<lparr>gw_sent := gw_sent gw @ [msg]\<rparr>)" "announces w req msg" by auto
  from Cons.IH [of "gw\<lparr>gw_sent := gw_sent gw @ [msg]\<rparr>"] Cons.prems obtain msgs where
    "drainRequests w reqs (gw\<lparr>gw_sent := gw_sent gw @ [msg]\<rparr>) = Some (gw\<lparr>gw_sent := gw_sent gw @ msg # msgs\<rparr>)"
    "list_all2 (announces w) reqs msgs" by auto
  with m show ?case by (intro exI [of _ "msg # msgs"]) simp
qed

subsection \<open>Responses\<close>

lemma response_loop_append:
  "response_loop w (xs @ ys) gw = (let (rest, gw') = response_loop w xs gw in response_loop w (rest @ ys) gw')"
proof (induction "length xs" arbitrary: xs gw rule: less_induct)
  case less
  show ?case
  proof (cases xs)
    case Nil
    then show ?thesis by (simp add: response_loop.simps [of w "[]"])
  next
    case (Cons b bs)
    consider "messageSize w b = 0" | "messageSize w b \<noteq> 0" "length xs < messageSize w b"
      | "messageSize w b \<noteq> 0" "messageSize w b \<le> length xs" by linarith
    then show ?thesis
    proof cases
      case 1
      have "length (drop 1 xs) < length xs" using Cons by simp
      note IH = less [OF this, of gw]
      have "response_loop w (xs @ ys) gw = response_loop w (drop 1 xs @ ys) gw" "response_loop w xs gw = response_loop w (drop 1 xs) gw"
        using 1 Cons by (subst response_loop.simps, simp)+
      with IH show ?thesis by simp
    next
      case 2
      with Cons have "response_loop w xs gw = (xs, gw)" by (subst response_loop.simps) simp
      then show ?thesis by simp
    next
      case 3
      let ?n = "messageSize w b"
      let ?gw = "gw\<lparr>gw_incoming := snd (push (parse_response w (the (ow_type w b)) (take ?n xs)) (gw_incoming gw))\<rparr>"
      have "length (drop ?n xs) < length xs" using 3 Cons by simp
      note IH = less [OF this, of ?gw]
      have t: "take ?n (b # bs @ ys) = take ?n (b # bs)" "drop ?n (b # bs @ ys) = drop ?n (b # bs) @ ys"
        using 3 Cons by (cases ?n, simp_all)+
      have "response_loop w (xs @ ys) gw = response_loop w (drop ?n xs @ ys) ?gw"
        using 3 Cons by (subst response_loop.simps) (simp add: Let_def t)
      moreover have "response_loop w xs gw = response_loop w (drop ?n xs) ?gw"
        using 3 Cons by (subst response_loop.simps) (simp add: Let_def)
      ultimately show ?thesis using IH by simp
    qed
  qed
qed

interpretation ouch: piecewise "\<lambda>data gw. Some (gw_recvCallback w data gw)" for w
  by unfold_locales (subst gw_recvCallback_def, subst response_loop_append, simp add: gw_recvCallback_def case_prod_unfold Let_def)

subsection \<open>A concrete wire format\<close>

text \<open>For closed examples: 32 bytes per response, tag, token, reference, side, price, shares.\<close>

definition bswap32 :: "32 word \<Rightarrow> 32 word" where
  "bswap32 v = ucast (drop_bit 32 (bswap64 (ucast v)))"

definition small_ouch :: OuchWire where
  "small_ouch = \<lparr>ow_swap32 = bswap32, ow_swap64 = bswap64,
     ow_type = (\<lambda>b. if b = 0x41 then Some ORDER_ACCEPTED else if b = 0x45 then Some OUCH_EXECUTED else if b = 0x43 then Some ORDER_CANCELED
       else if b = 0x55 then Some OUCH_REPLACED else if b = 0x49 then Some OUCH_CANCEL_REJECTED else None),
     ow_sizeof = (\<lambda>t. 32), ow_token = (\<lambda>t m. take 14 (drop 1 m)), ow_ref = (\<lambda>t m. of_bytes (take 8 (drop 15 m))),
     ow_side = (\<lambda>t m. if m ! 23 = 0x42 then BUY else SELL), ow_price = (\<lambda>t m. ucast (of_bytes (take 4 (drop 24 m)))),
     ow_shares = (\<lambda>t m. ucast (of_bytes (take 4 (drop 28 m))))\<rparr>"

lemma small_ouch_swaps: "swaps_back small_ouch"
  by (simp add: swaps_back_def small_ouch_def bswap64_twice)

definition demo_request :: OrderRequest where
  "demo_request = \<lparr>rq_type = RQ_NEW, rq_client_order_id = 1, rq_new_client_order_id = 0, rq_ticker_id = 7, rq_side = BUY,
     rq_price = 104, rq_qty = 10, rq_ioc = True\<rparr>"

subsection \<open>Properties\<close>

text \<open>
  A token carries the client order id to the exchange and back: for every id, parsing the token that was
  made for it gives the id, and the token fills its 14 bytes.  The byte swap of the protocol library is assumed
  to undo itself.
\<close>

theorem token_roundtrip:
  assumes "swaps_back w"
  shows "parseToken w (makeToken w i) = i \<and> length (makeToken w i) = 14"
  using token_id [OF assms] by (simp add: makeToken_def)

theorem token_roundtrip_witness: "parseToken small_ouch (makeToken small_ouch 0x3000000000005) = 0x3000000000005"
  using token_roundtrip [OF small_ouch_swaps, of "0x3000000000005"] by simp

text \<open>
  C27.  The segments in which TCP delivers the session do not matter: callbacks on successive segments, each behind
  what the last one left, end in the state of one callback on all the bytes, the same responses pushed in the
  same order and the same incomplete message kept.
\<close>

theorem responses_ignore_segmentation:
  "feed_pieces (\<lambda>data gw. Some (gw_recvCallback w data gw)) (p # ps) (rest, gw) = Some (gw_recvCallback w (rest @ concat (p # ps)) gw)"
  by (rule ouch.all_pieces)

text \<open>
  C29.  Every request becomes exactly one message: if all requests of the queue are well formed (a new order names a
  ticker and a non-negative price, a replacement a new id and a non-negative price), the loop sends one message
  per request in the order of the queue, of the right kind, under the token of the request's id and for its
  quantity.  If one of them is not, an assertion ends the process.
\<close>

theorem requests_become_messages:
  "if \<forall>req \<in> set reqs. sendable req
   then \<exists>msgs. drainRequests w reqs gw = Some (gw\<lparr>gw_sent := gw_sent gw @ msgs\<rparr>) \<and> list_all2 (announces w) reqs msgs
   else drainRequests w reqs gw = None"
proof -
  have "drainRequests w reqs gw = None" if "\<exists>req \<in> set reqs. \<not> sendable req"
    using that by (induction reqs arbitrary: gw) (auto simp: dispatch_None bind_eq_None_conv)
  with drain_sendable [of reqs w gw] show ?thesis by auto
qed

theorem requests_become_messages_witness:
  "\<exists>msgs. drainRequests small_ouch [demo_request] (OrderGateway_init roomy_queue) =
     Some ((OrderGateway_init roomy_queue)\<lparr>gw_sent := gw_sent (OrderGateway_init roomy_queue) @ msgs\<rparr>) \<and>
     list_all2 (announces small_ouch) [demo_request] msgs"
proof -
  have "\<forall>req \<in> set [demo_request]. sendable req" by (simp add: sendable_def demo_request_def TickerId_INVALID_def)
  with requests_become_messages [of "[demo_request]" small_ouch "OrderGateway_init roomy_queue"] show ?thesis by presburger
qed

end
