(* ===== verification/Request_Flow.thy ===== *)
theory Request_Flow
  imports Engine_Properties Gateway_Properties
begin

text \<open>
  What the trade engine hands to the order gateway: every request that a run of the engine pushes is a new order
  that passes the assertions of the gateway.
\<close>

definition good_queue :: "OrderRequest SPSCQueue \<Rightarrow> bool" where
  "good_queue q \<longleftrightarrow> (\<forall>rq \<in> set (q_pushed q). rq_type rq = RQ_NEW \<and> sendable rq)"

lemma accepted_sendable: "canSubmit r rq p = RISK_ACCEPTED \<Longrightarrow> rq_type rq = RQ_NEW \<and> sendable rq"
  by (auto simp: canSubmit_def sendable_def split: if_splits)

text \<open>
  The flow of requests out of an operation of a slot: it appends new orders that the gateway accepts, and the order
  manager counts each of them as sent.  The flow out of the engine is the sum over its slots.
\<close>

definition flow :: "slot_ctx \<Rightarrow> slot_ctx \<Rightarrow> bool" where
  "flow c c' \<longleftrightarrow> (\<exists>rqs. q_pushed (cx_outgoing c') = q_pushed (cx_outgoing c) @ rqs \<and>
     (\<forall>rq \<in> set rqs. rq_type rq = RQ_NEW \<and> sendable rq) \<and> om_new_orders (cx_om c') = om_new_orders (cx_om c) + length rqs)"

definition total_new :: "('s, 'f, 'p) TradeEngine \<Rightarrow> nat" where
  "total_new e = sum_list (map (\<lambda>sl. om_new_orders (sl_om sl)) (te_slots e))"

definition flows :: "('s, 'f, 'p) TradeEngine \<Rightarrow> ('s, 'f, 'p) TradeEngine \<Rightarrow> bool" where
  "flows e e' \<longleftrightarrow> slotCount e' = slotCount e \<and> te_has_gate e' = te_has_gate e \<and> (\<exists>rqs. q_pushed (te_requests e') = q_pushed (te_requests e) @ rqs \<and>
     (\<forall>rq \<in> set rqs. rq_type rq = RQ_NEW \<and> sendable rq) \<and> total_new e' = total_new e + length rqs)"

lemma flow_none: "cx_outgoing c' = cx_outgoing c \<Longrightarrow> om_new_orders (cx_om c') = om_new_orders (cx_om c) \<Longrightarrow> flow c c'"
  by (simp add: flow_def)

lemma flows_none: "slotCount e' = slotCount e \<Longrightarrow> te_has_gate e' = te_has_gate e \<Longrightarrow> te_requests e' = te_requests e \<Longrightarrow> total_new e' = total_new e \<Longrightarrow> flows e e'"
  by (simp add: flows_def)

lemma flows_refl [simp]: "flows e e"
  by (simp add: flows_none)

lemma flows_trans [trans]: "flows e e1 \<Longrightarrow> flows e1 e2 \<Longrightarrow> flows e e2"
  unfolding flows_def by fastforce

lemma flows_good: "flows e e' \<Longrightarrow> good_queue (te_requests e) \<Longrightarrow> good_queue (te_requests e')"
  by (auto simp: flows_def good_queue_def)

lemma flows_prefix: "flows e e' \<Longrightarrow> \<exists>rqs. q_pushed (te_requests e') = q_pushed (te_requests e) @ rqs"
  by (auto simp: flows_def)

lemma flows_balance:
  "flows e e' \<Longrightarrow> length (q_pushed (te_requests e')) + total_new e = length (q_pushed (te_requests e)) + total_new e'"
  by (auto simp: flows_def)

subsection \<open>The operations of a slot\<close>

lemma new_order_flow:
  assumes "sendNewOrder RiskManager_ops rq pos c = (ok, c')"
  shows "flow c c'"
  using assms
proof (cases rule: sendNewOrder_cases)
  case (queue_full q)
  with push_False [OF queue_full(2)] show ?thesis by (simp add: flow_def)
next
  case (sent rq' q b r)
  then have acc: "canSubmit (cx_risk c) rq' pos = RISK_ACCEPTED" by (simp add: RiskManager_ops_def)
  have b: "b" using canSubmit_onSubmitted [OF acc] sent(5) by (simp add: RiskManager_ops_def)
  with sent(8) push_True [OF sent(4)] accepted_sendable [OF acc] show ?thesis
    by (simp add: flow_def notify_def)
qed (simp_all add: flow_none)

lemma evaluate_flow: "flow c (snd (snd (evaluate en book c s)))"
proof -
  obtain n s' c' where run: "evaluate en book c s = (n, s', c')" by (metis prod_cases3)
  then have "flow c c'" by (cases rule: evaluate_cases) (auto simp: flow_none intro: new_order_flow)
  with run show ?thesis by simp
qed

lemma hook_flow:
  "flow c (snd (snd (st_onTrade LiquidityTaker_ops en book u c s)))"
  "flow c (snd (snd (st_onBookUpdate LiquidityTaker_ops en book u c s)))"
  by (simp_all add: LiquidityTaker_ops_def lt_onTrade_def lt_onBookUpdate_def evaluate_flow)

lemma new_orders_frame [simp]:
  "om_new_orders (cx_om (put_order i o' c)) = om_new_orders (cx_om c)" "om_new_orders (cx_om (notify o2 c)) = om_new_orders (cx_om c)"
  by (simp_all add: put_order_def notify_def)

lemma response_flow:
  assumes "om_onOrderResponse ops rs c = (ok, c')"
  shows "flow c c'"
proof (rule flow_none)
  show "cx_outgoing c' = cx_outgoing c" using response_keeps_ids [OF assms] by simp
  show "om_new_orders (cx_om c') = om_new_orders (cx_om c)"
  proof (cases "om_find (cx_om c) (rs_client_order_id rs)")
    case None
    then show ?thesis using assms by (simp add: om_onOrderResponse_def Let_def)
  next
    case (Some i)
    obtain b r t where rr: "ro_onOrderResponse ops rs (cx_risk c) (cx_pnl c) = (b, r, t)" by (metis prod_cases3)
    show ?thesis using assms
      by (cases "rs_status rs") (auto simp: om_onOrderResponse_def Some rr Let_def fill_order_def split: if_splits bool.splits)
  qed
qed

subsection \<open>The engine\<close>

lemma total_put: "i < slotCount e \<Longrightarrow> total_new (put_slot i sl e) + om_new_orders (sl_om (te_slots e ! i)) = total_new e + om_new_orders (sl_om sl)"
proof -
  let ?f = "\<lambda>sl. om_new_orders (sl_om sl)"
  assume i: "i < slotCount e"
  then have "?f (te_slots e ! i) \<le> sum_list (map ?f (te_slots e))" by (auto simp: slotCount_def intro!: member_le_sum_list)
  with i show ?thesis by (simp add: total_new_def put_slot_def slotCount_def map_update sum_list_update)
qed

lemma close_flows:
  assumes "i < slotCount e" and "sl_om sl = sl_om (te_slots e ! i)" and "flow (open_slot sl e) c"
  shows "flows e (close_slot ops i sl' c e)"
proof -
  let ?sl = "sl'\<lparr>sl_om := cx_om c, sl_risk := cx_risk c, sl_pnl := cx_pnl c,
    sl_strategy := fold (st_onOrderUpdate ops) (cx_notified c) (sl_strategy sl')\<rparr>"
  have tot: "total_new (e\<lparr>te_requests := cx_outgoing c, te_allocator := cx_allocator c\<rparr>) = total_new e" by (simp add: total_new_def)
  have "total_new (close_slot ops i sl' c e) + om_new_orders (sl_om sl) = total_new e + om_new_orders (cx_om c)"
    using total_put [of i "e\<lparr>te_requests := cx_outgoing c, te_allocator := cx_allocator c\<rparr>" ?sl] assms(1,2) tot
    by (simp add: close_slot_def slotCount_def)
  moreover have "te_has_gate (close_slot ops i sl' c e) = te_has_gate e" by (simp add: close_slot_def put_slot_def)
  ultimately show ?thesis using assms(3) by (auto simp: flows_def flow_def open_slot_def)
qed

lemma put_flows: "i < slotCount e \<Longrightarrow> sl_om sl = sl_om (te_slots e ! i) \<Longrightarrow> flows e (put_slot i sl e)"
  using total_put [of i e sl] by (intro flows_none) (auto simp: put_slot_def slotCount_def)

lemma hook_close_flows:
  assumes "i < slotCount e" and "sl_om sl = sl_om (te_slots e ! i)"
  shows "flows e (close_slot ops i sl' (snd (snd (st_onTrade LiquidityTaker_ops en book u (open_slot sl e) s))) e)"
    and "flows e (close_slot ops i sl' (snd (snd (st_onBookUpdate LiquidityTaker_ops en book u (open_slot sl e) s))) e)"
  by (rule close_flows [OF assms hook_flow(1)], rule close_flows [OF assms hook_flow(2)])

lemma slot_update_flows:
  assumes "i < slotCount e"
  shows "flows e (fst (processSlotUpdate LiquidityTaker_ops fops t u sn i (e, r)))"
proof (cases "findEntry (te_slots e ! i) t")
  case (Some k)
  show ?thesis
    by (simp add: processSlotUpdate_def Some Let_def case_prod_unfold assms put_flows hook_close_flows)
qed (simp add: processSlotUpdate_def)

lemma slots_update_flows:
  "set is \<subseteq> {..<slotCount (fst x)} \<Longrightarrow> flows (fst x) (fst (fold (processSlotUpdate LiquidityTaker_ops fops t u sn) is x))"
proof (induction "is" arbitrary: x)
  case (Cons i "is")
  let ?x = "processSlotUpdate LiquidityTaker_ops fops t u sn i x"
  have 1: "flows (fst x) (fst ?x)" using slot_update_flows [of i "fst x" fops t u sn "snd x"] Cons.prems by simp
  then have "slotCount (fst ?x) = slotCount (fst x)" by (simp add: flows_def)
  with Cons.prems have "flows (fst ?x) (fst (fold (processSlotUpdate LiquidityTaker_ops fops t u sn) is ?x))"
    by (intro Cons.IH) simp
  from flows_trans [OF 1 this] show ?case by simp
qed simp

lemma book_update_flows:
  assumes "processBookUpdate LiquidityTaker_ops fops pops u i x = Some y"
  shows "flows (fst x) (fst y)"
proof -
  from assms obtain l where y: "y = fold (processSlotUpdate LiquidityTaker_ops fops (tb_ticker_id (te_tickers (fst x) ! i)) u (bk_in_snapshot l))
      [0..<slotCount (fst x)] ((fst x)\<lparr>te_tickers := (te_tickers (fst x))[i := (te_tickers (fst x) ! i)\<lparr>tb_book := l\<rparr>]\<rparr>, snd x)"
    by (auto simp: processBookUpdate_def Let_def case_prod_unfold bind_eq_Some_conv slotCount_def)
  let ?e = "(fst x)\<lparr>te_tickers := (te_tickers (fst x))[i := (te_tickers (fst x) ! i)\<lparr>tb_book := l\<rparr>]\<rparr>"
  have "flows (fst x) ?e" by (rule flows_none) (simp_all add: slotCount_def total_new_def)
  also have "flows ?e (fst y)"
    unfolding y using slots_update_flows [of "[0..<slotCount (fst x)]" "(?e, snd x)" fops _ u]
    by (simp add: slotCount_def atLeast0LessThan)
  finally show ?thesis .
qed

lemma books_update_flows:
  "fold (\<lambda>i z. Option.bind z (processBookUpdate LiquidityTaker_ops fops pops u i)) is (Some x) = Some y \<Longrightarrow> flows (fst x) (fst y)"
proof (induction "is" arbitrary: x)
  case (Cons i "is")
  have stuck: "fold (\<lambda>i z. Option.bind z (processBookUpdate LiquidityTaker_ops fops pops u i)) js None = None" for js
    by (induction js) simp_all
  with Cons.prems obtain x1 where x1: "processBookUpdate LiquidityTaker_ops fops pops u i x = Some x1"
    by (cases "processBookUpdate LiquidityTaker_ops fops pops u i x") simp_all
  with Cons.IH [of x1] Cons.prems show ?case by (auto intro: flows_trans [OF book_update_flows [OF x1]])
qed simp

lemma market_update_flows:
  assumes run: "handleMarketUpdate LiquidityTaker_ops fops pops u (e, r) = Some (e', r')"
  shows "flows e e'"
proof -
  let ?x = "(e, r\<lparr>rr_market_updates := rr_market_updates r + 1\<rparr>)"
  consider "(e', r') = ?x"
    | "fold (\<lambda>i z. Option.bind z (processBookUpdate LiquidityTaker_ops fops pops u i)) [0..<length (te_tickers e)] (Some ?x) = Some (e', r')"
    | i where "processBookUpdate LiquidityTaker_ops fops pops u i ?x = Some (e', r')"
    using run unfolding handleMarketUpdate_def Let_def by (auto split: if_splits option.splits)
  then show ?thesis
  proof cases
    case 2
    from books_update_flows [OF 2] show ?thesis by simp
  next
    case (3 i)
    from book_update_flows [OF 3] show ?thesis by simp
  qed simp
qed

lemma response_flows: "flows e (fst (handleResponse ops rs (e, r)))"
  by (simp add: handleResponse_def Let_def case_prod_unfold close_flows [OF _ refl response_flow [OF surjective_pairing]])

lemma drainResponses_flows: "flows (fst x) (fst (drainResponses ops rss x))"
proof (induction rss arbitrary: x)
  case (Cons rs rss)
  have "flows (fst x) (fst (handleResponse ops rs x))" using response_flows [of "fst x" ops rs "snd x"] by simp
  from flows_trans [OF this Cons.IH] show ?case by (simp add: drainResponses_def)
qed (simp add: drainResponses_def)

lemma drainUpdates_flows:
  "drainMarketUpdates LiquidityTaker_ops fops pops us x = Some y \<Longrightarrow> flows (fst x) (fst y)"
proof (induction us arbitrary: x)
  case (Cons u us)
  from Cons.prems obtain x1 where x1: "handleMarketUpdate LiquidityTaker_ops fops pops u (fst x, snd x) = Some x1"
    "drainMarketUpdates LiquidityTaker_ops fops pops us x1 = Some y"
    by (cases x) (auto simp: drain_Cons bind_eq_Some_conv)
  have "flows (fst x) (fst x1)" using market_update_flows [of fops pops u "fst x" "snd x" "fst x1" "snd x1"] x1(1) by simp
  from flows_trans [OF this Cons.IH [OF x1(2)]] show ?case .
qed (simp add: drainMarketUpdates_def)

lemma runOnce_flows:
  assumes "runOnce LiquidityTaker_ops fops pops rss us e = Some (e', r)"
  shows "flows e e'"
proof -
  let ?x = "drainResponses LiquidityTaker_ops rss (e, StrategyRunResult_init)"
  have "flows e (fst ?x)" using drainResponses_flows [of "(e, StrategyRunResult_init)" LiquidityTaker_ops rss] by simp
  also have "flows (fst ?x) e'" using drainUpdates_flows [of fops pops us ?x "(e', r)"] assms by (simp add: runOnce_def)
  finally show ?thesis .
qed

lemma register_requests: "te_requests (snd (engine_registerTicker fops i t l e)) = te_requests e"
  by (simp add: engine_registerTicker_def findOrCreateTicker_def Let_def case_prod_unfold split: option.split)

lemma setStrategy_requests: "te_requests (setStrategy i s e) = te_requests e"
  by (simp add: setStrategy_def)

lemma engine_step_good:
  assumes "engine_step pops e e'" and good: "good_queue (te_requests e)"
  shows "good_queue (te_requests e')"
  using assms(1)
proof cases
  case (es_update u r r')
  from flows_good [OF market_update_flows [OF es_update(3)] good] show ?thesis .
qed (use good flows_good [OF response_flows good] in \<open>simp_all add: register_requests setStrategy_requests\<close>)

lemma engine_steps_good: "(engine_step pops)\<^sup>*\<^sup>* e e' \<Longrightarrow> good_queue (te_requests e) \<Longrightarrow> good_queue (te_requests e')"
  by (induction rule: rtranclp_induct) (auto intro: engine_step_good)

lemma good_drain:
  "good_queue q \<Longrightarrow> \<exists>msgs. drainRequests w (q_pushed q) gw = Some (gw\<lparr>gw_sent := gw_sent gw @ msgs\<rparr>) \<and>
    list_all2 (announces w) (q_pushed q) msgs \<and> (\<forall>msg \<in> set msgs. kind_of msg = RQ_NEW)"
proof -
  assume good: "good_queue q"
  with drain_sendable [of "q_pushed q" w gw] obtain msgs where
    m: "drainRequests w (q_pushed q) gw = Some (gw\<lparr>gw_sent := gw_sent gw @ msgs\<rparr>)" "list_all2 (announces w) (q_pushed q) msgs"
    by (auto simp: good_queue_def)
  have "kind_of msg = RQ_NEW" if msg: "msg \<in> set msgs" for msg
  proof -
    from msg obtain k where k: "k < length msgs" "msgs ! k = msg" by (auto simp: in_set_conv_nth)
    with list_all2_nthD2 [OF m(2) k(1)] list_all2_lengthD [OF m(2)] good show ?thesis
      by (simp add: good_queue_def announces_def)
  qed
  with m show ?thesis by blast
qed

end
