(* ===== verification/Feed_Properties.thy ===== *)
theory Feed_Properties
  imports Market_Streams Byte_Streams
begin

text \<open>
  The properties of the market-data consumer: the stream it delivers has no gaps, it does not matter how the
  bytes are cut into datagrams, a replay completes, and two runs in which recovery goes wrong.
\<close>

subsection \<open>Runs\<close>

text \<open>The condition on a run: outside snapshots no frame carries a snapshot control code.\<close>

fun plain_run :: "growth \<Rightarrow> ItchWire \<Rightarrow> (byte list \<times> TcpEvent) list \<Rightarrow> byte list \<times> MarketDataConsumer \<Rightarrow> bool" where
  "plain_run g w [] x \<longleftrightarrow> True"
| "plain_run g w ((bytes, ev) # evs) x \<longleftrightarrow> no_control w (fst x @ bytes) \<and>
     (case recvCallback g w (fst x @ bytes) (snd x) of None \<Rightarrow> True | Some (rest, m) \<Rightarrow> tcp_plain w ev m) \<and>
     (case consumer_iteration g w bytes ev x of None \<Rightarrow> True | Some x' \<Rightarrow> plain_run g w evs x')"

lemma consumer_run_steps:
  "consumer_run g w evs x = Some x' \<Longrightarrow> plain_run g w evs x \<Longrightarrow> (consumer_step g w)\<^sup>*\<^sup>* x x'"
proof (induction g w evs x rule: consumer_run.induct)
  case (2 g w bytes ev evs x)
  from 2(2) obtain x1 where x1: "consumer_iteration g w bytes ev x = Some x1" "consumer_run g w evs x1 = Some x'"
    by (auto simp: bind_eq_Some_conv)
  have "(consumer_step g w)\<^sup>*\<^sup>* x x1" using 2(3) x1(1) by (intro iteration_steps) auto
  moreover have "(consumer_step g w)\<^sup>*\<^sup>* x1 x'" using 2(1) [OF x1(1) x1(2)] 2(3) x1(1) by simp
  ultimately show ?case by simp
qed simp

lemma consumer_start_ok: "q_pushed q = [] \<Longrightarrow> consumer_ok (consumer_start (MarketDataConsumer_init q))"
  by (simp add: consumer_start_def startSnapshot_ok MarketDataConsumer_init_def)

text \<open>What the receive loop leaves behind is too short for a tag or a frame that is not complete.\<close>

lemma recv_loop_rest:
  "recv_loop g w bytes m = Some y \<Longrightarrow>
    (\<exists>k. fst y = drop k bytes) \<and> (length (fst y) \<le> sizeof_SeqNum \<or> (\<exists>n. frame_size w (fst y) = Some n \<and> length (fst y) < n))"
proof (induction "length bytes" arbitrary: bytes m rule: less_induct)
  case less
  from less.prems show ?case
  proof (cases rule: recv_loop_cases)
    case short
    then show ?thesis by (auto intro: exI [of _ 0])
  next
    case magic
    have "length (drop kRegistrationMagicLen bytes) < length bytes" using magic(1) by (simp add: kRegistrationMagicLen_def sizeof_SeqNum_def)
    from less.hyps [OF this magic(3)] show ?thesis by (auto simp: drop_drop)
  next
    case (frame u d m1)
    have "length (drop (sizeof_SeqNum + de_last_size d) bytes) < length bytes" using frame(1) by (simp add: sizeof_SeqNum_def)
    from less.hyps [OF this frame(5)] show ?thesis by (auto simp: drop_drop)
  next
    case (wait d)
    then have "\<exists>n. frame_size w bytes = Some n \<and> length bytes < n"
      by (auto simp: decode_def frame_size_def Let_def dest: message_keeps_flags split: if_splits option.splits)
    with wait(5) show ?thesis by (auto intro: exI [of _ 0])
  next
    case (skip d)
    have "length (drop 1 bytes) < length bytes" using skip(1) by simp
    from less.hyps [OF this skip(5)] show ?thesis by (auto simp: drop_drop)
  qed
qed

subsection \<open>Example data\<close>

text \<open>The small wire with control codes: both bytes of the locate are the byte sent.\<close>

definition feed_wire :: ItchWire where
  "feed_wire = small_wire\<lparr>iw_locate := (\<lambda>mt m. ucast (m ! 1) * 0x101)\<rparr>"

definition frame_of :: "byte \<Rightarrow> byte list \<Rightarrow> byte list" where
  "frame_of s msg = [0, 0, 0, 0, 0, 0, 0, s] @ msg"

definition add_of :: "byte \<Rightarrow> byte list" where
  "add_of ref = [0x41, 7, ref, 0, 10, 100, 0x42]"

definition exec_of :: "byte \<Rightarrow> byte list" where
  "exec_of ref = [0x45, 7, ref, 0, 4, 0, 0]"

text \<open>A snapshot without orders, taken at the given sequence number.\<close>

definition empty_snapshot :: "byte \<Rightarrow> byte list" where
  "empty_snapshot s = [0x44, 0xBB, s, 0, 0, 0, 0, 0x44, 0xEE, s, 0, 0, 0, 0]"

abbreviation demo_consumer :: "byte list \<times> MarketDataConsumer" where
  "demo_consumer \<equiv> ([], consumer_start (MarketDataConsumer_init roomy_queue))"

definition demo_script :: "(byte list \<times> TcpEvent) list" where
  "demo_script = [(frame_of 5 (add_of 1), TcpAgain), ([], TcpData (empty_snapshot 4)), (frame_of 6 (add_of 2), TcpAgain)]"

interpretation feed: piecewise "recvCallback g w" for g w
  by unfold_locales (unfold recvCallback_is_loop, rule recv_loop_append)

lemma read_all_Nil: "read_all g w [] = Some"
  by (rule ext) simp

subsection \<open>Properties\<close>



text \<open>
  C26.  The cut of the feed into datagrams does not matter: callbacks on successive pieces, each behind what the
  last one left in the buffer, end in the state of one callback on all the bytes, the same updates delivered in
  the same order.
\<close>

theorem feed_ignores_segmentation:
  "feed_pieces (recvCallback g w) (p # ps) (rest, m) = recvCallback g w (rest @ concat (p # ps)) m"
  by (rule feed.all_pieces)

text \<open>
  C28.  The receive loop never wedges: it always comes to an end, and what it leaves in the socket buffer is the
  tail of what it was given and either too short to hold a tag or a frame whose remaining bytes are still to
  come, so nothing that can be decoded or skipped is ever kept.
\<close>

theorem recvCallback_leaves_partial_frame:
  assumes "recvCallback g w bytes m = Some (rest, m')"
  shows "(\<exists>k. rest = drop k bytes) \<and>
    (length rest \<le> sizeof_SeqNum \<or> (\<exists>n. frame_size w rest = Some n \<and> length rest < n))"
  using recv_loop_rest [of g w bytes m "(rest, m')"] assms by (simp add: recvCallback_is_loop)

theorem recvCallback_leaves_partial_frame_witness:
  "\<exists>rest m'. recvCallback doubling feed_wire ([1, 2] @ frame_of 5 (add_of 1) @ [0, 0]) (snd demo_consumer) = Some (rest, m') \<and>
     (length rest \<le> sizeof_SeqNum \<or> (\<exists>n. frame_size feed_wire rest = Some n \<and> length rest < n))"
proof -
  have "recvCallback doubling feed_wire ([1, 2] @ frame_of 5 (add_of 1) @ [0, 0]) (snd demo_consumer) \<noteq> None" by code_simp
  then obtain rest m' where "recvCallback doubling feed_wire ([1, 2] @ frame_of 5 (add_of 1) @ [0, 0]) (snd demo_consumer) = Some (rest, m')"
    by auto
  with recvCallback_leaves_partial_frame [OF this] show ?thesis by blast
qed

text \<open>
  C10.  A granted replay completes: when the server answers \<^verbatim>\<open>R\<close>, sends whole frames that decode to the updates
  after the last one applied, in order and cut into reads in any way, and closes the connection, and the updates
  that arrived meanwhile continue them, then the consumer leaves recovery synchronized and has delivered the
  replayed updates and after them the waiting ones, each once.
\<close>

theorem replay_completes:
  assumes st: "md_mode m = RecoveryReplay" "md_in_recovery m" "\<not> md_status_read m" "md_tcp_buffer m = []"
    and stream: "concat cs = 0x52 # concat fs" "decode_frames g w fs (md_decoder m) = Some (us, d)" "chain (md_last_applied m + 1) us"
    and scan: "scan_queue (md_last_applied m + word_of_nat (length us) + 1) (md_inc_queue m) = Some e"
    and room: "\<forall>k. q_accepts (md_queue m) k"
  shows "\<exists>m'. read_all g w (map TcpData cs @ [TcpEof]) m = Some m' \<and> md_synchronized m' \<and> \<not> md_in_recovery m' \<and>
    md_next_exp m' = e \<and> q_pushed (md_queue m') = q_pushed (md_queue m) @ md_snap_queue m @ us @
      waiting_from (md_last_applied m + word_of_nat (length us) + 1) (md_inc_queue m)"
proof -
  from replay_stream [OF stream st(1,3,2,4)] obtain m1 where m1: "read_all g w (map TcpData cs) m = Some m1"
    "replay_advance us (m\<lparr>md_status_read := True\<rparr>) m1" "md_tcp_buffer m1 = []" by blast
  note keeps = replay_advance_keeps [OF m1(2), simplified]
  have "\<forall>k. q_accepts (md_queue m1) k" using room keeps(4) by simp
  from deliver_all_total [OF this, of "md_snap_queue m1"] obtain q1 where
    q1: "deliver_all (md_snap_queue m1) m1 = Some (m1\<lparr>md_queue := q1\<rparr>)" "q_pushed q1 = delivered m1 @ md_snap_queue m1" "\<forall>k. q_accepts q1 k" by auto
  let ?ws = "waiting_from (md_last_applied m1 + 1) (md_inc_queue m1)"
  from deliver_all_total [of "m1\<lparr>md_queue := q1\<rparr>" ?ws] q1(3) obtain q2 where
    q2: "deliver_all ?ws (m1\<lparr>md_queue := q1\<rparr>) = Some (m1\<lparr>md_queue := q2\<rparr>)" "q_pushed q2 = q_pushed q1 @ ?ws" by auto
  have "read_all g w [TcpEof] m1 = finishReplaySync m1"
    using st m1(3) keeps by (simp add: readSnapshotTcp_def onSnapshotTcpEof_def read_all_Nil)
  then have "read_all g w (map TcpData cs @ [TcpEof]) m = finishReplaySync m1" using m1(1) by (simp add: read_all_append)
  with q1 q2 scan keeps show ?thesis by (simp add: finishReplaySync_def)
qed

definition demo_replay :: MarketDataConsumer where
  "demo_replay = queueIncremental (MarketUpdate_init\<lparr>mu_seq_num := 7\<rparr>)
     (detectGap 7 ((MarketDataConsumer_init roomy_queue)\<lparr>md_next_exp := 6\<rparr>))"

theorem replay_completes_witness:
  "\<exists>m'. read_all doubling feed_wire [TcpData [0x52, 0, 0], TcpData (drop 2 (frame_of 6 (add_of 2))), TcpEof] demo_replay = Some m' \<and>
     md_synchronized m' \<and> \<not> md_in_recovery m' \<and> md_next_exp m' = 8"
proof -
  let ?f = "frame_of 6 (add_of 2)"
  let ?r = "the (decode_frames doubling feed_wire [?f] (md_decoder demo_replay))"
  have "decode_frames doubling feed_wire [?f] (md_decoder demo_replay) \<noteq> None" by code_simp
  then have dec: "decode_frames doubling feed_wire [?f] (md_decoder demo_replay) = Some (fst ?r, snd ?r)" by auto
  have room: "\<forall>k. q_accepts (md_queue demo_replay) k"
    by (simp add: demo_replay_def queueIncremental_def detectGap_def startReplaySync_def startSnapshotSync_def Let_def
        MarketDataConsumer_init_def roomy_queue_def)
  have st: "md_mode demo_replay = RecoveryReplay" "md_in_recovery demo_replay" "\<not> md_status_read demo_replay" "md_tcp_buffer demo_replay = []"
    by code_simp+
  have cs: "concat [[0x52, 0, 0], drop 2 ?f] = 0x52 # concat [?f]" by code_simp
  have ch: "chain (md_last_applied demo_replay + 1) (fst ?r)" by code_simp
  have sc: "scan_queue (md_last_applied demo_replay + word_of_nat (length (fst ?r)) + 1) (md_inc_queue demo_replay) = Some 8" by code_simp
  from replay_completes [OF st cs dec ch sc room] show ?thesis by auto
qed

text \<open>
  C12.  A snapshot completes: when the server sends whole frames that decode to a start, any updates and an end, cut
  into reads in any way, and the updates that arrived meanwhile continue the stream after the number that the end
  carries, then the consumer leaves recovery synchronized, with nothing waiting, and has delivered the snapshot and
  after it the waiting updates, each once.
\<close>

theorem snapshot_completes:
  assumes st: "md_mode m = RecoverySnapshot" "md_in_recovery m" "md_tcp_buffer m = []"
    and stream: "concat cs = concat fs" "snapshot_frames g w fs (md_decoder m) = Some (s # us @ [e], d)"
    and kinds: "mu_type s = SNAPSHOT_START" "snapshot_body us" "mu_type e = SNAPSHOT_END"
    and scan: "scan_queue (mu_order_ref e + 1) (md_inc_queue m) = Some x"
    and room: "\<forall>k. q_accepts (md_queue m) k"
  shows "\<exists>m'. read_all g w (map TcpData cs) m = Some m' \<and> md_synchronized m' \<and> \<not> md_in_recovery m' \<and>
    md_next_exp m' = x \<and> md_inc_queue m' = [] \<and>
    q_pushed (md_queue m') = q_pushed (md_queue m) @ s # us @ e # waiting_from (mu_order_ref e + 1) (md_inc_queue m)"
proof -
  from snapshot_handled [OF st(2) kinds scan room] obtain m' where
    m': "handle_all (s # us @ [e]) m = Some m'" "recovering (s # us @ [e]) m" "md_synchronized m'" "\<not> md_in_recovery m'"
      "md_next_exp m' = x" "md_inc_queue m' = []"
      "q_pushed (md_queue m') = q_pushed (md_queue m) @ s # us @ e # waiting_from (mu_order_ref e + 1) (md_inc_queue m)" by blast
  have rest: "snapshot_rest g w (concat cs) (s # us @ [e]) (md_tcp_buffer m) (md_decoder m)"
    by (rule frames_rest [OF stream st(3)])
  have "md_in_recovery m \<longrightarrow> md_mode m \<noteq> RecoveryReplay" using st(1) by simp
  from snapshot_reads [OF rest m'(2) this m'(1,4)] m' show ?thesis by (auto simp: framed_def)
qed

definition demo_snapshot :: MarketDataConsumer where
  "demo_snapshot = queueIncremental (MarketUpdate_init\<lparr>mu_seq_num := 5\<rparr>) (consumer_start (MarketDataConsumer_init roomy_queue))"

definition demo_frames :: "byte list list" where
  "demo_frames = [take 7 (empty_snapshot 4), add_of 3, drop 7 (empty_snapshot 4)]"

theorem snapshot_completes_witness:
  "\<exists>m'. read_all doubling feed_wire (map TcpData [take 10 (concat demo_frames), drop 10 (concat demo_frames)]) demo_snapshot = Some m' \<and>
     md_synchronized m' \<and> \<not> md_in_recovery m' \<and> md_next_exp m' = 6 \<and> length (q_pushed (md_queue m')) = 4"
proof -
  let ?r = "the (snapshot_frames doubling feed_wire demo_frames (md_decoder demo_snapshot))"
  let ?s = "fst ?r ! 0" and ?u = "fst ?r ! 1" and ?e = "fst ?r ! 2"
  have "snapshot_frames doubling feed_wire demo_frames (md_decoder demo_snapshot) \<noteq> None" by code_simp
  then have "snapshot_frames doubling feed_wire demo_frames (md_decoder demo_snapshot) = Some (fst ?r, snd ?r)" by auto
  moreover have "length (fst ?r) = 3" by code_simp
  then have "fst ?r = ?s # [?u] @ [?e]" by (auto simp: numeral_3_eq_3 length_Suc_conv)
  ultimately have dec: "snapshot_frames doubling feed_wire demo_frames (md_decoder demo_snapshot) = Some (?s # [?u] @ [?e], snd ?r)" by metis
  have room: "\<forall>k. q_accepts (md_queue demo_snapshot) k" and empty: "q_pushed (md_queue demo_snapshot) = []"
    by (simp_all add: demo_snapshot_def queueIncremental_def consumer_start_def startSnapshotSync_def MarketDataConsumer_init_def roomy_queue_def)
  have st: "md_mode demo_snapshot = RecoverySnapshot" "md_in_recovery demo_snapshot" "md_tcp_buffer demo_snapshot = []"
    by code_simp+
  have kinds: "mu_type ?s = SNAPSHOT_START" "snapshot_body [?u]" "mu_type ?e = SNAPSHOT_END" by code_simp+
  have cs: "concat [take 10 (concat demo_frames), drop 10 (concat demo_frames)] = concat demo_frames" by simp
  have sc: "scan_queue (mu_order_ref ?e + 1) (md_inc_queue demo_snapshot) = Some 6" by code_simp
  have len: "length (waiting_from (mu_order_ref ?e + 1) (md_inc_queue demo_snapshot)) = 1" by code_simp
  from snapshot_completes [OF st cs dec kinds sc room] len empty st(2) show ?thesis by auto
qed

subsection \<open>Where recovery goes wrong\<close>

text \<open>The number and the type of each update delivered.\<close>

definition summary :: "MarketDataConsumer \<Rightarrow> (SeqNum \<times> UpdateType) list" where
  "summary m = map (\<lambda>u. (mu_seq_num u, mu_type u)) (q_pushed (md_queue m))"

text \<open>
  A snapshot makes the decoder forget orders that are delivered: an order is added by an incremental update
  while the snapshot loads, the start of the snapshot resets the decoder, and the waiting add is then delivered
  to the book without being tracked.  The next update, an execution of that order, is not decodable any more and
  is skipped byte by byte: it never reaches the book although the consumer is synchronized.
\<close>

theorem snapshot_forgets_orders:
  "case consumer_run doubling feed_wire
     [(frame_of 5 (add_of 1), TcpAgain), ([], TcpData (empty_snapshot 4)), (frame_of 6 (exec_of 1), TcpAgain)] demo_consumer of
     None \<Rightarrow> False
   | Some (buf, m) \<Rightarrow> summary m = [(0, SNAPSHOT_START), (0, SNAPSHOT_END), (5, ADD)] \<and> md_synchronized m \<and> md_next_exp m = 6"
  by code_simp

text \<open>
  The recovery from it does not end: the next update shows a gap, the server replays the execution, the decoder
  refuses it again, the read stops in front of it, and at the end of the stream the same replay is requested
  once more.
\<close>

theorem replay_repeats_for_ever:
  "case consumer_run doubling feed_wire
     [(frame_of 5 (add_of 1), TcpAgain), ([], TcpData (empty_snapshot 4)), (frame_of 6 (exec_of 1), TcpAgain),
      (frame_of 7 (add_of 2), TcpData (0x52 # frame_of 6 (exec_of 1) @ frame_of 7 (add_of 2))), ([], TcpEof),
      ([], TcpData (0x52 # frame_of 6 (exec_of 1) @ frame_of 7 (add_of 2))), ([], TcpEof)] demo_consumer of
     None \<Rightarrow> False
   | Some (buf, m) \<Rightarrow> md_in_recovery m \<and> md_next_exp m = 6 \<and>
       md_requests m = [SnapshotRequest, ReplayRequest 5, ReplayRequest 5, ReplayRequest 5]"
  by code_simp

text \<open>
  The consumer can report that it is synchronized without any snapshot: the snapshot connection closes early and
  the recovery is aborted, the first incremental update is then taken as the start of the stream, and the replay
  of a later gap sets \<^verbatim>\<open>market_data_synchronized\<close>, which opens the gate of the trade engine on an incomplete book.
\<close>

theorem synchronized_without_snapshot:
  "case consumer_run doubling feed_wire
     [([], TcpEof), (frame_of 10 (add_of 1), TcpAgain), (frame_of 12 (add_of 3), TcpData (0x52 # frame_of 11 (add_of 2))), ([], TcpEof)]
     demo_consumer of
     None \<Rightarrow> False
   | Some (buf, m) \<Rightarrow> summary m = [(10, ADD), (11, ADD), (12, ADD)] \<and> md_synchronized m"
  by code_simp

end
