(* ===== verification/Feed_Growth.thy ===== *)
theory Feed_Growth
  imports Market_Properties
begin

text \<open>
  The stream that the consumer delivers only grows: no operation of the consumer takes back or reorders an update
  that it has pushed.  A reader of the queue therefore reads a prefix of the stream at any time.
\<close>

definition grows :: "MarketDataConsumer \<Rightarrow> MarketDataConsumer \<Rightarrow> bool" where
  "grows m m' \<longleftrightarrow> (\<exists>us. q_pushed (md_queue m') = q_pushed (md_queue m) @ us)"

lemma grows_same: "md_queue m' = md_queue m \<Longrightarrow> grows m m'"
  by (simp add: grows_def)

lemma grows_trans [trans]: "grows m m1 \<Longrightarrow> grows m1 m2 \<Longrightarrow> grows m m2"
  by (auto simp: grows_def)

lemma grows_cong: "md_queue m1 = md_queue m \<Longrightarrow> md_queue m2 = md_queue m' \<Longrightarrow> grows m1 m2 = grows m m'"
  by (simp add: grows_def)

lemma deliver_grows: "deliver u m = Some m' \<Longrightarrow> grows m m'"
  by (auto simp: deliver_def grows_def dest: push_True split: prod.splits bool.splits)

lemma deliver_all_grows: "deliver_all us m = Some m' \<Longrightarrow> grows m m'"
proof (induction us arbitrary: m)
  case (Cons u us)
  then obtain m1 where "deliver u m = Some m1" "deliver_all us m1 = Some m'" by (auto simp: bind_eq_Some_conv)
  with Cons.IH deliver_grows grows_trans show ?case by blast
qed (simp add: grows_same)

lemma recovery_queue [simp]:
  "md_queue (startSnapshotSync m) = md_queue m" "md_queue (startReplaySync s b m) = md_queue m"
  "md_queue (abortSnapshotSync m) = md_queue m" "md_queue (queueIncremental u m) = md_queue m" "md_queue (detectGap s m) = md_queue m"
  by (simp_all add: startSnapshotSync_def startReplaySync_def abortSnapshotSync_def queueIncremental_def detectGap_def Let_def)

text \<open>The end of either recovery delivers twice.\<close>

lemma deliver_twice_grows:
  assumes "deliver_all us m = Some m1" and "deliver_all vs m1 = Some m2" and "md_queue m' = md_queue m2"
  shows "grows m m'"
  using grows_trans [OF deliver_all_grows [OF assms(1)] deliver_all_grows [OF assms(2)]] assms(3) by (simp add: grows_def)

lemma finishReplaySync_grows: "finishReplaySync m = Some m' \<Longrightarrow> grows m m'"
  by (auto simp: finishReplaySync_def Let_def bind_eq_Some_conv grows_same intro: deliver_twice_grows split: option.splits)

lemma finishSnapshotSync_grows: "finishSnapshotSync n m = Some m' \<Longrightarrow> grows m m'"
  by (auto simp: finishSnapshotSync_def bind_eq_Some_conv grows_same intro: deliver_twice_grows split: option.splits)

lemma processIncremental_grows:
  assumes "processIncremental u m = Some m'"
  shows "grows m m'"
proof -
  consider "md_queue m' = md_queue m" | "deliver u (m\<lparr>md_next_exp := mu_seq_num u + 1\<rparr>) = Some m'"
    | m1 where "deliver u m = Some m1" "md_queue m' = md_queue m1"
    using assms by (auto simp: processIncremental_def Let_def split: if_splits)
  then show ?thesis
  proof cases
    case 2
    from deliver_grows [OF this] show ?thesis by (simp add: grows_def)
  next
    case 3
    from deliver_grows [OF 3(1)] 3(2) show ?thesis by (simp add: grows_def)
  qed (rule grows_same)
qed

lemma processSnapshot_grows:
  assumes "processSnapshot u m = Some m'"
  shows "grows m m'"
proof -
  let ?m = "m\<lparr>md_snap_queue := md_snap_queue m @ [u], md_have_start := False\<rparr>"
  consider "md_queue m' = md_queue m" | "finishSnapshotSync (mu_order_ref u + 1) ?m = Some m'"
    using assms by (auto simp: processSnapshot_def Let_def split: if_splits)
  then show ?thesis
  proof cases
    case 2
    from finishSnapshotSync_grows [OF this] show ?thesis by (simp add: grows_def)
  qed (rule grows_same)
qed

lemma snapshot_loop_grows:
  assumes "snapshot_loop g w bytes m = Some y"
  shows "grows m (snd y)"
proof (rule snapshot_loop.raw_induct [where P = "\<lambda>g w bytes m y. grows m (snd y)", OF _ assms])
  fix f g w bytes m y
  assume IH: "\<And>g w bytes m y. f g w bytes m = Some y \<Longrightarrow> grows m (snd y)"
    and run: "(if bytes = [] then Some ([], m)
      else Option.bind (decodeSnapshot g w bytes MarketUpdate_init (md_decoder m)) (\<lambda>(r, d).
        case r of
          None \<Rightarrow> Some (bytes, m\<lparr>md_decoder := d\<rparr>)
        | Some u \<Rightarrow> Option.bind (processSnapshot u (m\<lparr>md_decoder := d\<rparr>)) (f g w (drop (de_last_size d) bytes)))) = Some y"
  consider "md_queue (snd y) = md_queue m" | d u m1 bs where "processSnapshot u (m\<lparr>md_decoder := d\<rparr>) = Some m1" "f g w bs m1 = Some y"
    using run by (cases "bytes = []") (auto simp: bind_eq_Some_conv split: option.splits)
  then show "grows m (snd y)"
  proof cases
    case 2
    from grows_trans [OF processSnapshot_grows [OF 2(1)] IH [OF 2(2)]] show ?thesis by (simp add: grows_def)
  qed (rule grows_same)
qed

lemma replay_loop_queue:
  assumes "replay_loop g w bytes m = Some y"
  shows "md_queue y = md_queue m"
proof (rule replay_loop.raw_induct [where P = "\<lambda>g w bytes m y. md_queue y = md_queue m", OF _ assms])
  fix f g w bytes m y
  assume IH: "\<And>g w bytes m y. f g w bytes m = Some y \<Longrightarrow> md_queue y = md_queue m"
    and run: "(if bytes = [] then Some (m\<lparr>md_tcp_buffer := []\<rparr>)
      else Option.bind (decode g w bytes MarketUpdate_init (md_decoder m)) (\<lambda>(r, d).
        case r of
          None \<Rightarrow> Some (m\<lparr>md_decoder := d, md_tcp_buffer := bytes\<rparr>)
        | Some u \<Rightarrow>
            if mu_seq_num u \<noteq> md_last_applied m + 1 then Some (abortSnapshotSync (m\<lparr>md_decoder := d\<rparr>))
            else f g w (drop (sizeof_SeqNum + de_last_size d) bytes)
                   (m\<lparr>md_decoder := d, md_last_applied := mu_seq_num u, md_snap_queue := md_snap_queue m @ [u]\<rparr>))) = Some y"
  show "md_queue y = md_queue m"
    using run IH by (cases "bytes = []") (fastforce simp: bind_eq_Some_conv split: option.splits if_splits)+
qed

lemma processReplay_grows:
  assumes "processReplay g w m = Some m'"
  shows "grows m m'"
proof -
  consider "md_queue m' = md_queue m" | k where "finishReplaySync k = Some m'" "md_queue k = md_queue m"
    using assms by (auto simp: processReplay_def Let_def dest: replay_loop_queue split: if_splits list.splits)
  then show ?thesis by cases (auto simp: grows_same grows_def dest: finishReplaySync_grows)
qed

lemma readSnapshotTcp_grows:
  assumes "readSnapshotTcp g w ev m = Some m'"
  shows "grows m m'"
proof (cases ev)
  case (TcpData bytes)
  then consider "processReplay g w (m\<lparr>md_tcp_buffer := md_tcp_buffer m @ bytes\<rparr>) = Some m'"
    | y where "snapshot_loop g w (md_tcp_buffer m @ bytes) (m\<lparr>md_tcp_buffer := md_tcp_buffer m @ bytes\<rparr>) = Some y" "md_queue m' = md_queue (snd y)"
    using assms by (auto simp: readSnapshotTcp_def Let_def split: if_splits)
  then show ?thesis by cases (auto simp: grows_def dest: processReplay_grows snapshot_loop_grows)
qed (use assms in \<open>auto simp: readSnapshotTcp_def onSnapshotTcpEof_def grows_same dest: finishReplaySync_grows split: if_splits\<close>)

lemma recv_loop_grows: "recv_loop g w bytes m = Some y \<Longrightarrow> grows m (snd y)"
proof (induction "length bytes" arbitrary: bytes m rule: less_induct)
  case less
  from less.prems(1) show ?case
  proof (cases rule: recv_loop_cases)
    case magic
    then show ?thesis using less.hyps [OF _ magic(3)] by (simp add: kRegistrationMagicLen_def sizeof_SeqNum_def)
  next
    case (frame u d m1)
    then have "grows m1 (snd y)" using less.hyps [OF _ frame(5)] by (simp add: sizeof_SeqNum_def)
    with grows_trans [OF processIncremental_grows [OF frame(4)]] show ?thesis by (simp add: grows_def)
  next
    case (skip d)
    then show ?thesis using less.hyps [OF _ skip(5)] by (simp add: grows_def)
  qed (simp_all add: grows_same)
qed

lemma iteration_grows:
  assumes "consumer_iteration g w bytes ev x = Some x'"
  shows "grows (snd x) (snd x')"
proof -
  from assms obtain rest m1 where m1: "recv_loop g w (fst x @ bytes) (snd x) = Some (rest, m1)"
    "(if md_in_recovery m1 then readSnapshotTcp g w ev m1 else Some m1) = Some (snd x')"
    by (auto simp: consumer_iteration_def recvCallback_is_loop bind_eq_Some_conv)
  have "grows m1 (snd x')" using m1(2) by (auto simp: grows_same intro: readSnapshotTcp_grows split: if_splits)
  with grows_trans recv_loop_grows [OF m1(1)] show ?thesis by simp
qed

end
