(* ===== verification/Program_Invariant.thy ===== *)
theory Program_Invariant
  imports Program Main_Properties Request_Flow Feed_Properties Feed_Growth
begin

text \<open>
  The invariant of the whole program.  In every interleaving, each component is in a state that it reaches in a run
  of its own, what a thread has popped from a queue is a prefix of what the other end pushed, and the phase of the
  main thread agrees with the run flags.
\<close>

subsection \<open>Runs of the components\<close>

lemma consumer_run_append: "consumer_run g w (xs @ ys) x = Option.bind (consumer_run g w xs x) (consumer_run g w ys)"
  by (induction g w xs x rule: consumer_run.induct) (simp_all split: Option.bind_split)

lemma consumer_run_snoc:
  "consumer_run g w evs x = Some x1 \<Longrightarrow> consumer_iteration g w bytes ev x1 = Some x2 \<Longrightarrow> consumer_run g w (evs @ [(bytes, ev)]) x = Some x2"
  by (simp add: consumer_run_append)

lemma engine_run_snoc:
  assumes "engine_run ops fops pops its e = Some e1" and "runOnce ops fops pops rss us e1 = Some (e2, r)"
  shows "engine_run ops fops pops (its @ [(True, rss, us)]) e = Some e2"
  using assms by (induction ops fops pops its e rule: engine_run.induct) (auto simp: bind_eq_Some_conv)

lemma book_run_append: "book_run ops (us @ vs) b = Option.bind (book_run ops us b) (book_run ops vs)"
  by (induction ops us b rule: book_run.induct) (simp_all split: Option.bind_split)

lemma response_loop_grows:
  "\<exists>rss. q_pushed (gw_incoming (snd (response_loop w data gw))) = q_pushed (gw_incoming gw) @ rss \<and>
    gw_sent (snd (response_loop w data gw)) = gw_sent gw \<and> gw_run (snd (response_loop w data gw)) = gw_run gw"
proof (induction "length data" arbitrary: data gw rule: less_induct)
  case less
  show ?case
  proof (cases data)
    case Nil
    then show ?thesis by (simp add: response_loop.simps [of w "[]"])
  next
    case (Cons b bs)
    let ?n = "messageSize w b" and ?q = "gw_incoming gw"
    let ?rs = "parse_response w (the (ow_type w b)) (take ?n data)"
    let ?gw = "gw\<lparr>gw_incoming := snd (push ?rs ?q)\<rparr>"
    consider "?n = 0" | "?n \<noteq> 0" "length data < ?n" | "?n \<noteq> 0" "?n \<le> length data" by linarith
    then show ?thesis
    proof cases
      case 1
      then have "response_loop w data gw = response_loop w (drop 1 data) gw" using Cons by (subst response_loop.simps) simp
      with less [of "drop 1 data" gw] Cons show ?thesis by simp
    next
      case 2
      then have "response_loop w data gw = (data, gw)" using Cons by (subst response_loop.simps) simp
      then show ?thesis by simp
    next
      case 3
      then have "response_loop w data gw = response_loop w (drop ?n data) ?gw" using Cons by (subst response_loop.simps) (simp add: Let_def)
      moreover have "\<exists>l. q_pushed (snd (push ?rs ?q)) = q_pushed ?q @ l" by (simp add: push_def)
      ultimately show ?thesis using less [of "drop ?n data" ?gw] 3 Cons by auto
    qed
  qed
qed

subsection \<open>The books of the engine\<close>

lemma responses_tickers: "te_tickers (fst (drainResponses ops rss x)) = te_tickers (fst x)"
proof (induction rss arbitrary: x)
  case (Cons rs rss)
  have "te_tickers (fst (handleResponse ops rs x)) = te_tickers (fst x)" by (simp add: handleResponse_def Let_def case_prod_unfold)
  with Cons.IH [of "handleResponse ops rs x"] show ?case by (simp add: drainResponses_def)
qed (simp add: drainResponses_def)

lemma drain_registry:
  "drainMarketUpdates ops fops pops us (e, r) = Some (e', r') \<Longrightarrow> registry_ok e \<Longrightarrow>
    registry_ok e' \<and> length (te_tickers e') = length (te_tickers e)"
proof (induction us arbitrary: e r)
  case (Cons u us)
  from Cons.prems(1) obtain e1 r1 where 1: "handleMarketUpdate ops fops pops u (e, r) = Some (e1, r1)"
    and 2: "drainMarketUpdates ops fops pops us (e1, r1) = Some (e', r')" by (auto simp: drain_Cons bind_eq_Some_conv)
  from Cons.IH [OF 2] market_update_registry [OF 1 Cons.prems(2)] show ?case by simp
qed simp

lemma runOnce_books:
  assumes "runOnce ops fops pops rss us e = Some (e', r)" and "registry_ok e"
  shows "registry_ok e' \<and> length (te_tickers e') = length (te_tickers e) \<and>
    (\<forall>i < length (te_tickers e). book_run pops us (tb_book (te_tickers e ! i)) = Some (tb_book (te_tickers e' ! i)))"
proof -
  obtain e1 r1 where 1: "drainResponses ops rss (e, StrategyRunResult_init) = (e1, r1)" by fastforce
  have t: "te_tickers e1 = te_tickers e" using responses_tickers [of ops rss "(e, StrategyRunResult_init)"] 1 by simp
  then have ok: "registry_ok e1" using assms(2) by (simp add: registry_ok_def)
  have run: "drainMarketUpdates ops fops pops us (e1, r1) = Some (e', r)" using assms(1) 1 by (simp add: runOnce_def)
  from drain_registry [OF run ok] drain_books [OF run ok] t show ?thesis by simp
qed

lemma engine_run_books:
  assumes "engine_run ops fops pops its e = Some e'" and "registry_ok e" and "\<forall>it \<in> set its. fst it"
  shows "registry_ok e' \<and> length (te_tickers e') = length (te_tickers e) \<and>
    (\<forall>i < length (te_tickers e). book_run pops (concat (map (snd \<circ> snd) its)) (tb_book (te_tickers e ! i)) = Some (tb_book (te_tickers e' ! i)))"
  using assms
proof (induction its arbitrary: e)
  case (Cons it its)
  obtain rss us where it: "it = (True, rss, us)" using Cons.prems(3) by (metis list.set_intros(1) prod.collapse)
  with Cons.prems(1) obtain e1 r1 where 1: "runOnce ops fops pops rss us e = Some (e1, r1)" "engine_run ops fops pops its e1 = Some e'"
    by (auto simp: bind_eq_Some_conv)
  note b = runOnce_books [OF 1(1) Cons.prems(2)]
  with Cons.IH [OF 1(2)] Cons.prems(3) show ?case by (simp add: it book_run_append)
qed simp


subsection \<open>The engine that main starts\<close>

definition booted :: "'p \<Rightarrow> TickerId list \<Rightarrow> 'p main_engine \<Rightarrow> bool" where
  "booted pool ts e \<longleftrightarrow> registered ts e \<and> te_tickers e = map (\<lambda>t. \<lparr>tb_ticker_id = t, tb_book = MarketOrderBook_init t pool\<rparr>) ts \<and>
     te_book_pool e = pool \<and> q_pushed (te_requests e) = [] \<and> total_new e = 0 \<and> te_has_gate e"

lemma register_frame:
  "te_requests (snd (engine_registerTicker fops i t l e)) = te_requests e"
  "te_has_gate (snd (engine_registerTicker fops i t l e)) = te_has_gate e"
  "te_book_pool (snd (engine_registerTicker fops i t l e)) = te_book_pool e"
  by (simp_all add: engine_registerTicker_def findOrCreateTicker_def put_slot_def Let_def case_prod_unfold split: option.split)

lemma register_total: "total_new (snd (engine_registerTicker fops i t l e)) = total_new e"
proof -
  have tick: "total_new (snd (findOrCreateTicker t e)) = total_new e" "te_slots (snd (findOrCreateTicker t e)) = te_slots e"
    by (simp_all add: findOrCreateTicker_def total_new_def split: option.split)
  have put: "total_new (put_slot i sl e1) = total_new e" if "te_slots e1 = te_slots e" "i < slotCount e" "sl_om sl = sl_om (te_slots e ! i)" for sl e1
    using total_put [of i e1 sl] that by (simp add: slotCount_def total_new_def)
  show ?thesis
    by (cases "findOrCreateTicker t e"; cases "fst (findOrCreateTicker t e)")
      (use tick in \<open>auto simp: engine_registerTicker_def Let_def case_prod_unfold put\<close>)
qed

lemma register_booted:
  assumes b: "booted pool ts e" and run: "engine_registerTicker TradingFeatures_ops 0 t lim e = (True, e')" and le: "length ts \<le> 16"
  shows "booted pool (ts @ [t]) e'" and "length ts < 16"
proof -
  have r: "registered ts e" using b by (simp add: booted_def)
  from register_refused [OF r, of t lim] run have t: "t \<notin> set ts" "length ts \<noteq> 16" "limits_ok lim" by auto
  with le show "length ts < 16" by simp
  with register_accepted [OF r t(1) _ t(3)] run have r': "registered (ts @ [t]) e'" by auto
  have "te_tickers e' = te_tickers e @ [\<lparr>tb_ticker_id = t, tb_book = MarketOrderBook_init t (te_book_pool e)\<rparr>]"
    using run find_created [OF r t(1) \<open>length ts < 16\<close>]
    by (auto simp: engine_registerTicker_def put_slot_def Let_def case_prod_unfold split: if_splits)
  with b r' register_frame [of TradingFeatures_ops 0 t lim e] register_total [of TradingFeatures_ops 0 t lim e] run
  show "booted pool (ts @ [t]) e'" by (simp add: booted_def)
qed

lemma registerAll_booted:
  "registerAll us lim e = Some e' \<Longrightarrow> booted pool ts e \<Longrightarrow> length ts \<le> 16 \<Longrightarrow> booted pool (ts @ us) e'"
proof (induction us arbitrary: ts e)
  case (Cons t us)
  from Cons.prems(1) obtain e1 where 1: "engine_registerTicker TradingFeatures_ops 0 t lim e = (True, e1)" "registerAll us lim e1 = Some e'"
    by (auto simp: Let_def case_prod_unfold prod_eq_iff split: if_splits)
  from Cons.IH [OF 1(2) register_booted(1) [OF Cons.prems(2) 1(1) Cons.prems(3)]] register_booted(2) [OF Cons.prems(2) 1(1) Cons.prems(3)]
  show ?case by simp
qed simp

lemma main_booted:
  assumes "main_start args rqq pool = Running cfg e" and "q_pushed rqq = []"
  shows "booted pool (tickers cfg) e"
proof -
  have "booted pool [] (new_engine cfg rqq pool)"
    using new_engine_registered [of cfg rqq pool] assms(2)
    by (simp add: booted_def new_engine_def TradeEngine_init_def total_new_def new_slot_def initialize_def OrderManager_init_def)
  with registerAll_booted [of "tickers cfg" "limits cfg" "new_engine cfg rqq pool" e pool "[]"] assms(1) show ?thesis
    by (auto simp: main_start_def split: ParseOutcome.splits option.splits)
qed

lemma booted_registry: "booted pool ts e \<Longrightarrow> distinct ts \<Longrightarrow> registry_ok e"
  by (auto simp: booted_def registry_ok_def comp_def MarketOrderBook_init_def)

lemma booted_good: "booted pool ts e \<Longrightarrow> good_queue (te_requests e)"
  by (simp add: booted_def good_queue_def)


subsection \<open>The invariant\<close>

abbreviation delivered_by :: "'p Program \<Rightarrow> MarketUpdate list" where
  "delivered_by p \<equiv> q_pushed (md_queue (snd (pg_consumer p)))"

abbreviation requested_by :: "'p Program \<Rightarrow> OrderRequest list" where
  "requested_by p \<equiv> q_pushed (te_requests (pg_engine p))"

abbreviation answered_by :: "'p Program \<Rightarrow> OrderResponse list" where
  "answered_by p \<equiv> q_pushed (gw_incoming (snd (pg_gateway p)))"

abbreviation sent_by :: "'p Program \<Rightarrow> OuchMessage list" where
  "sent_by p \<equiv> gw_sent (snd (pg_gateway p))"

text \<open>Each thread has popped a prefix of each queue it reads.\<close>

definition prefixes_ok :: "'p Program \<Rightarrow> bool" where
  "prefixes_ok p \<longleftrightarrow> pg_updates_popped p \<le> length (delivered_by p) \<and> pg_requests_popped p \<le> length (requested_by p) \<and>
     pg_responses_popped p \<le> length (answered_by p)"

definition consumer_part :: "growth \<Rightarrow> ItchWire \<Rightarrow> 'p Program \<Rightarrow> 'p Program \<Rightarrow> bool" where
  "consumer_part g w p0 p \<longleftrightarrow> (\<exists>evs. consumer_run g w evs (pg_consumer p0) = Some (pg_consumer p))"

definition engine_part :: "'p PoolOps \<Rightarrow> 'p Program \<Rightarrow> 'p Program \<Rightarrow> bool" where
  "engine_part pops p0 p \<longleftrightarrow> flows (pg_engine p0) (pg_engine p) \<and>
     (\<exists>its. engine_run LiquidityTaker_ops TradingFeatures_ops pops its (pg_engine p0) = Some (pg_engine p) \<and> (\<forall>it \<in> set its. fst it) \<and>
       concat (map (fst \<circ> snd) its) = take (pg_responses_popped p) (answered_by p) \<and>
       concat (map (snd \<circ> snd) its) = take (pg_updates_popped p) (delivered_by p))"

definition gateway_part :: "OuchWire \<Rightarrow> 'p Program \<Rightarrow> bool" where
  "gateway_part ow p \<longleftrightarrow> list_all2 (announces ow) (take (pg_requests_popped p) (requested_by p)) (sent_by p)"

text \<open>The run flags in each phase of the main thread.\<close>

definition phase_ok :: "'p Program \<Rightarrow> bool" where
  "phase_ok p \<longleftrightarrow> (case pg_main p of
     Polling i \<Rightarrow> \<not> pg_engine_run p \<and> \<not> pg_draining p
   | Trading b \<Rightarrow> pg_engine_run p
   | ConsumerStopped \<Rightarrow> \<not> pg_consumer_run p
   | EngineStopped \<Rightarrow> \<not> pg_consumer_run p \<and> \<not> pg_engine_run p \<and> \<not> pg_draining p
   | Finished s \<Rightarrow> \<not> pg_consumer_run p \<and> \<not> pg_engine_run p \<and> \<not> pg_draining p \<and> \<not> gw_run (snd (pg_gateway p)) \<and>
       s = session_summary (pg_config p) (pg_engine p))"

definition program_ok :: "growth \<Rightarrow> ItchWire \<Rightarrow> OuchWire \<Rightarrow> 'p PoolOps \<Rightarrow> 'p Program \<Rightarrow> 'p Program \<Rightarrow> bool" where
  "program_ok g w ow pops p0 p \<longleftrightarrow> pg_config p = pg_config p0 \<and> prefixes_ok p \<and> consumer_part g w p0 p \<and> engine_part pops p0 p \<and>
     gateway_part ow p \<and> good_queue (te_requests (pg_engine p)) \<and> phase_ok p"

lemmas part_defs = prefixes_ok_def consumer_part_def engine_part_def gateway_part_def

subsection \<open>It is kept by every step\<close>

lemma consumer_acts_ok:
  assumes "program_ok g w ow pops p0 p" and "consumer_acts net g w clock bytes ev p = Some p'" and "pg_consumer_run p"
  shows "program_ok g w ow pops p0 p'"
proof -
  from assms(2) obtain x r where x: "consumer_iteration g w bytes ev (pg_consumer p) = Some x" "p' = p\<lparr>pg_registration := r, pg_consumer := x\<rparr>"
    by (auto simp: consumer_acts_def timed_iteration_def)
  from iteration_grows [OF x(1)] obtain us where us: "q_pushed (md_queue (snd x)) = delivered_by p @ us" by (auto simp: grows_def)
  from assms(1) obtain evs where "consumer_run g w evs (pg_consumer p0) = Some (pg_consumer p)" by (auto simp: program_ok_def consumer_part_def)
  from consumer_run_snoc [OF this x(1)] have "consumer_part g w p0 p'" by (auto simp: consumer_part_def x(2))
  with assms(1,3) us show ?thesis by (auto simp: program_ok_def prefixes_ok_def engine_part_def gateway_part_def phase_ok_def x(2) split: MainPhase.splits)
qed


lemma engine_drains_ok:
  assumes ok: "program_ok g w ow pops p0 p" and run: "engine_drains pops j k p = Some p'" and dr: "pg_draining p"
    and jk: "j \<le> length (responses_left p)" "k \<le> length (updates_left p)"
  shows "program_ok g w ow pops p0 p'"
proof -
  let ?rss = "take j (responses_left p)" and ?us = "take k (updates_left p)"
  from run obtain e r where e: "runOnce LiquidityTaker_ops TradingFeatures_ops pops ?rss ?us (pg_engine p) = Some (e, r)"
    and p': "p' = p\<lparr>pg_engine := e, pg_draining := False, pg_responses_popped := pg_responses_popped p + j, pg_updates_popped := pg_updates_popped p + k\<rparr>"
    by (auto simp: engine_drains_def)
  from ok obtain its where its: "engine_run LiquidityTaker_ops TradingFeatures_ops pops its (pg_engine p0) = Some (pg_engine p)" "\<forall>it \<in> set its. fst it"
    "concat (map (fst \<circ> snd) its) = take (pg_responses_popped p) (answered_by p)" "concat (map (snd \<circ> snd) its) = take (pg_updates_popped p) (delivered_by p)"
    by (auto simp: program_ok_def engine_part_def)
  note fl = runOnce_flows [OF e]
  have "engine_part pops p0 p'" unfolding engine_part_def
  proof (intro conjI exI [of _ "its @ [(True, ?rss, ?us)]"])
    show "flows (pg_engine p0) (pg_engine p')" using ok fl by (auto simp: program_ok_def engine_part_def p' intro: flows_trans)
    show "engine_run LiquidityTaker_ops TradingFeatures_ops pops (its @ [(True, ?rss, ?us)]) (pg_engine p0) = Some (pg_engine p')"
      using engine_run_snoc [OF its(1) e] by (simp add: p')
    show "concat (map (fst \<circ> snd) (its @ [(True, ?rss, ?us)])) = take (pg_responses_popped p') (answered_by p')"
      using its(3) by (simp add: p' responses_left_def take_add)
    show "concat (map (snd \<circ> snd) (its @ [(True, ?rss, ?us)])) = take (pg_updates_popped p') (delivered_by p')"
      using its(4) by (simp add: p' updates_left_def take_add)
  qed (use its(2) in auto)
  moreover have "phase_ok p'" using ok dr by (auto simp: program_ok_def phase_ok_def p' split: MainPhase.splits)
  moreover have "good_queue (te_requests e)" using flows_good [OF fl] ok by (simp add: program_ok_def)
  moreover have "prefixes_ok p' \<and> gateway_part ow p'"
    using ok jk flows_prefix [OF fl] by (auto simp: program_ok_def prefixes_ok_def gateway_part_def p' responses_left_def updates_left_def)
  ultimately show ?thesis using ok by (simp add: program_ok_def consumer_part_def p')
qed

lemma gateway_receives_ok:
  assumes ok: "program_ok g w ow pops p0 p"
  shows "program_ok g w ow pops p0 (gateway_receives ow bytes p)"
proof -
  from response_loop_grows [of ow "fst (pg_gateway p) @ bytes" "snd (pg_gateway p)"] obtain rss where
    "answered_by (gateway_receives ow bytes p) = answered_by p @ rss" "sent_by (gateway_receives ow bytes p) = sent_by p"
    "gw_run (snd (pg_gateway (gateway_receives ow bytes p))) = gw_run (snd (pg_gateway p))"
    by (auto simp: gateway_receives_def gw_recvCallback_def)
  with ok show ?thesis
    by (auto simp: program_ok_def part_defs phase_ok_def gateway_receives_def split: MainPhase.splits)
qed

lemma good_take: "good_queue q \<Longrightarrow> \<forall>rq \<in> set (take k (drop n (q_pushed q))). sendable rq"
  by (auto simp: good_queue_def dest: in_set_takeD in_set_dropD)

lemma gateway_never_refuses:
  assumes "good_queue (te_requests (pg_engine p))"
  shows "\<exists>msgs. drainRequests ow (take k (requests_left p)) (snd (pg_gateway p)) = Some ((snd (pg_gateway p))\<lparr>gw_sent := sent_by p @ msgs\<rparr>) \<and>
    list_all2 (announces ow) (take k (requests_left p)) msgs"
  using drain_sendable [OF good_take [OF assms, of k "pg_requests_popped p"], of ow "snd (pg_gateway p)"] by (simp add: requests_left_def)

lemma gateway_sends_ok:
  assumes ok: "program_ok g w ow pops p0 p" and run: "gateway_sends ow k p = Some p'" and k: "k \<le> length (requests_left p)"
  shows "program_ok g w ow pops p0 p'"
proof -
  from gateway_never_refuses [of p ow k] ok obtain msgs where
    m: "drainRequests ow (take k (requests_left p)) (snd (pg_gateway p)) = Some ((snd (pg_gateway p))\<lparr>gw_sent := sent_by p @ msgs\<rparr>)"
      "list_all2 (announces ow) (take k (requests_left p)) msgs" by (auto simp: program_ok_def)
  from run m(1) have p': "p' = p\<lparr>pg_gateway := (fst (pg_gateway p), (snd (pg_gateway p))\<lparr>gw_sent := sent_by p @ msgs\<rparr>),
      pg_requests_popped := pg_requests_popped p + k\<rparr>"
    by (simp add: gateway_sends_def)
  have "gateway_part ow p'" using ok m(2)
    by (simp add: program_ok_def gateway_part_def p' requests_left_def take_add list_all2_appendI)
  with ok k show ?thesis
    by (auto simp: program_ok_def prefixes_ok_def consumer_part_def engine_part_def phase_ok_def p' requests_left_def split: MainPhase.splits)
qed

lemma main_acts_ok:
  assumes ok: "program_ok g w ow pops p0 p" and run: "main_acts p = Some p'"
  shows "program_ok g w ow pops p0 p'"
proof -
  have same: "pg_config p' = pg_config p" "pg_consumer p' = pg_consumer p" "pg_engine p' = pg_engine p" "answered_by p' = answered_by p" "sent_by p' = sent_by p"
    "pg_updates_popped p' = pg_updates_popped p" "pg_requests_popped p' = pg_requests_popped p" "pg_responses_popped p' = pg_responses_popped p"
    using run by (auto simp: main_acts_def gateway_stop_def split: MainPhase.splits if_splits)
  have "phase_ok p'" using run ok
    by (auto simp: program_ok_def main_acts_def phase_ok_def gateway_stop_def split: MainPhase.splits if_splits)
  with ok same show ?thesis by (simp add: program_ok_def part_defs)
qed

lemma program_step_ok:
  assumes "program_step net g w ow pops p p'" and ok: "program_ok g w ow pops p0 p"
  shows "program_ok g w ow pops p0 p'"
  using assms(1)
proof cases
  case ps_signal
  then show ?thesis using ok by (auto simp: program_ok_def part_defs phase_ok_def handleSignal_def split: MainPhase.splits)
next
  case ps_gate
  then show ?thesis using ok by (auto simp: program_ok_def part_defs phase_ok_def split: MainPhase.splits)
next
  case ps_main
  then show ?thesis using main_acts_ok [OF ok] by simp
next
  case (ps_consumer clock bytes ev)
  then show ?thesis using consumer_acts_ok [OF ok] by simp
next
  case (ps_engine j k)
  then show ?thesis using engine_drains_ok [OF ok] by simp
next
  case (ps_receive bytes)
  then show ?thesis using gateway_receives_ok [OF ok] by simp
next
  case (ps_send k)
  then show ?thesis using gateway_sends_ok [OF ok] by simp
qed

lemma program_steps_ok:
  "(program_step net g w ow pops)\<^sup>*\<^sup>* p p' \<Longrightarrow> program_ok g w ow pops p0 p \<Longrightarrow> program_ok g w ow pops p0 p'"
  by (induction rule: rtranclp_induct) (auto intro: program_step_ok)

text \<open>The program that \<^verbatim>\<open>main\<close> starts on empty queues.\<close>

lemma boot_ok:
  assumes "program_boot net now connected mdq rqq rsq pool args = Some p" and "q_pushed mdq = []" "q_pushed rqq = []" "q_pushed rsq = []"
  shows "program_ok g w ow pops p p" and "booted pool (tickers (pg_config p)) (pg_engine p)" and "distinct (tickers (pg_config p))"
    and "pg_consumer p = ([], consumer_start (MarketDataConsumer_init mdq))"
proof -
  from assms(1) obtain cfg e where e: "main_start args rqq pool = Running cfg e" "p = program_init net now connected mdq rsq cfg e"
    by (auto simp: program_boot_def split: MainOutcome.splits)
  have b: "booted pool (tickers cfg) e" by (rule main_booted [OF e(1) assms(3)])
  then show "booted pool (tickers (pg_config p)) (pg_engine p)" by (simp add: e(2) program_init_def)
  from e(1) main_runs_iff [of args rqq pool cfg] show "distinct (tickers (pg_config p))" by (auto simp: e(2) program_init_def)
  show "pg_consumer p = ([], consumer_start (MarketDataConsumer_init mdq))" by (simp add: e(2) program_init_def)
  have "consumer_part g w p p" by (auto simp: consumer_part_def intro: exI [of _ "[]"])
  moreover have "engine_part pops p p" by (auto simp: engine_part_def e(2) program_init_def intro!: exI [of _ "[]"])
  ultimately show "program_ok g w ow pops p p"
    using booted_good [OF b] assms(4)
    by (simp add: program_ok_def prefixes_ok_def gateway_part_def phase_ok_def e(2) program_init_def gateway_start_def OrderGateway_init_def)
qed


subsection \<open>The shutdown and the gate\<close>

text \<open>The actions that are left once the signal has arrived.\<close>

lemma runOnce_nothing: "runOnce ops fops pops [] [] e = Some (e, StrategyRunResult_init)"
  by (simp add: runOnce_def drainResponses_def)

lemma finish_path:
  assumes "pg_main p = ConsumerStopped"
  shows "\<exists>p' s. (program_step net g w ow pops)\<^sup>*\<^sup>* p p' \<and> pg_main p' = Finished s"
proof -
  obtain q where q: "(program_step net g w ow pops)\<^sup>*\<^sup>* p q" "pg_main q = ConsumerStopped" "\<not> pg_draining q"
  proof (cases "pg_draining p")
    case True
    let ?q = "p\<lparr>pg_engine := pg_engine p, pg_draining := False, pg_responses_popped := pg_responses_popped p + 0, pg_updates_popped := pg_updates_popped p + 0\<rparr>"
    have "engine_drains pops 0 0 p = Some ?q" by (simp add: engine_drains_def runOnce_nothing)
    from ps_engine [OF True _ _ this] have "program_step net g w ow pops p ?q" by simp
    then show ?thesis using assms by (intro that [of ?q]) auto
  qed (use assms that in blast)
  let ?r = "q\<lparr>pg_main := EngineStopped, pg_engine_run := False\<rparr>"
  have r: "main_acts q = Some ?r" using q(2,3) by (simp add: main_acts_def)
  obtain p' where p': "main_acts ?r = Some p'" "pg_main p' = Finished (session_summary (pg_config q) (pg_engine q))" by (simp add: main_acts_def)
  have "(program_step net g w ow pops)\<^sup>*\<^sup>* p p'"
    using q(1) ps_main [OF r, of net g w ow pops] ps_main [OF p'(1), of net g w ow pops] by (meson rtranclp.rtrancl_into_rtrancl)
  with p'(2) show ?thesis by blast
qed

lemma stop_path:
  assumes "pg_shutdown p" and "pg_main p = Trading b"
  shows "\<exists>p' s. (program_step net g w ow pops)\<^sup>*\<^sup>* p p' \<and> pg_main p' = Finished s"
proof -
  let ?q = "p\<lparr>pg_main := ConsumerStopped, pg_consumer_run := False\<rparr>"
  have "main_acts p = Some ?q" using assms by (simp add: main_acts_def)
  from ps_main [OF this] have "program_step net g w ow pops p ?q" .
  moreover have "\<exists>p' s. (program_step net g w ow pops)\<^sup>*\<^sup>* ?q p' \<and> pg_main p' = Finished s" by (rule finish_path) simp
  ultimately show ?thesis by (meson converse_rtranclp_into_rtranclp)
qed

lemma shutdown_path:
  assumes sig: "pg_shutdown p"
  shows "\<exists>p' s. (program_step net g w ow pops)\<^sup>*\<^sup>* p p' \<and> pg_main p' = Finished s"
proof (cases "pg_main p")
  case (Polling i)
  let ?q = "p\<lparr>pg_main := Trading False, pg_engine_run := True\<rparr>"
  have "main_acts p = Some ?q" using sig Polling by (simp add: main_acts_def)
  from ps_main [OF this] have "program_step net g w ow pops p ?q" .
  moreover have "\<exists>p' s. (program_step net g w ow pops)\<^sup>*\<^sup>* ?q p' \<and> pg_main p' = Finished s" by (rule stop_path [of _ False]) (simp_all add: sig)
  ultimately show ?thesis by (meson converse_rtranclp_into_rtranclp)
next
  case EngineStopped
  then obtain p' s where "main_acts p = Some p'" "pg_main p' = Finished s" by (simp add: main_acts_def)
  then show ?thesis by (meson ps_main r_into_rtranclp)
qed (use stop_path [OF sig] finish_path in blast)+

text \<open>A thread of the engine that is not draining changes nothing while the gate is closed.\<close>

lemma idle_step:
  assumes "program_step net g w ow pops p p'" and "\<not> pg_draining p" and "\<not> gate_open p"
  shows "pg_engine p' = pg_engine p \<and> \<not> pg_draining p'"
  using assms
proof cases
  case ps_main
  with assms(2) show ?thesis by (auto simp: main_acts_def split: MainPhase.splits if_splits)
next
  case (ps_consumer clock bytes ev)
  with assms(2) show ?thesis by (auto simp: consumer_acts_def)
next
  case (ps_send k)
  with assms(2) show ?thesis by (auto simp: gateway_sends_def)
qed (use assms in \<open>simp_all add: handleSignal_def gateway_receives_def\<close>)

end
