(* ===== verification/Spec2Isabelle.thy ===== *)
theory Spec2Isabelle
  imports Program_Invariant
begin

text \<open>
  AlphaTrader: a verification library for the trading client under \<^verbatim>\<open>src/\<close>.

  \<^bold>\<open>The program.\<close>  Three threads are joined by single-producer single-consumer queues.  The market-data consumer
  (\<^verbatim>\<open>market_data/\<close>) decodes the ITCH feed, keeps its order, recovers gaps over TCP and pushes market updates.  The
  trade engine (\<^verbatim>\<open>trading/\<close>, \<^verbatim>\<open>market_order_book.cpp\<close>) applies them to one book per ticker, computes features, asks
  the strategy of each slot, checks the risk and pushes order requests.  The order gateway (\<^verbatim>\<open>order_gateway/\<close>) sends
  them as OUCH messages and pushes the answers back to the engine.  \<^verbatim>\<open>main.cpp\<close> parses the command line, builds and
  starts the three, and stops them on a signal.

  \<^bold>\<open>Theories and sources.\<close>
  \<^item> \<open>Prelude\<close>: generic lemmas on lists, options, maps and signed words.  \<open>Types\<close>: \<^verbatim>\<open>types.h\<close>.  \<open>Spsc_Queue\<close>: the
    producer's side of the queues.
  \<^item> \<open>Order_Id_Allocator\<close>, \<open>Pnl_Tracker\<close>, \<open>Risk_Manager\<close>, \<open>Order_Manager\<close>: the headers of the same names in
    \<^verbatim>\<open>trading/\<close>.  Locale \<open>risk_gate\<close> is what the order manager asks of its risk manager; it is interpreted on
    \<open>RiskManager_ops\<close>.
  \<^item> \<open>Market_Order_Book\<close>: \<^verbatim>\<open>market_order_book.cpp\<close> on an explicit store of orders and levels.  \<open>Book_Lists\<close>,
    \<open>Book_Refinement\<close> and \<open>Book_Properties\<close>: linked lists in the store, the simulation of the price-time queues of
    the specification, and the properties.
  \<^item> \<open>Features\<close>: \<^verbatim>\<open>features/*.h\<close>, with the locale \<open>quote_feature\<close> shared by the three features of the quote.
    \<open>Strategy\<close>: \<^verbatim>\<open>strategy.h\<close>, with the locale \<open>strategy_contract\<close> interpreted on the liquidity taker.
  \<^item> \<open>Trade_Engine\<close>: \<^verbatim>\<open>trade_engine.h\<close>.  \<open>Engine_Invariant\<close> and \<open>Engine_Properties\<close>: its invariant, its step
    relation \<open>engine_step\<close> and the properties.
  \<^item> \<open>Itch_Decoder\<close>, \<open>Decoder_Properties\<close>: \<^verbatim>\<open>itch_decoder.cpp\<close>.  \<open>Market_Data\<close>: the consumer with
    \<^verbatim>\<open>market_data_incremental.cpp\<close> and \<^verbatim>\<open>market_data_recovery.cpp\<close>.  \<open>Market_Properties\<close>: the invariant of the consumer
    along \<open>consumer_step\<close>.  \<open>Market_Streams\<close>: streams that arrive in pieces.  \<open>Feed_Properties\<close>: the properties.
  \<^item> \<open>Order_Gateway\<close>, \<open>Gateway_Properties\<close>: \<^verbatim>\<open>order_gateway.cpp\<close>.  \<open>Byte_Streams\<close>: the locale \<open>piecewise\<close> of callbacks
    for which it does not matter how the bytes are cut, interpreted on both receive callbacks.
  \<^item> \<open>Main_Config\<close>, \<open>Main_Properties\<close>: the start of \<^verbatim>\<open>main.cpp\<close>.  \<open>Market_Registration\<close>: the registration with the feed
    gateway, its timer and the constructor of the consumer.
  \<^item> \<open>Program\<close>: the three threads, their queues and the main thread as one step relation \<open>program_step\<close>, from the
    command line to the session summary.  \<open>Request_Flow\<close>: what the engine hands to the gateway.  \<open>Feed_Growth\<close>: the
    delivered stream only grows.  \<open>Program_Invariant\<close>: the invariant of the whole program.
  \<^item> This theory: the properties that span components.

  \<^bold>\<open>How state and operations correspond.\<close>  A class is a record with the fields of the class, a method is a function
  that takes and returns the record, under the name of the method, with a prefix where two classes share a name.
  Fixed-width integers are words; a signed value is read with \<open>sint\<close>.  Fixed arrays with a count are the lists of
  their live prefix.  A \<^verbatim>\<open>false\<close> result is a boolean of the result; a failed \<^verbatim>\<open>ASSERT\<close>, a bad pointer access or a
  write through a dangling reference is \<open>None\<close>.  Template arguments that are classes are records of operations.

  \<^bold>\<open>What the lemmas show.\<close>  Ids are distinct and name their slot.  Positions follow the exact ledger.  The pending
  array implements a map; the risk check is characterised exactly and bounds the position under the stated
  condition.  Orders are pushed, reserved and recorded together or not at all, reservations equal open quantities
  along every run, and responses move orders only forward in their life cycle.  The book refines price-time queues
  and releases all its memory.  The decoder refines a map of open orders.  The feed delivered has no gaps, the
  callbacks do not depend on how bytes are cut, and both kinds of recovery complete.  The engine keeps all these
  invariants, and the requests it pushes are accepted by the gateway.  In every interleaving of the threads each
  component is where a run of its own takes it, on prefixes of what the others pushed; the books show the delivered
  feed, nothing is traded while the feed is not synchronized, the shutdown completes and its summary adds up.

  \<^bold>\<open>Concurrency.\<close>  A step of the program is an iteration of the consumer, the load of the gate or a drain of the
  engine, the receiving or the sending half of an iteration of the gateway, an action of the main thread, or the
  signal.  A drain takes any number of the elements in the queue.  The queues are the only shared state besides the
  flag \<^verbatim>\<open>market_data_synchronized\<close>, which is read in a step of its own.

  \<^bold>\<open>Loops.\<close>  There is no fuel.  Loops over bytes and arrays are structural or have a measure.  The walks over linked
  lists and the loops of the consumer are \<^theory_text>\<open>partial_function\<close>s in the option type, with theorems that they return:
  \<open>clear_releases_all\<close>, \<open>book_run_refines\<close>, \<open>market_update_runs\<close>, \<open>recvCallback_leaves_partial_frame\<close>,
  \<open>replay_completes\<close> and \<open>snapshot_completes\<close>.

  \<^bold>\<open>Parameters.\<close>  QuantLink is not under \<^verbatim>\<open>src/\<close>.  Its ITCH and OUCH structs and byte swaps are \<open>ItchWire\<close> and
  \<open>OuchWire\<close>; its object pool is \<open>PoolOps\<close>; the queue is given by the answers of \<^verbatim>\<open>push\<close>.  The growth of
  \<^verbatim>\<open>std::vector\<close> is the parameter \<open>growth\<close>.  What is required of them is a named hypothesis, and the witnesses
  instantiate them with \<open>small_wire\<close>, \<open>small_ouch\<close>, \<open>first_free\<close>, \<open>roomy_queue\<close> and \<open>doubling\<close>.  The addresses
  of the host are \<open>HostNet\<close>, the readings of the clock are arguments.

  \<^bold>\<open>Not modelled.\<close>  Socket calls beyond the bytes they return and the data they send, and their failures other than
  that of the connect of the gateway and of the reads of a recovery; the pinning and sleeping of threads; the memory order of atomics; the logger; the texts printed by \<^verbatim>\<open>main.cpp\<close>.  The tests and the
  Python helpers are not part of the client.
\<close>

section \<open>Across the components\<close>

text \<open>The answer of the exchange to the order with the given token, for closed examples.\<close>

definition demo_reply :: "byte list \<Rightarrow> byte list" where
  "demo_reply token = 0x41 # token @ replicate 17 0"

lemma gate_closed: "te_has_gate e \<Longrightarrow> engine_run ops fops pops (map (\<lambda>(rss, us). (False, rss, us)) its) e = Some e"
  by (induction its) auto

lemma dispatch_token:
  assumes "dispatch w rq gw = Some gw'"
  shows "token_of (last (gw_sent gw')) = makeToken w (rq_client_order_id rq)"
proof -
  from assms dispatch_None [of w rq gw] have "sendable rq" by auto
  from dispatch_Some [OF this, of w gw] assms show ?thesis by (auto simp: announces_def)
qed

text \<open>
  C6.  The gateway never refuses a request of the engine: along every run of the engine from its construction, the
  requests pushed to the queue are new orders that pass the assertions of the gateway, which sends exactly one
  message for each, in their order, under the token of its client order id and for its quantity.
\<close>

theorem gateway_accepts_engine:
  assumes "q_pushed q = []" and "(engine_step pops)\<^sup>*\<^sup>* (TradeEngine_init MaxSlots MaxTickers MaxPending q s n gate pool) e"
  shows "\<exists>msgs. drainRequests w (q_pushed (te_requests e)) gw = Some (gw\<lparr>gw_sent := gw_sent gw @ msgs\<rparr>) \<and>
    list_all2 (announces w) (q_pushed (te_requests e)) msgs \<and> (\<forall>msg \<in> set msgs. kind_of msg = RQ_NEW)"
proof -
  have "good_queue (te_requests e)"
    by (rule engine_steps_good [OF assms(2)]) (simp add: TradeEngine_init_def good_queue_def assms(1))
  then show ?thesis by (rule good_drain)
qed

theorem gateway_accepts_engine_witness:
  "\<exists>msgs. drainRequests small_ouch (q_pushed (te_requests (fst demo_two))) (OrderGateway_init roomy_queue) =
     Some ((OrderGateway_init roomy_queue)\<lparr>gw_sent := gw_sent (OrderGateway_init roomy_queue) @ msgs\<rparr>) \<and> length msgs = 1"
proof -
  have "engine_step (first_free 4) (TradeEngine_init 4 16 64 roomy_queue shipped_taker 1 True []) demo_engine"
    unfolding demo_engine_def by (rule es_register)
  then have run: "(engine_step (first_free 4))\<^sup>*\<^sup>* (TradeEngine_init 4 16 64 roomy_queue shipped_taker 1 True []) (fst demo_two)"
    using demo_step demo_step_two by (meson converse_rtranclp_into_rtranclp rtranclp.rtrancl_refl)
  have "q_pushed roomy_queue = []" by (simp add: roomy_queue_def)
  from gateway_accepts_engine [OF this run, of small_ouch "OrderGateway_init roomy_queue"] obtain msgs where
    m: "drainRequests small_ouch (q_pushed (te_requests (fst demo_two))) (OrderGateway_init roomy_queue) =
      Some ((OrderGateway_init roomy_queue)\<lparr>gw_sent := gw_sent (OrderGateway_init roomy_queue) @ msgs\<rparr>)"
    "list_all2 (announces small_ouch) (q_pushed (te_requests (fst demo_two))) msgs" by blast
  have "length (q_pushed (te_requests (fst demo_two))) = 1" using demo_sends by (metis length_map list.size(3,4) One_nat_def add_0)
  with m list_all2_lengthD [OF m(2)] show ?thesis by auto
qed

text \<open>
  C15.  An answer of the exchange finds the strategy that asked: when a request that carries an id drawn for a slot
  goes out, and a response message of any kind comes back with its token, the parsed response carries that id and
  the allocator names that slot as its owner.
\<close>

theorem reply_reaches_sender:
  assumes w: "swaps_back w" and slot: "slot < slot_count a" "slot < 2 ^ SLOT_BITS"
    and rq: "rq_client_order_id rq = fst (alloc_next slot a)" and sent: "dispatch w rq gw = Some gw'"
    and reply: "ow_token w t msg = token_of (last (gw_sent gw'))"
  shows "rs_client_order_id (parse_response w t msg) = rq_client_order_id rq \<and>
    ownerOf (snd (alloc_next slot a)) (rs_client_order_id (parse_response w t msg)) = slot"
proof -
  have "rs_client_order_id (parse_response w t msg) = parseToken w (ow_token w t msg)"
    by (simp add: parse_response_def Let_def split: OuchType.split)
  also have "\<dots> = rq_client_order_id rq" using dispatch_token [OF sent] reply token_id [OF w] by simp
  finally show ?thesis using owner_of_issued [of slot a "snd (alloc_next slot a)"] slot rq by (simp add: SLOT_BITS_def)
qed

theorem reply_reaches_sender_witness:
  "rs_client_order_id (parse_response small_ouch ORDER_ACCEPTED (demo_reply (makeToken small_ouch 1))) = 1"
proof -
  have "dispatch small_ouch demo_request (OrderGateway_init roomy_queue) \<noteq> None"
    by (simp add: dispatch_None sendable_def demo_request_def TickerId_INVALID_def)
  then obtain gw' where gw': "dispatch small_ouch demo_request (OrderGateway_init roomy_queue) = Some gw'" by auto
  have id: "rq_client_order_id demo_request = 1" by (simp add: demo_request_def)
  have "rq_client_order_id demo_request = fst (alloc_next 0 (OrderIdAllocator_init 1))" by code_simp
  moreover have "ow_token small_ouch ORDER_ACCEPTED (demo_reply (makeToken small_ouch 1)) = token_of (last (gw_sent gw'))"
    using dispatch_token [OF gw'] by (simp add: id small_ouch_def demo_reply_def makeToken_def)
  ultimately show ?thesis
    using reply_reaches_sender [OF small_ouch_swaps, of 0 "OrderIdAllocator_init 1", OF _ _ _ gw'] id
    by (simp add: OrderIdAllocator_init_def SLOT_BITS_def)
qed

text \<open>
  Nothing is traded on a feed that is being recovered: in every state that the consumer reaches in a recovery,
  an engine that has the consumer's flag as its gate does nothing, however often its loop runs and whatever its
  queues hold.
\<close>

theorem recovery_blocks_trading:
  assumes "q_pushed q = []" and "consumer_run g w evs ([], consumer_start (MarketDataConsumer_init q)) = Some (buf, m)"
    and "plain_run g w evs ([], consumer_start (MarketDataConsumer_init q))" and "md_in_recovery m" and "te_has_gate e"
  shows "engine_run ops fops pops (map (\<lambda>(rss, us). (md_synchronized m, rss, us)) its) e = Some e"
proof -
  from consumer_run_ok [OF consumer_run_steps [OF assms(2,3)]] consumer_start_ok [OF assms(1)] have "consumer_ok m" by simp
  with assms(4) have "\<not> md_synchronized m" by (auto simp: consumer_ok_def)
  then show ?thesis using gate_closed [OF assms(5)] by simp
qed

theorem recovery_blocks_trading_witness:
  "engine_run LiquidityTaker_ops TradingFeatures_ops (first_free 4)
     [(md_synchronized (snd demo_consumer), [], [upd ADD SELL 2 104 10 0])] demo_engine = Some demo_engine"
proof -
  have "consumer_run doubling feed_wire [] demo_consumer = Some ([], snd demo_consumer)" by simp
  moreover have "plain_run doubling feed_wire [] demo_consumer" "md_in_recovery (snd demo_consumer)" "te_has_gate demo_engine" by code_simp+
  ultimately show ?thesis
    using recovery_blocks_trading [of roomy_queue doubling feed_wire "[]" "[]" "snd demo_consumer" demo_engine
        LiquidityTaker_ops TradingFeatures_ops "first_free 4" "[([], [upd ADD SELL 2 104 10 0])]"]
    by (simp add: roomy_queue_def)
qed


section \<open>The whole program\<close>

subsection \<open>An example run\<close>

text \<open>The two orders that arrive while the snapshot loads: a large bid and a small offer, so that the taker buys.\<close>

definition demo_feed :: "byte list" where
  "demo_feed = frame_of 5 (add_of 1) @ frame_of 6 [0x41, 7, 2, 0, 1, 104, 0x53]"

definition demo_boot :: "bool \<Rightarrow> addr list Program" where
  "demo_boot connected = the (program_boot loopback_net 3 connected roomy_queue roomy_queue roomy_queue [] [''--ticker'', ''1799''])"

definition demo_synced :: "bool \<Rightarrow> addr list Program" where
  "demo_synced c = the (consumer_acts loopback_net doubling feed_wire (5, 6) demo_feed (TcpData (empty_snapshot 4)) (demo_boot c))"

definition demo_trading :: "bool \<Rightarrow> addr list Program" where
  "demo_trading c = (the (main_acts (demo_synced c)))\<lparr>pg_draining := True\<rparr>"

definition demo_traded :: "bool \<Rightarrow> addr list Program" where
  "demo_traded c = the (engine_drains (first_free 4) 0 4 (demo_trading c))"

lemma demo_boot_eq: "program_boot loopback_net 3 True roomy_queue roomy_queue roomy_queue [] [''--ticker'', ''1799''] = Some (demo_boot True)"
proof -
  have "program_boot loopback_net 3 True roomy_queue roomy_queue roomy_queue ([] :: addr list) [''--ticker'', ''1799''] \<noteq> None" by code_simp
  then show ?thesis by (auto simp: demo_boot_def)
qed

lemma roomy_empty: "q_pushed roomy_queue = []"
  by (simp add: roomy_queue_def)

abbreviation demo_steps :: "addr list Program \<Rightarrow> addr list Program \<Rightarrow> bool" where
  "demo_steps \<equiv> (program_step loopback_net doubling feed_wire small_ouch (first_free 4))\<^sup>*\<^sup>*"

lemma demo_consumer_acts:
  "consumer_acts loopback_net doubling feed_wire (5, 6) demo_feed (TcpData (empty_snapshot 4)) (demo_boot True) = Some (demo_synced True)"
proof -
  have "consumer_acts loopback_net doubling feed_wire (5, 6) demo_feed (TcpData (empty_snapshot 4)) (demo_boot True) \<noteq> None" by code_simp
  then show ?thesis by (auto simp: demo_synced_def)
qed

lemma demo_main_acts: "main_acts (demo_synced True) = Some (the (main_acts (demo_synced True)))"
proof -
  have "main_acts (demo_synced True) \<noteq> None" by code_simp
  then show ?thesis by auto
qed

lemma demo_engine_drains: "engine_drains (first_free 4) 0 4 (demo_trading True) = Some (demo_traded True)"
proof -
  have "engine_drains (first_free 4) 0 4 (demo_trading True) \<noteq> None" by code_simp
  then show ?thesis by (auto simp: demo_traded_def)
qed

lemma demo_session: "demo_steps (demo_boot True) (demo_traded True)"
proof -
  let ?t = "the (main_acts (demo_synced True))"
  have run: "pg_consumer_run (demo_boot True)" by code_simp
  have "demo_steps (demo_boot True) (demo_synced True)"
    by (rule r_into_rtranclp, rule ps_consumer [OF run demo_consumer_acts])
  also have "demo_steps (demo_synced True) ?t" by (rule r_into_rtranclp, rule ps_main [OF demo_main_acts])
  also have "demo_steps ?t (demo_trading True)" unfolding demo_trading_def
  proof (rule r_into_rtranclp, rule ps_gate)
    show "pg_engine_run ?t" by code_simp
    show "\<not> pg_draining ?t" by code_simp
    show "gate_open ?t" by code_simp
  qed
  also have "demo_steps (demo_trading True) (demo_traded True)"
  proof (rule r_into_rtranclp, rule ps_engine [OF _ _ _ demo_engine_drains])
    show "pg_draining (demo_trading True)" by code_simp
    show "4 \<le> length (updates_left (demo_trading True))" by code_simp
  qed simp
  finally show ?thesis .
qed



subsection \<open>Properties\<close>

text \<open>
  C5.  The program is the composition of its parts: in every interleaving of the threads, the consumer is where a run
  of its own takes it, and delivers a stream without gaps when the frames outside snapshots carry no control codes.
  The engine is where a run of its own takes it on the responses and updates it popped, which are prefixes of what
  the gateway and the consumer pushed, in order.  The messages sent are those of the requests popped, one each and
  in order, and no request in the queue can make the gateway fail its assertions.
\<close>

theorem program_composes:
  assumes boot: "program_boot net now connected mdq rqq rsq pool args = Some p0" and empty: "q_pushed mdq = []" "q_pushed rqq = []" "q_pushed rsq = []"
    and run: "(program_step net g w ow pops)\<^sup>*\<^sup>* p0 p"
  shows "(\<exists>evs. consumer_run g w evs (pg_consumer p0) = Some (pg_consumer p) \<and> (plain_run g w evs (pg_consumer p0) \<longrightarrow>
       follow (delivered_by p) (0, False) = Some (md_next_exp (snd (pg_consumer p)), False))) \<and>
    (\<exists>its. engine_run LiquidityTaker_ops TradingFeatures_ops pops its (pg_engine p0) = Some (pg_engine p) \<and>
       concat (map (fst \<circ> snd) its) = take (pg_responses_popped p) (answered_by p) \<and>
       concat (map (snd \<circ> snd) its) = take (pg_updates_popped p) (delivered_by p)) \<and>
    list_all2 (announces ow) (take (pg_requests_popped p) (requested_by p)) (sent_by p) \<and> (\<forall>k. gateway_sends ow k p \<noteq> None)"
proof -
  note start = boot_ok [OF boot empty]
  have ok: "program_ok g w ow pops p0 p" by (rule program_steps_ok [OF run start(1)])
  then obtain evs where evs: "consumer_run g w evs (pg_consumer p0) = Some (pg_consumer p)" by (auto simp: program_ok_def consumer_part_def)
  have "follow (delivered_by p) (0, False) = Some (md_next_exp (snd (pg_consumer p)), False)" if "plain_run g w evs (pg_consumer p0)"
  proof -
    have "consumer_ok (snd (pg_consumer p))"
      using consumer_run_ok [OF consumer_run_steps [OF evs that]] consumer_start_ok [OF empty(1)] start(4) by simp
    then show ?thesis by (auto simp: consumer_ok_def)
  qed
  moreover have "gateway_sends ow k p \<noteq> None" for k
    using gateway_never_refuses [of p ow k] ok by (auto simp: gateway_sends_def program_ok_def)
  ultimately show ?thesis using evs ok by (auto simp: program_ok_def engine_part_def gateway_part_def)
qed



theorem program_composes_witness:
  "(\<exists>its. engine_run LiquidityTaker_ops TradingFeatures_ops (first_free 4) its (pg_engine (demo_boot True)) = Some (pg_engine (demo_traded True)) \<and>
     concat (map (snd \<circ> snd) its) = take (pg_updates_popped (demo_traded True)) (delivered_by (demo_traded True))) \<and>
   (\<forall>k. gateway_sends small_ouch k (demo_traded True) \<noteq> None)"
proof -
  note c = program_composes [OF demo_boot_eq roomy_empty roomy_empty roomy_empty demo_session]
  from c [THEN conjunct2, THEN conjunct1] obtain its where
    "engine_run LiquidityTaker_ops TradingFeatures_ops (first_free 4) its (pg_engine (demo_boot True)) = Some (pg_engine (demo_traded True))"
    "concat (map (snd \<circ> snd) its) = take (pg_updates_popped (demo_traded True)) (delivered_by (demo_traded True))" by (elim exE conjE)
  with c [THEN conjunct2, THEN conjunct2, THEN conjunct2] show ?thesis by (intro conjI exI)
qed



text \<open>
  C14.  Every book shows the feed: in every state of the program, the book of each ticker of the configuration is the
  one that results from applying, to a new book, the updates that the engine has popped, a prefix of the stream
  that the consumer delivered.
\<close>

theorem books_follow_delivered_feed:
  assumes boot: "program_boot net now connected mdq rqq rsq pool args = Some p0" and empty: "q_pushed mdq = []" "q_pushed rqq = []" "q_pushed rsq = []"
    and run: "(program_step net g w ow pops)\<^sup>*\<^sup>* p0 p" and i: "i < length (tickers (pg_config p))"
  shows "book_run pops (take (pg_updates_popped p) (delivered_by p)) (MarketOrderBook_init (tickers (pg_config p) ! i) pool) =
    Some (tb_book (te_tickers (pg_engine p) ! i))"
proof -
  note start = boot_ok [OF boot empty]
  have ok: "program_ok g w ow pops p0 p" by (rule program_steps_ok [OF run start(1)])
  then obtain its where its: "engine_run LiquidityTaker_ops TradingFeatures_ops pops its (pg_engine p0) = Some (pg_engine p)" "\<forall>it \<in> set its. fst it"
    "concat (map (snd \<circ> snd) its) = take (pg_updates_popped p) (delivered_by p)" by (auto simp: program_ok_def engine_part_def)
  have cfg: "pg_config p = pg_config p0" using ok by (simp add: program_ok_def)
  have "te_tickers (pg_engine p0) = map (\<lambda>t. \<lparr>tb_ticker_id = t, tb_book = MarketOrderBook_init t pool\<rparr>) (tickers (pg_config p0))"
    using start(2) by (simp add: booted_def)
  with engine_run_books [OF its(1) booted_registry [OF start(2,3)] its(2)] its(3) i cfg show ?thesis by simp
qed



theorem books_follow_delivered_feed_witness:
  "book_run (first_free 4) (take 4 (delivered_by (demo_traded True))) (MarketOrderBook_init 1799 []) = Some (tb_book (te_tickers (pg_engine (demo_traded True)) ! 1))"
proof -
  have k: "pg_updates_popped (demo_traded True) = 4" by code_simp
  have n: "1 < length (tickers (pg_config (demo_traded True)))" by code_simp
  have t: "tickers (pg_config (demo_traded True)) ! 1 = 1799" by code_simp
  from books_follow_delivered_feed [OF demo_boot_eq roomy_empty roomy_empty roomy_empty demo_session n] show ?thesis by (simp only: k t)
qed


text \<open>
  C16.  The session summary adds up: when the program has finished, the summary exists, and its \<^verbatim>\<open>orders sent\<close> is the
  number of messages that the gateway sent and of requests that were still in its queue.
\<close>

theorem summary_counts_orders:
  assumes boot: "program_boot net now connected mdq rqq rsq pool args = Some p0" and empty: "q_pushed mdq = []" "q_pushed rqq = []" "q_pushed rsq = []"
    and run: "(program_step net g w ow pops)\<^sup>*\<^sup>* p0 p" and fin: "pg_main p = Finished s"
  shows "\<exists>sm. s = Some sm \<and> ss_orders_sent sm = length (sent_by p) + length (requests_left p)"
proof -
  note start = boot_ok [OF boot empty]
  have ok: "program_ok g w ow pops p0 p" by (rule program_steps_ok [OF run start(1)])
  then have fl: "flows (pg_engine p0) (pg_engine p)" and s: "s = session_summary (pg_config p) (pg_engine p)"
    and sent: "list_all2 (announces ow) (take (pg_requests_popped p) (requested_by p)) (sent_by p)" and le: "pg_requests_popped p \<le> length (requested_by p)"
    using fin by (simp_all add: program_ok_def engine_part_def phase_ok_def gateway_part_def prefixes_ok_def)
  from start(2) have e0: "slotCount (pg_engine p0) = 1" "total_new (pg_engine p0) = 0" "requested_by p0 = []"
    by (simp_all add: booted_def registered_def)
  have cnt: "slotCount (pg_engine p) = 1" "total_new (pg_engine p) = length (requested_by p)"
    using fl e0 flows_balance [OF fl] by (simp_all add: flows_def)
  then obtain sl where "te_slots (pg_engine p) = [sl]" by (auto simp: slotCount_def length_Suc_conv)
  with cnt have "newOrderCount (sl_om (te_slots (pg_engine p) ! 0)) = length (requested_by p)" by (simp add: total_new_def newOrderCount_def)
  moreover have "length (requested_by p) = length (sent_by p) + length (requests_left p)"
    using list_all2_lengthD [OF sent] le by (simp add: requests_left_def)
  ultimately show ?thesis using cnt(1) by (simp add: s session_summary_def engine_orders_def engine_pnl_def)
qed

definition demo_over :: "bool \<Rightarrow> addr list Program" where
  "demo_over c = the (main_acts (the (main_acts (the (main_acts (handleSignal (the (gateway_sends small_ouch 1 (demo_traded c)))))))))"

lemma demo_over_run: "demo_steps (demo_boot True) (demo_over True)"
proof -
  let ?a = "the (gateway_sends small_ouch 1 (demo_traded True))"
  let ?b = "handleSignal ?a" let ?c = "the (main_acts ?b)" let ?d = "the (main_acts ?c)"
  have "gateway_sends small_ouch 1 (demo_traded True) \<noteq> None" "main_acts ?b \<noteq> None" "main_acts ?c \<noteq> None" "main_acts ?d \<noteq> None"
    by code_simp+
  then have eq: "gateway_sends small_ouch 1 (demo_traded True) = Some ?a" "main_acts ?b = Some ?c" "main_acts ?c = Some ?d"
    "main_acts ?d = Some (demo_over True)" by (auto simp: demo_over_def)
  have run: "gw_run (snd (pg_gateway (demo_traded True)))" and one: "1 \<le> length (requests_left (demo_traded True))" by code_simp+
  note demo_session
  also have "demo_steps (demo_traded True) ?a" by (rule r_into_rtranclp, rule ps_send [OF run one eq(1)])
  also have "demo_steps ?a ?b" by (rule r_into_rtranclp, rule ps_signal)
  also have "demo_steps ?b ?c" by (rule r_into_rtranclp, rule ps_main [OF eq(2)])
  also have "demo_steps ?c ?d" by (rule r_into_rtranclp, rule ps_main [OF eq(3)])
  also have "demo_steps ?d (demo_over True)" by (rule r_into_rtranclp, rule ps_main [OF eq(4)])
  finally show ?thesis .
qed

theorem summary_counts_orders_witness:
  "\<exists>sm. pg_main (demo_over True) = Finished (Some sm) \<and> ss_orders_sent sm = 1"
proof -
  obtain s where s: "pg_main (demo_over True) = Finished s"
  proof -
    have "case pg_main (demo_over True) of Finished s \<Rightarrow> True | _ \<Rightarrow> False" by code_simp
    then show thesis using that by (cases "pg_main (demo_over True)") simp_all
  qed
  have n: "length (sent_by (demo_over True)) = 1" by code_simp
  have l: "length (requests_left (demo_over True)) = 0" by code_simp
  from summary_counts_orders [OF demo_boot_eq roomy_empty roomy_empty roomy_empty demo_over_run s] n l s show ?thesis by auto
qed



text \<open>
  C13.  Nothing is traded on a feed that is not synchronized: from any state of the program in which the engine is not
  in the middle of an iteration, for as long as the flag of the consumer is down, the engine does not change,
  whatever all threads do, and the gateway sends no more than the requests that were there.
\<close>

theorem no_trading_unsynchronized:
  assumes boot: "program_boot net now connected mdq rqq rsq pool args = Some p0" and empty: "q_pushed mdq = []" "q_pushed rqq = []" "q_pushed rsq = []"
    and run: "(program_step net g w ow pops)\<^sup>*\<^sup>* p0 p" and idle: "\<not> pg_draining p"
    and dark: "(\<lambda>a b. program_step net g w ow pops a b \<and> \<not> md_synchronized (snd (pg_consumer a)))\<^sup>*\<^sup>* p p'"
  shows "pg_engine p' = pg_engine p \<and> length (sent_by p') \<le> length (requested_by p)"
proof -
  have ok: "program_ok g w ow pops p0 p" by (rule program_steps_ok [OF run boot_ok(1) [OF boot empty]])
  have gate: "te_has_gate (pg_engine p)" using ok boot_ok(2) [OF boot empty] by (simp add: program_ok_def engine_part_def flows_def booted_def)
  from dark have inv: "pg_engine p' = pg_engine p \<and> \<not> pg_draining p' \<and> program_ok g w ow pops p0 p'"
  proof (induction rule: rtranclp_induct)
    case (step a b)
    with idle_step [of net g w ow pops a b] program_step_ok [of net g w ow pops a b p0] gate show ?case by (auto simp: gate_open_def)
  qed (use idle ok in simp)
  then have "list_all2 (announces ow) (take (pg_requests_popped p') (requested_by p')) (sent_by p')" by (auto simp: program_ok_def gateway_part_def)
  from list_all2_lengthD [OF this] inv show ?thesis by simp
qed

theorem no_trading_unsynchronized_witness:
  "pg_engine (the (main_acts (demo_boot True))) = pg_engine (demo_boot True) \<and> sent_by (the (main_acts (demo_boot True))) = []"
proof -
  let ?p = "the (main_acts (demo_boot True))"
  have "main_acts (demo_boot True) \<noteq> None" by code_simp
  then have "main_acts (demo_boot True) = Some ?p" by auto
  then have "program_step loopback_net doubling feed_wire small_ouch (first_free 4) (demo_boot True) ?p" by (rule ps_main)
  moreover have "\<not> md_synchronized (snd (pg_consumer (demo_boot True)))" by code_simp
  ultimately have dark: "(\<lambda>a b. program_step loopback_net doubling feed_wire small_ouch (first_free 4) a b \<and> \<not> md_synchronized (snd (pg_consumer a)))\<^sup>*\<^sup>*
      (demo_boot True) ?p" by (intro r_into_rtranclp conjI)
  have idle: "\<not> pg_draining (demo_boot True)" by code_simp
  have "length (requested_by (demo_boot True)) = 0" by code_simp
  with no_trading_unsynchronized [OF demo_boot_eq roomy_empty roomy_empty roomy_empty rtranclp.rtrancl_refl idle dark] show ?thesis by simp
qed

text \<open>
  A session that is not connected: \<^verbatim>\<open>main\<close> does not learn that \<^verbatim>\<open>gateway.start\<close> failed to connect, the engine trades
  all the same, and the summary counts an order as sent that never left the queue.
\<close>

theorem unsent_order_counted:
  "case pg_main (the (main_acts (the (main_acts (the (main_acts (handleSignal (demo_traded False)))))))) of
     Finished (Some sm) \<Rightarrow> ss_orders_sent sm = 1 | _ \<Rightarrow> False"
  "sent_by (demo_traded False) = [] \<and> \<not> gw_run (snd (pg_gateway (demo_traded False)))"
  by code_simp+

end
